(* ===== verification/Go_Prelude.thy ===== *)
theory Go_Prelude
  imports
    Main
    "HOL-Library.Word"
    "HOL-Library.Finite_Map"
    "HOL-Library.List_Lexorder"
    "HOL-Library.Char_ord"
begin

text \<open>
  The part of Go the sources use, and the generic lemmas the components share.

  \<^item> \<open>int64\<close>, \<open>int32\<close>, \<open>uint32\<close>, \<open>uint64\<close> are words: arithmetic wraps, and the signed
    comparisons of Go are comparisons of \<^const>\<open>sint\<close>.
  \<^item> \<open>map[string]V\<close> is a finite map \<open>(string, 'v) fmap\<close>. A Go string is a sequence of bytes,
    hence a list of (8 bit) characters. Reading a missing key gives the zero value
    (\<open>gget\<close>), \<open>m[k] = v\<close> is \<^const>\<open>fmupd\<close>, \<open>delete(m, k)\<close> is \<^const>\<open>fmdrop\<close>, and a
    \<open>nil\<close> map reads like the empty one.
  \<^item> \<open>for k, v := range m { body }\<close> is \<open>go_range body m s\<close>: a fold of the body over the entries.
    Go leaves the order of iteration open; the model runs the loop in key order, and
    the interface \<open>keywise_loop\<close> below proves that every order gives the same result for
    the loops whose body touches the current key only.
  \<^item> \<open>time.Time\<close> is the number of nanoseconds since the zero time, \<open>time.Duration\<close> a number of
    nanoseconds, and \<open>time.Now()\<close> is an argument \<open>now\<close> of the operation that calls it.
\<close>

section \<open>Types\<close>

type_synonym int64 = "64 word"
type_synonym int32 = "32 word"
type_synonym uint32 = "32 word"
type_synonym uint64 = "64 word"
type_synonym 'v gomap = "(string, 'v) fmap"
type_synonym go_time = int
type_synonym duration = int

named_theorems go_simps \<open>lookups after the map operations and loops of the sources\<close>
named_theorems loop_defs \<open>the bodies of the range loops and their effect on one key\<close>

section \<open>Maps and range loops\<close>

definition gget :: "int64 gomap \<Rightarrow> string \<Rightarrow> int64" where
  "gget m k = (case fmlookup m k of None \<Rightarrow> 0 | Some v \<Rightarrow> v)"

definition go_range :: "(string \<Rightarrow> 'v \<Rightarrow> 's \<Rightarrow> 's) \<Rightarrow> 'v gomap \<Rightarrow> 's \<Rightarrow> 's" where
  "go_range body m s = fold (\<lambda>(k, v). body k v) (sorted_list_of_fmap m) s"

definition go_len :: "'v gomap \<Rightarrow> nat" where
  "go_len m = length (sorted_list_of_fmap m)"

section \<open>Strings\<close>

definition HasPrefix :: "string \<Rightarrow> string \<Rightarrow> bool" where
  "HasPrefix s p \<longleftrightarrow> take (length p) s = p"

fun Contains :: "string \<Rightarrow> string \<Rightarrow> bool" where
  "Contains [] sub \<longleftrightarrow> sub = []"
| "Contains (c # s) sub \<longleftrightarrow> HasPrefix (c # s) sub \<or> Contains s sub"

fun IndexByte :: "string \<Rightarrow> char \<Rightarrow> int" where
  "IndexByte [] c = -1"
| "IndexByte (x # s) c =
     (if x = c then 0 else (let i = IndexByte s c in if i < 0 then -1 else i + 1))"

definition TrimPrefix :: "string \<Rightarrow> string \<Rightarrow> string" where
  "TrimPrefix s p = (if HasPrefix s p then drop (length p) s else s)"

section \<open>Time\<close>

abbreviation millisecond :: duration where "millisecond \<equiv> 1000000"
abbreviation second :: duration where "second \<equiv> 1000000000"

text \<open>\<open>t.Sub(u)\<close> saturates at the smallest and the largest duration.\<close>

definition time_sub :: "go_time \<Rightarrow> go_time \<Rightarrow> duration" where
  "time_sub t u = max (- (2 ^ 63)) (min (2 ^ 63 - 1) (t - u))"

text \<open>\<open>time.Unix(sec, 0)\<close> and \<open>t.Unix()\<close>; the Unix epoch is 62135596800 seconds after the zero time.\<close>

definition time_of_unix :: "int \<Rightarrow> go_time" where
  "time_of_unix sec = (sec + 62135596800) * second"

definition unix_of_time :: "go_time \<Rightarrow> int" where
  "unix_of_time t = t div second - 62135596800"

section \<open>Generic lemmas\<close>

lemma unix_of_time_of_unix [simp]: "unix_of_time (time_of_unix s) = s"
  by (simp add: unix_of_time_def time_of_unix_def)

lemma sint_eq_iff [simp]: "sint (a :: int64) = sint b \<longleftrightarrow> a = b"
  by (auto intro: signed_word_eqI)

lemma sint_int64: "- (2 ^ 63) \<le> x \<Longrightarrow> x < 2 ^ 63 \<Longrightarrow> sint (word_of_int x :: int64) = x"
  by (simp add: int_word_sint)

lemma sint_int64_range: "- (2 ^ 63) \<le> sint (w :: int64) \<and> sint (w :: int64) < 2 ^ 63"
  using sint_ge [of w] sint_lt [of w] by simp

lemma int64_of_sint: "word_of_int (sint w) = (w :: int64)"
  by (rule signed_word_eqI) (use sint_int64 sint_int64_range in blast)

lemma sint_add_int64:
  "- (2 ^ 63) \<le> sint a + sint b \<Longrightarrow> sint a + sint b < 2 ^ 63 \<Longrightarrow> sint (a + b :: int64) = sint a + sint b"
  by (simp add: sint_word_add signed_take_bit_int_eq_self)

lemma gget_empty [simp]: "gget fmempty k = 0"
  by (simp add: gget_def)

lemma gget_upd [simp]: "gget (fmupd k v m) j = (if j = k then v else gget m j)"
  by (simp add: gget_def)

lemma gget_drop [simp]: "gget (fmdrop k m) j = (if j = k then 0 else gget m j)"
  by (simp add: gget_def)

lemma gget_filter [simp]: "gget (fmfilter P m) j = (if P j then gget m j else 0)"
  by (simp add: gget_def)

lemma gget_Some [simp]: "fmlookup m k = Some v \<Longrightarrow> gget m k = v"
  by (simp add: gget_def)

lemma gget_None [simp]: "fmlookup m k = None \<Longrightarrow> gget m k = 0"
  by (simp add: gget_def)

lemma keys_sorted_list_of_fmap [simp]: "map fst (sorted_list_of_fmap m) = sorted_list_of_fset (fmdom m)"
  by (simp add: sorted_list_of_fmap_def comp_def)

lemma distinct_keys_sorted_list_of_fmap [simp]: "distinct (map fst (sorted_list_of_fmap m))"
  by (simp add: sorted_list_of_fset.rep_eq)

lemma set_sorted_list_of_fmap: "(k, v) \<in> set (sorted_list_of_fmap m) \<longleftrightarrow> fmlookup m k = Some v"
proof -
  have "(k, v) \<in> set (sorted_list_of_fmap m) \<longleftrightarrow> map_of (sorted_list_of_fmap m) k = Some v"
    using distinct_keys_sorted_list_of_fmap map_of_eq_Some_iff by metis
  then show ?thesis by simp
qed

lemma map_of_enumeration: "fmap_of_list xs = m \<Longrightarrow> map_of xs = fmlookup m"
  using fmlookup_of_list by metis

lemma go_len_zero [simp]: "go_len m = 0 \<longleftrightarrow> m = fmempty"
proof
  assume "go_len m = 0"
  then have "sorted_list_of_fmap m = []" by (simp add: go_len_def)
  then have "fmlookup m = map_of []" using map_of_sorted_list by metis
  then show "m = fmempty" by (intro fmap_ext) simp
qed (simp add: go_len_def sorted_list_of_fmap_def sorted_list_of_fset.rep_eq)

lemma HasPrefix_append [simp]: "HasPrefix (p @ s) p"
  by (simp add: HasPrefix_def)

lemma HasPrefix_iff: "HasPrefix s p \<longleftrightarrow> (\<exists>t. s = p @ t)"
  by (metis HasPrefix_append HasPrefix_def append_take_drop_id)

lemma TrimPrefix_append [simp]: "TrimPrefix (p @ s) p = s"
  by (simp add: TrimPrefix_def)

lemma Contains_byte [simp]: "Contains s [c] \<longleftrightarrow> c \<in> set s"
  by (induction s) (auto simp: HasPrefix_def)

lemma IndexByte_absent: "c \<notin> set s \<Longrightarrow> IndexByte s c = -1"
  by (induction s) auto

lemma IndexByte_append: "c \<notin> set s \<Longrightarrow> IndexByte (s @ c # t) c = int (length s)"
  by (induction s) auto

lemma IndexByte_ge: "-1 \<le> IndexByte s c"
  by (induction s) (auto simp: Let_def)

lemma IndexByte_found:
  "IndexByte s c = i \<Longrightarrow> 0 \<le> i \<Longrightarrow> s = take (nat i) s @ c # drop (Suc (nat i)) s \<and> c \<notin> set (take (nat i) s)"
proof (induction s arbitrary: i)
  case Nil
  then show ?case by simp
next
  case (Cons x s)
  show ?case
  proof (cases "x = c")
    case True
    with Cons.prems show ?thesis by simp
  next
    case False
    with Cons.prems have "0 \<le> IndexByte s c" and i: "i = IndexByte s c + 1"
      by (auto simp: Let_def split: if_splits)
    with Cons.IH [of "IndexByte s c"] False show ?thesis
      by (simp add: nat_add_distrib)
  qed
qed

section \<open>Loops that touch the current key only\<close>

text \<open>
  The interface of most range loops of the sources: the body changes nothing but the entry of the
  key it is at. Such a loop has a pointwise description, and the order of iteration does not matter.
\<close>

locale keywise_loop =
  fixes body :: "string \<Rightarrow> 'v \<Rightarrow> 'w gomap \<Rightarrow> 'w gomap"
    and upd :: "string \<Rightarrow> 'v \<Rightarrow> 'w option \<Rightarrow> 'w option"
  assumes body_lookup:
    "fmlookup (body k v m) j = (if j = k then upd k v (fmlookup m k) else fmlookup m j)"
begin

lemma fold_lookup:
  "distinct (map fst xs) \<Longrightarrow>
   fmlookup (fold (\<lambda>(k, v). body k v) xs m) j =
     (case map_of xs j of None \<Rightarrow> fmlookup m j | Some v \<Rightarrow> upd j v (fmlookup m j))"
proof (induction xs arbitrary: m)
  case Nil
  then show ?case by simp
next
  case (Cons x xs)
  obtain k v where x: "x = (k, v)" by (cases x)
  from Cons.prems x have "map_of xs k = None" by (auto simp: map_of_eq_None_iff)
  with Cons x show ?case by (auto simp: body_lookup split: option.split)
qed

lemma range_lookup:
  "fmlookup (go_range body b m) j =
     (case fmlookup b j of None \<Rightarrow> fmlookup m j | Some v \<Rightarrow> upd j v (fmlookup m j))"
  by (simp add: go_range_def fold_lookup del: keys_sorted_list_of_fmap)

lemma any_order:
  assumes "distinct (map fst xs)" and "fmap_of_list xs = b"
  shows "fold (\<lambda>(k, v). body k v) xs m = go_range body b m"
  using assms by (intro fmap_ext) (simp add: fold_lookup range_lookup map_of_enumeration)

end

section \<open>Loops that add up\<close>

text \<open>The loop \<open>for k, v := range m { if P(k) { s += v } }\<close> and its value as a sum of words.\<close>

definition sum_where :: "(string \<Rightarrow> bool) \<Rightarrow> int64 gomap \<Rightarrow> int64" where
  "sum_where P m = go_range (\<lambda>k v s. if P k then s + v else s) m 0"

definition key_sum :: "(string \<Rightarrow> bool) \<Rightarrow> int64 gomap \<Rightarrow> int64" where
  "key_sum P m = (\<Sum>k \<in> {k \<in> fset (fmdom m). P k}. gget m k)"

lemma fold_sum_where:
  "fold (\<lambda>(k, v) s. if P k then s + v else s) xs (s :: int64) =
     s + (\<Sum>(k, v) \<leftarrow> xs. if P k then v else 0)"
  by (induction xs arbitrary: s) (auto simp: algebra_simps)

lemma sum_where_eq_sum: "sum_where P m = key_sum P m"
proof -
  let ?f = "\<lambda>k. if P k then gget m k else 0"
  have "sum_where P m = (\<Sum>(k, v) \<leftarrow> sorted_list_of_fmap m. if P k then v else 0)"
    by (simp add: sum_where_def go_range_def case_prod_beta' fold_sum_where [unfolded case_prod_beta'])
  also have "\<dots> = (\<Sum>k \<leftarrow> sorted_list_of_fset (fmdom m). ?f k)"
    unfolding sorted_list_of_fmap_def
    by (simp add: comp_def, intro arg_cong [where f = sum_list] map_cong refl)
       (auto simp: gget_def fmlookup_dom_iff split: option.split)
  also have "\<dots> = (\<Sum>k \<in> fset (fmdom m). ?f k)"
    by (simp add: sorted_list_of_fset.rep_eq sum_list_distinct_conv_sum_set)
  also have "\<dots> = key_sum P m"
    by (simp add: key_sum_def sum.inter_filter)
  finally show ?thesis .
qed

lemma key_sum_mono_neutral:
  assumes "finite A" and "fset (fmdom m) \<subseteq> A"
  shows "key_sum P m = (\<Sum>k \<in> {k \<in> A. P k}. gget m k)"
  unfolding key_sum_def
  using assms by (intro sum.mono_neutral_left) (auto simp: gget_def fmlookup_dom_iff split: option.splits)

lemma key_sum_upd: "key_sum P (fmupd k v m) = key_sum P m + (if P k then v - gget m k else 0)"
proof -
  let ?A = "insert k (fset (fmdom m))"
  have "key_sum P (fmupd k v m) = (\<Sum>j \<in> {j \<in> ?A. P j}. gget (fmupd k v m) j)"
    by (rule key_sum_mono_neutral) auto
  moreover have "key_sum P m = (\<Sum>j \<in> {j \<in> ?A. P j}. gget m j)"
    by (rule key_sum_mono_neutral) auto
  moreover have "(\<Sum>j \<in> {j \<in> ?A. P j}. gget (fmupd k v m) j) =
      (\<Sum>j \<in> {j \<in> ?A. P j}. gget m j + (if j = k then v - gget m k else 0))"
    by (rule sum.cong) auto
  ultimately show ?thesis by (auto simp: sum.distrib)
qed

lemma key_sum_zero: "(\<And>k. P k \<Longrightarrow> gget m k = 0) \<Longrightarrow> key_sum P m = 0"
  by (simp add: key_sum_def)

lemma key_sum_cong: "(\<And>k. P k \<Longrightarrow> gget m k = gget m' k) \<Longrightarrow> key_sum P m = key_sum P m'"
proof -
  assume eq: "\<And>k. P k \<Longrightarrow> gget m k = gget m' k"
  let ?A = "fset (fmdom m) \<union> fset (fmdom m')"
  have "key_sum P m = (\<Sum>k \<in> {k \<in> ?A. P k}. gget m k)"
    by (rule key_sum_mono_neutral) auto
  also have "\<dots> = (\<Sum>k \<in> {k \<in> ?A. P k}. gget m' k)"
    using eq by (intro sum.cong) auto
  also have "\<dots> = key_sum P m'"
    by (rule key_sum_mono_neutral [symmetric]) auto
  finally show ?thesis .
qed

end
