(* ===== verification/Replication.thy ===== *)
theory Replication
  imports Go_Prelude
begin

text \<open>
  What the cluster relies on of a replicated state: the contract \<open>join_state\<close> of a merge operation
  (on the states that satisfy its invariant, merging is commutative, associative and idempotent)
  and what follows from it for any provider: the result of merging a collection of states does not
  depend on order, repetition or grouping, and pairwise exchanges spread knowledge.
\<close>

section \<open>Least upper bounds and exchanges\<close>

definition is_join_of :: "('s \<Rightarrow> bool) \<Rightarrow> ('s \<Rightarrow> 's \<Rightarrow> 's) \<Rightarrow> 's set \<Rightarrow> 's \<Rightarrow> bool" where
  "is_join_of invar merge S r \<longleftrightarrow>
     invar r \<and> (\<forall>x \<in> S. merge r x = r) \<and>
     (\<forall>u. invar u \<longrightarrow> (\<forall>x \<in> S. merge u x = u) \<longrightarrow> merge u r = u)"

text \<open>
  One exchange between the nodes \<open>i\<close> and \<open>j\<close> leaves both with the merge of their states; a
  schedule is a list of exchanges. \<open>know\<close> follows which initial states have reached a node.
\<close>

definition exchange :: "('s \<Rightarrow> 's \<Rightarrow> 's) \<Rightarrow> nat \<times> nat \<Rightarrow> (nat \<Rightarrow> 's) \<Rightarrow> nat \<Rightarrow> 's" where
  "exchange merge e st = (case e of (i, j) \<Rightarrow>
     (let r = merge (st j) (st i) in st(i := r, j := r)))"

definition know :: "nat \<times> nat \<Rightarrow> (nat \<Rightarrow> nat set) \<Rightarrow> nat \<Rightarrow> nat set" where
  "know e K = (case e of (i, j) \<Rightarrow> K(i := K i \<union> K j, j := K i \<union> K j))"

section \<open>The contract of a merge operation\<close>

locale join_state =
  fixes invar :: "'s \<Rightarrow> bool"
    and merge :: "'s \<Rightarrow> 's \<Rightarrow> 's"
  assumes merge_invar: "invar a \<Longrightarrow> invar b \<Longrightarrow> invar (merge a b)"
    and merge_comm: "invar a \<Longrightarrow> invar b \<Longrightarrow> merge a b = merge b a"
    and merge_assoc: "invar a \<Longrightarrow> invar b \<Longrightarrow> invar c \<Longrightarrow> merge (merge a b) c = merge a (merge b c)"
    and merge_idem: "invar a \<Longrightarrow> merge a a = a"
begin

lemma join_of_self: "invar a \<Longrightarrow> is_join_of invar merge {a} a"
  by (simp add: is_join_of_def merge_idem)

lemma join_of_unique:
  assumes "is_join_of invar merge S a" and "is_join_of invar merge S b"
  shows "a = b"
  using assms merge_comm [of a b] unfolding is_join_of_def by metis

lemma merge_absorbs:
  assumes "invar a" "invar b" "invar x" "merge a x = a"
  shows "merge (merge a b) x = merge a b"
  using assms merge_assoc [of a b x] merge_assoc [of a x b] merge_comm [of b x] by simp

lemma join_of_union:
  assumes a: "is_join_of invar merge S a" and b: "is_join_of invar merge T b"
    and inv: "\<forall>x \<in> S \<union> T. invar x"
  shows "is_join_of invar merge (S \<union> T) (merge a b)"
proof -
  have ia: "invar a" and ib: "invar b"
    using a b by (auto simp: is_join_of_def)
  have S: "merge (merge a b) x = merge a b" if "x \<in> S" for x
    using that a inv ia ib by (intro merge_absorbs) (auto simp: is_join_of_def)
  have T: "merge (merge a b) x = merge a b" if "x \<in> T" for x
    using that b inv ia ib merge_comm [of a b] merge_absorbs [of b a x] by (auto simp: is_join_of_def)
  have least: "merge u (merge a b) = u"
    if "invar u" and "\<forall>x \<in> S \<union> T. merge u x = u" for u
  proof -
    from that a b have "merge u a = u" and "merge u b = u"
      by (auto simp: is_join_of_def)
    with merge_assoc [OF \<open>invar u\<close> ia ib] show ?thesis by simp
  qed
  show ?thesis
    using S T least merge_invar [OF ia ib] by (auto simp: is_join_of_def)
qed

lemma fold_merge_join:
  assumes "is_join_of invar merge S s" and "\<forall>x \<in> S \<union> set xs. invar x"
  shows "is_join_of invar merge (S \<union> set xs) (fold (\<lambda>x r. merge r x) xs s)"
  using assms
proof (induction xs arbitrary: s S)
  case Nil
  then show ?case by simp
next
  case (Cons x xs)
  have "is_join_of invar merge (S \<union> {x}) (merge s x)"
    using Cons.prems by (intro join_of_union join_of_self) auto
  then have "is_join_of invar merge ((S \<union> {x}) \<union> set xs) (fold (\<lambda>x r. merge r x) xs (merge s x))"
    by (rule Cons.IH) (use Cons.prems in auto)
  then show ?case by simp
qed

lemma fold_merge_same:
  assumes "set (s # xs) = set (t # ys)" and "\<forall>x \<in> set (s # xs). invar x"
  shows "fold (\<lambda>x r. merge r x) xs s = fold (\<lambda>x r. merge r x) ys t"
proof -
  have "is_join_of invar merge ({s} \<union> set xs) (fold (\<lambda>x r. merge r x) xs s)"
    using assms(2) by (intro fold_merge_join join_of_self) auto
  moreover have "is_join_of invar merge ({t} \<union> set ys) (fold (\<lambda>x r. merge r x) ys t)"
    using assms(2) unfolding assms(1) by (intro fold_merge_join join_of_self) auto
  moreover have "{s} \<union> set xs = {t} \<union> set ys" using assms(1) by simp
  ultimately show ?thesis using join_of_unique by metis
qed

lemma exchange_join:
  assumes "\<forall>n. is_join_of invar merge (init ` K n) (st n)" and "\<forall>n. invar (init n)"
  shows "is_join_of invar merge (init ` know e K n) (exchange merge e st n)"
proof -
  obtain i j where e: "e = (i, j)" by (cases e)
  have "is_join_of invar merge (init ` K j \<union> init ` K i) (merge (st j) (st i))"
    using assms by (intro join_of_union) auto
  then have "is_join_of invar merge (init ` (K i \<union> K j)) (merge (st j) (st i))"
    by (simp add: image_Un Un_commute)
  with assms(1) e show ?thesis by (simp add: exchange_def know_def Let_def)
qed

lemma schedule_join_from:
  assumes "\<forall>n. invar (init n)" and "\<forall>n. is_join_of invar merge (init ` K n) (st n)"
  shows "is_join_of invar merge (init ` fold know es K n) (fold (exchange merge) es st n)"
  using assms(2)
proof (induction es arbitrary: K st)
  case Nil
  then show ?case by simp
next
  case (Cons e es)
  have "\<forall>n. is_join_of invar merge (init ` know e K n) (exchange merge e st n)"
    using exchange_join [OF Cons.prems assms(1)] by blast
  from Cons.IH [OF this] show ?case by simp
qed

lemma schedule_join:
  assumes "\<forall>n. invar (init n)"
  shows "is_join_of invar merge (init ` fold know es (\<lambda>n. {n}) n) (fold (exchange merge) es init n)"
  using assms by (intro schedule_join_from) (auto simp: join_of_self)

lemma schedule_converges:
  assumes "\<forall>n. invar (init n)"
    and "fold know es (\<lambda>n. {n}) i = fold know es (\<lambda>n. {n}) j"
  shows "fold (exchange merge) es init i = fold (exchange merge) es init j"
  using schedule_join [OF assms(1), of es i] schedule_join [OF assms(1), of es j] assms(2)
  by (simp add: join_of_unique)

end

section \<open>States seen through a projection\<close>

text \<open>A merge that satisfies the laws only after a projection of the states, which it respects: what the projection shows converges
  whatever the states are.\<close>

locale join_image = join_state invar merge
  for invar :: "'s \<Rightarrow> bool" and merge :: "'s \<Rightarrow> 's \<Rightarrow> 's" +
  fixes img :: "'t \<Rightarrow> 's"
    and raw_merge :: "'t \<Rightarrow> 't \<Rightarrow> 't"
  assumes img_invar: "invar (img a)"
    and img_merge: "img (raw_merge a b) = merge (img a) (img b)"
begin

lemma img_fold: "img (fold (\<lambda>x r. raw_merge r x) xs s) = fold (\<lambda>x r. merge r x) (map img xs) (img s)"
  by (induction xs arbitrary: s) (simp_all add: img_merge)

lemma img_fold_same:
  assumes "set (s # xs) = set (t # ys)"
  shows "img (fold (\<lambda>x r. raw_merge r x) xs s) = img (fold (\<lambda>x r. raw_merge r x) ys t)"
proof -
  from assms have "img ` set (s # xs) = img ` set (t # ys)" by simp
  then have "set (img s # map img xs) = set (img t # map img ys)" by simp
  from fold_merge_same [OF this] show ?thesis by (simp add: img_fold img_invar)
qed

lemma img_absorb: "img (raw_merge a (raw_merge b a)) = img (raw_merge b a)"
  by (simp add: img_merge) (metis img_invar merge_assoc merge_comm merge_idem merge_invar)

end

section \<open>Componentwise merging\<close>

text \<open>A pair of states with mergeable components is mergeable.\<close>

locale join_state_pair =
  fst: join_state invar1 merge1 + snd: join_state invar2 merge2
  for invar1 :: "'a \<Rightarrow> bool" and merge1 :: "'a \<Rightarrow> 'a \<Rightarrow> 'a"
    and invar2 :: "'b \<Rightarrow> bool" and merge2 :: "'b \<Rightarrow> 'b \<Rightarrow> 'b"

sublocale join_state_pair \<subseteq> pair: join_state
  "\<lambda>s. invar1 (fst s) \<and> invar2 (snd s)"
  "\<lambda>s t. (merge1 (fst s) (fst t), merge2 (snd s) (snd t))"
  by unfold_locales
    (auto intro: fst.merge_invar snd.merge_invar
      simp: fst.merge_comm snd.merge_comm fst.merge_assoc snd.merge_assoc fst.merge_idem snd.merge_idem)

end
