(* ===== verification/Max_Merge.thy ===== *)
theory Max_Merge
  imports Replication
begin

text \<open>
  The merge loop of the sources,
  \<^verbatim>\<open>for node, v := range other { if v > m[node] { m[node] = v } }\<close>,
  which \<open>PNCounter.Merge\<close>, \<open>VectorClock.MergeMap\<close>, \<open>VectorClock.Merge\<close> and \<open>MergeClock\<close> all run,
  its effect on one key, and the laws it satisfies on maps with positive entries.
\<close>

definition merge_body :: "string \<Rightarrow> int64 \<Rightarrow> int64 gomap \<Rightarrow> int64 gomap" where
  "merge_body node v m = (if sint (gget m node) < sint v then fmupd node v m else m)"

definition merge_max :: "int64 gomap \<Rightarrow> int64 gomap \<Rightarrow> int64 gomap" where
  "merge_max m other = go_range merge_body other m"

definition merge_upd :: "string \<Rightarrow> int64 \<Rightarrow> int64 option \<Rightarrow> int64 option" where
  "merge_upd node v old =
     (if sint (case old of None \<Rightarrow> 0 | Some w \<Rightarrow> w) < sint v then Some v else old)"

text \<open>Merging is a join where every stored count is positive. The code does not enforce that: a request with a negative delta may
  store a count below zero, which no merge passes on. \<open>above_zero\<close> is the part of a map that merges do pass on.\<close>

definition counts_positive :: "int64 gomap \<Rightarrow> bool" where
  "counts_positive m \<longleftrightarrow> fmpred (\<lambda>_ v. 0 < sint v) m"

definition above_zero :: "int64 gomap \<Rightarrow> int64 gomap" where
  "above_zero m = fmfilter (\<lambda>k. 0 < sint (gget m k)) m"

section \<open>One key\<close>

lemmas [loop_defs] = merge_body_def merge_upd_def

interpretation merge_loop: keywise_loop merge_body merge_upd
  by unfold_locales (simp add: loop_defs gget_def)

lemma merge_upd_gget: "merge_upd k v (fmlookup m k) = (if sint (gget m k) < sint v then Some v else fmlookup m k)"
  by (simp add: merge_upd_def gget_def)

lemma fmlookup_merge_max [go_simps]:
  "fmlookup (merge_max m other) k =
     (case fmlookup other k of None \<Rightarrow> fmlookup m k
      | Some v \<Rightarrow> if sint (gget m k) < sint v then Some v else fmlookup m k)"
  unfolding merge_max_def by (cases "fmlookup other k") (simp_all add: merge_loop.range_lookup merge_upd_gget)

lemma gget_merge_max [go_simps]:
  "gget (merge_max m other) k =
     (case fmlookup other k of None \<Rightarrow> gget m k
      | Some v \<Rightarrow> if sint (gget m k) < sint v then v else gget m k)"
  by (cases "fmlookup other k"; cases "fmlookup m k") (auto simp: gget_def [of "merge_max m other"] fmlookup_merge_max)

lemma merge_max_inflates: "sint (gget m k) \<le> sint (gget (merge_max m other) k)"
  by (simp add: gget_merge_max split: option.split)

lemma merge_max_covers: "fmlookup other k = Some v \<Longrightarrow> sint v \<le> sint (gget (merge_max m other) k)"
  by (simp add: gget_merge_max)

lemma merge_max_empty [simp]: "merge_max m fmempty = m"
  by (rule fmap_ext) (simp add: fmlookup_merge_max)

section \<open>The laws of the merge\<close>

lemma counts_positiveD: "counts_positive m \<Longrightarrow> fmlookup m k = Some v \<Longrightarrow> 0 < sint v"
  by (auto simp: counts_positive_def)

lemma counts_positiveI: "(\<And>k v. fmlookup m k = Some v \<Longrightarrow> 0 < sint v) \<Longrightarrow> counts_positive m"
  by (auto simp: counts_positive_def)

lemma counts_positive_empty [simp]: "counts_positive fmempty"
  by (simp add: counts_positive_def)

lemma gget_nonneg: "counts_positive m \<Longrightarrow> 0 \<le> sint (gget m k)"
  by (cases "fmlookup m k") (auto dest: counts_positiveD)

lemma gget_merge_max_sint:
  "counts_positive m \<Longrightarrow> counts_positive other \<Longrightarrow>
   sint (gget (merge_max m other) k) = max (sint (gget m k)) (sint (gget other k))"
  using gget_nonneg [of m k] by (auto simp: gget_merge_max split: option.split)

lemma counts_positive_merge_max:
  "counts_positive m \<Longrightarrow> counts_positive other \<Longrightarrow> counts_positive (merge_max m other)"
  by (rule counts_positiveI)
    (auto simp: fmlookup_merge_max dest: counts_positiveD split: option.splits if_splits)

lemma counts_positive_ext:
  assumes "counts_positive m" "counts_positive m'" "\<And>k. sint (gget m k) = sint (gget m' k)"
  shows "m = m'"
proof (rule fmap_ext)
  fix k
  from assms(3) [of k] have "gget m k = gget m' k" by simp
  with counts_positiveD [OF assms(1), of k] counts_positiveD [OF assms(2), of k]
  show "fmlookup m k = fmlookup m' k"
    by (cases "fmlookup m k"; cases "fmlookup m' k") auto
qed

interpretation max_join: join_state counts_positive merge_max
proof unfold_locales
  fix a b c :: "int64 gomap" 
  assume a: "counts_positive a"
  show "merge_max a a = a"
    using a by (intro counts_positive_ext) (simp_all add: counts_positive_merge_max gget_merge_max_sint)
  assume b: "counts_positive b"
  show "counts_positive (merge_max a b)"
    using a b by (rule counts_positive_merge_max)
  show "merge_max a b = merge_max b a"
    using a b by (intro counts_positive_ext) (simp_all add: counts_positive_merge_max gget_merge_max_sint)
  assume c: "counts_positive c"
  show "merge_max (merge_max a b) c = merge_max a (merge_max b c)"
    using a b c by (intro counts_positive_ext) (simp_all add: counts_positive_merge_max gget_merge_max_sint)
qed

section \<open>The part above zero\<close>

lemma fmlookup_above_zero: "fmlookup (above_zero m) k = (if 0 < sint (gget m k) then fmlookup m k else None)"
  by (simp add: above_zero_def)

lemma gget_above_zero: "sint (gget (above_zero m) k) = max 0 (sint (gget m k))"
  by (cases "fmlookup m k") (auto simp: gget_def fmlookup_above_zero)

lemma counts_positive_above_zero [simp]: "counts_positive (above_zero m)"
  by (rule counts_positiveI) (auto simp: fmlookup_above_zero gget_def split: if_splits)

lemma above_zero_id: "counts_positive m \<Longrightarrow> above_zero m = m"
  by (rule counts_positive_ext) (simp_all add: gget_above_zero gget_nonneg max_absorb2)

interpretation shown: join_image counts_positive merge_max above_zero merge_max
proof unfold_locales
  fix a b
  have "max 0 (sint (gget (merge_max a b) k)) = max (max 0 (sint (gget a k))) (max 0 (sint (gget b k)))" for k
    by (auto simp: gget_merge_max gget_def [of b] split: option.split)
  then show "above_zero (merge_max a b) = merge_max (above_zero a) (above_zero b)"
    by (intro counts_positive_ext) (simp_all add: counts_positive_merge_max gget_merge_max_sint gget_above_zero)
qed simp

end
