(* ===== verification/Json.thy ===== *)
theory Json
  imports Go_Prelude "HOL-Library.Monad_Syntax"
begin

text \<open>
  What the sources use of Go's \<open>encoding/json\<close>: the text that \<open>Marshal\<close> writes for strings, numbers, maps
  and structs, and the values that \<open>Unmarshal\<close> reads from a text. A text is first checked and parsed into
  a \<open>json\<close> value, then stored into a struct field by field, as the package does. The log and the store use it.
\<close>

section \<open>Values\<close>

datatype json = JNull | JBool bool | JNum string | JStr string | JArr "json list" | JObj "(string \<times> json) list"

abbreviation byte :: "char \<Rightarrow> nat" where "byte c \<equiv> of_char c"
abbreviation dquote :: char where "dquote \<equiv> CHR 0x22"
abbreviation backslash :: char where "backslash \<equiv> CHR 0x5C"

section \<open>UTF-8\<close>

definition cont_byte :: "char \<Rightarrow> bool" where
  "cont_byte c \<longleftrightarrow> 0x80 \<le> byte c \<and> byte c \<le> 0xBF"

text \<open>The range of the second byte depends on the first (\<open>utf8.DecodeRune\<close>).\<close>

definition second_byte :: "nat \<Rightarrow> char \<Rightarrow> bool" where
  "second_byte b c \<longleftrightarrow>
     (if b = 0xE0 then 0xA0 else if b = 0xF0 then 0x90 else 0x80) \<le> byte c \<and>
     byte c \<le> (if b = 0xED then 0x9F else if b = 0xF4 then 0x8F else 0xBF)"

text \<open>The number of bytes of the rune a text starts with, 0 when it starts with none.\<close>

definition utf8_size :: "string \<Rightarrow> nat" where
  "utf8_size s =
     (case s of
        [] \<Rightarrow> 0
      | c # r \<Rightarrow>
          (let b = byte c
           in if b < 0x80 then 1
              else if 0xC2 \<le> b \<and> b \<le> 0xDF
              then (case r of c1 # _ \<Rightarrow> if cont_byte c1 then 2 else 0 | _ \<Rightarrow> 0)
              else if 0xE0 \<le> b \<and> b \<le> 0xEF
              then (case r of c1 # c2 # _ \<Rightarrow> if second_byte b c1 \<and> cont_byte c2 then 3 else 0 | _ \<Rightarrow> 0)
              else if 0xF0 \<le> b \<and> b \<le> 0xF4
              then (case r of c1 # c2 # c3 # _ \<Rightarrow> if second_byte b c1 \<and> cont_byte c2 \<and> cont_byte c3 then 4 else 0
                    | _ \<Rightarrow> 0)
              else 0))"

function valid_utf8 :: "string \<Rightarrow> bool" where
  "valid_utf8 s = (if s = [] then True else if utf8_size s = 0 then False else valid_utf8 (drop (utf8_size s) s))"
  by pat_completeness auto
termination by (relation "measure length") auto

declare valid_utf8.simps [simp del]

text \<open>\<open>utf8.AppendRune\<close> for the code points that \<open>\u\<close> escapes denote.\<close>

definition encode_rune :: "nat \<Rightarrow> string" where
  "encode_rune u =
     (if u < 0x80 then [char_of u]
      else if u < 0x800 then [char_of (0xC0 + u div 64), char_of (0x80 + u mod 64)]
      else if u < 0x10000
      then [char_of (0xE0 + u div 4096), char_of (0x80 + u div 64 mod 64), char_of (0x80 + u mod 64)]
      else [char_of (0xF0 + u div 262144), char_of (0x80 + u div 4096 mod 64), char_of (0x80 + u div 64 mod 64),
            char_of (0x80 + u mod 64)])"

section \<open>Writing\<close>

definition hex_digit :: "nat \<Rightarrow> char" where
  "hex_digit n = char_of (if n < 10 then 48 + n else 87 + n)"

definition escape_byte :: "char \<Rightarrow> string" where
  "escape_byte c =
     (if c = dquote \<or> c = backslash then [backslash, c]
      else if byte c = 8 then [backslash, CHR ''b'']
      else if byte c = 9 then [backslash, CHR ''t'']
      else if byte c = 10 then [backslash, CHR ''n'']
      else if byte c = 12 then [backslash, CHR ''f'']
      else if byte c = 13 then [backslash, CHR ''r'']
      else if byte c < 0x20 \<or> c \<in> set ''<>&''
      then [backslash, CHR ''u'', CHR ''0'', CHR ''0'', hex_digit (byte c div 16), hex_digit (byte c mod 16)]
      else [c])"

definition escape_rune :: "string \<Rightarrow> string" where
  "escape_rune u =
     (if u = encode_rune 0x2028 then backslash # ''u2028''
      else if u = encode_rune 0x2029 then backslash # ''u2029'' else u)"

function escape :: "string \<Rightarrow> string" where
  "escape s =
     (case s of
        [] \<Rightarrow> []
      | c # r \<Rightarrow>
          if byte c < 0x80 then escape_byte c @ escape r
          else if utf8_size s = 0 then (backslash # ''ufffd'') @ escape r
          else escape_rune (take (utf8_size s) s) @ escape (drop (utf8_size s) s))"
  by pat_completeness auto
termination by (relation "measure length") auto

declare escape.simps [simp del]

definition quoted :: "string \<Rightarrow> string" where
  "quoted s = dquote # escape s @ [dquote]"

fun nat_text :: "nat \<Rightarrow> string" where
  "nat_text n = (if n < 10 then [char_of (48 + n)] else nat_text (n div 10) @ [char_of (48 + n mod 10)])"

declare nat_text.simps [simp del]

definition int_text :: "int \<Rightarrow> string" where
  "int_text i = (if i < 0 then CHR ''-'' # nat_text (nat (- i)) else nat_text (nat i))"

fun commas :: "string list \<Rightarrow> string" where
  "commas [] = []"
| "commas [x] = x"
| "commas (x # xs) = x @ CHR '','' # commas xs"

fun render :: "json \<Rightarrow> string" where
  "render JNull = ''null''"
| "render (JBool b) = (if b then ''true'' else ''false'')"
| "render (JNum l) = l"
| "render (JStr s) = quoted s"
| "render (JArr xs) = CHR ''['' # commas (map render xs) @ '']''"
| "render (JObj kvs) = CHR ''{'' # commas (map (\<lambda>(k, v). quoted k @ CHR '':'' # render v) kvs) @ ''}''"

section \<open>Reading\<close>

definition is_digit :: "char \<Rightarrow> bool" where
  "is_digit c \<longleftrightarrow> 48 \<le> byte c \<and> byte c \<le> 57"

definition hex_value :: "char \<Rightarrow> nat option" where
  "hex_value c =
     (if is_digit c then Some (byte c - 48)
      else if 97 \<le> byte c \<and> byte c \<le> 102 then Some (byte c - 87)
      else if 65 \<le> byte c \<and> byte c \<le> 70 then Some (byte c - 55) else None)"

definition skip_ws :: "string \<Rightarrow> string" where
  "skip_ws = dropWhile (\<lambda>c. byte c \<in> {32, 9, 13, 10})"

definition next_char :: "string \<Rightarrow> (char \<times> string) option" where
  "next_char s = (case skip_ws s of [] \<Rightarrow> None | c # r \<Rightarrow> Some (c, r))"

text \<open>The scanner's pass over a string literal: up to the closing dquote, escapes checked but kept.\<close>

fun scan_string :: "string \<Rightarrow> (string \<times> string) option" where
  "scan_string [] = None"
| "scan_string (c # r) =
     (if c = dquote then Some ([], r)
      else if c = backslash
      then (case r of
              [] \<Rightarrow> None
            | e # r1 \<Rightarrow>
                if e \<in> {dquote, backslash} \<union> set ''/bfnrt''
                then map_option (apfst (\<lambda>b. c # e # b)) (scan_string r1)
                else if e = CHR ''u''
                then (if 4 \<le> length r1 \<and> list_all (\<lambda>h. hex_value h \<noteq> None) (take 4 r1)
                      then map_option (apfst (\<lambda>b. c # e # take 4 r1 @ b)) (scan_string (drop 4 r1)) else None)
                else None)
      else if byte c < 0x20 then None
      else map_option (apfst (\<lambda>b. c # b)) (scan_string r))"

definition hex4 :: "string \<Rightarrow> nat" where
  "hex4 s = fold (\<lambda>h u. 16 * u + (case hex_value h of None \<Rightarrow> 0 | Some n \<Rightarrow> n)) (take 4 s) 0"

definition unescape :: "char \<Rightarrow> char" where
  "unescape e =
     (if e = CHR ''b'' then char_of (8 :: nat) else if e = CHR ''t'' then char_of (9 :: nat)
      else if e = CHR ''n'' then char_of (10 :: nat) else if e = CHR ''f'' then char_of (12 :: nat)
      else if e = CHR ''r'' then char_of (13 :: nat) else e)"

abbreviation replacement :: string where "replacement \<equiv> [CHR 0xEF, CHR 0xBF, CHR 0xBD]"

text \<open>\<open>unquote\<close>: the bytes a checked literal stands for; broken UTF-8 and lone surrogates become U+FFFD.\<close>

function unquote :: "string \<Rightarrow> string" where
  "unquote s =
     (case s of
        [] \<Rightarrow> []
      | c # r \<Rightarrow>
          if c = backslash
          then (case r of
                  [] \<Rightarrow> []
                | e # r1 \<Rightarrow>
                    if e \<noteq> CHR ''u'' then unescape e # unquote r1
                    else (let u = hex4 r1; r2 = drop 4 r1; v = hex4 (drop 2 r2)
                          in if u < 0xD800 \<or> 0xDFFF < u then encode_rune u @ unquote r2
                             else if u < 0xDC00 \<and> HasPrefix r2 [backslash, CHR ''u''] \<and> 0xDC00 \<le> v \<and> v \<le> 0xDFFF
                             then encode_rune (0x10000 + (u - 0xD800) * 0x400 + (v - 0xDC00)) @ unquote (drop 6 r2)
                             else replacement @ unquote r2))
          else if byte c < 0x80 then c # unquote r
          else if utf8_size s = 0 then replacement @ unquote r
          else take (utf8_size s) s @ unquote (drop (utf8_size s) s))"
  by pat_completeness auto
termination by (relation "measure length") auto

declare unquote.simps [simp del]

text \<open>Number literals.\<close>

definition read_digits :: "string \<Rightarrow> (string \<times> string) option" where
  "read_digits s =
     (if takeWhile is_digit s = [] then None else Some (takeWhile is_digit s, dropWhile is_digit s))"

definition read_whole :: "string \<Rightarrow> (string \<times> string) option" where
  "read_whole s = (if HasPrefix s ''0'' then Some (''0'', drop 1 s) else read_digits s)"

definition read_frac :: "string \<Rightarrow> (string \<times> string) option" where
  "read_frac s =
     (case s of
        c # r \<Rightarrow> if c = CHR ''.'' then map_option (apfst ((#) c)) (read_digits r) else Some ([], s)
      | [] \<Rightarrow> Some ([], s))"

definition read_exp :: "string \<Rightarrow> (string \<times> string) option" where
  "read_exp s =
     (case s of
        c # r \<Rightarrow>
          if c \<in> set ''eE''
          then (case r of
                  e # r1 \<Rightarrow>
                    if e \<in> set ''+-'' then map_option (apfst (\<lambda>ds. c # e # ds)) (read_digits r1)
                    else map_option (apfst ((#) c)) (read_digits r)
                | [] \<Rightarrow> None)
          else Some ([], s)
      | [] \<Rightarrow> Some ([], s))"

definition read_num :: "string \<Rightarrow> (string \<times> string) option" where
  "read_num s = do {
     let (sign, r) = (if HasPrefix s ''-'' then (''-'', drop 1 s) else ([], s));
     (w, r) \<leftarrow> read_whole r;
     (f, r) \<leftarrow> read_frac r;
     (e, r) \<leftarrow> read_exp r;
     Some (sign @ w @ f @ e, r)
   }"

text \<open>The fuel bounds the nesting and the number of elements; the length of the text is always enough. Go
  refuses more than 10000 open objects and arrays.\<close>

fun parse_value :: "nat \<Rightarrow> nat \<Rightarrow> string \<Rightarrow> (json \<times> string) option"
  and parse_elems :: "nat \<Rightarrow> nat \<Rightarrow> string \<Rightarrow> (json list \<times> string) option"
  and parse_members :: "nat \<Rightarrow> nat \<Rightarrow> string \<Rightarrow> ((string \<times> json) list \<times> string) option" where
  "parse_value 0 d s = None"
| "parse_value (Suc n) d s = do {
     (c, r) \<leftarrow> next_char s;
     if c = dquote then map_option (\<lambda>(b, r). (JStr (unquote b), r)) (scan_string r)
     else if c = CHR ''{'' then
       (if 10000 \<le> d then None
        else do {
          (c1, r1) \<leftarrow> next_char r;
          if c1 = CHR ''}'' then Some (JObj [], r1)
          else map_option (apfst JObj) (parse_members n (Suc d) r)
        })
     else if c = CHR ''['' then
       (if 10000 \<le> d then None
        else do {
          (c1, r1) \<leftarrow> next_char r;
          if c1 = CHR '']'' then Some (JArr [], r1)
          else map_option (apfst JArr) (parse_elems n (Suc d) r)
        })
     else if HasPrefix (c # r) ''null'' then Some (JNull, drop 3 r)
     else if HasPrefix (c # r) ''true'' then Some (JBool True, drop 3 r)
     else if HasPrefix (c # r) ''false'' then Some (JBool False, drop 4 r)
     else map_option (apfst JNum) (read_num (c # r))
   }"
| "parse_elems 0 d s = None"
| "parse_elems (Suc n) d s = do {
     (v, r) \<leftarrow> parse_value n d s;
     (c, r) \<leftarrow> next_char r;
     if c = CHR '']'' then Some ([v], r)
     else if c = CHR '','' then map_option (apfst ((#) v)) (parse_elems n d r)
     else None
   }"
| "parse_members 0 d s = None"
| "parse_members (Suc n) d s = do {
     (c, r) \<leftarrow> next_char s;
     if c \<noteq> dquote then None
     else do {
       (k, r) \<leftarrow> scan_string r;
       (c, r) \<leftarrow> next_char r;
       if c \<noteq> CHR '':'' then None
       else do {
         (v, r) \<leftarrow> parse_value n d r;
         (c, r) \<leftarrow> next_char r;
         if c = CHR ''}'' then Some ([(unquote k, v)], r)
         else if c = CHR '','' then map_option (apfst ((#) (unquote k, v))) (parse_members n d r)
         else None
       }
     }
   }"

lemmas parse_simps = parse_value.simps parse_elems.simps parse_members.simps

declare parse_simps [simp del]

definition parse_json :: "string \<Rightarrow> json option" where
  "parse_json s =
     (case parse_value (Suc (length s)) 0 s of
        None \<Rightarrow> None
      | Some (v, r) \<Rightarrow> if skip_ws r = [] then Some v else None)"


section \<open>Strings are read back\<close>

lemma utf8_size_le: "utf8_size s \<le> length s"
  by (auto simp: utf8_size_def Let_def split: list.splits)

lemma utf8_size_cases:
  assumes "utf8_size s \<noteq> 0"
  obtains (1) c r where "s = c # r" "byte c < 0x80" "\<And>x. utf8_size (c # x) = 1"
  | (2) c c1 r where "s = c # c1 # r" "0x80 \<le> byte c" "cont_byte c1" "\<And>x. utf8_size (c # c1 # x) = 2"
  | (3) c c1 c2 r where "s = c # c1 # c2 # r" "0x80 \<le> byte c" "second_byte (byte c) c1" "cont_byte c2"
      "\<And>x. utf8_size (c # c1 # c2 # x) = 3"
  | (4) c c1 c2 c3 r where "s = c # c1 # c2 # c3 # r" "0x80 \<le> byte c" "second_byte (byte c) c1" "cont_byte c2"
      "cont_byte c3" "\<And>x. utf8_size (c # c1 # c2 # c3 # x) = 4"
proof -
  obtain c r where s: "s = c # r" using assms by (cases s) (auto simp: utf8_size_def)
  let ?b = "byte c"
  consider "?b < 0x80" | "0xC2 \<le> ?b" "?b \<le> 0xDF" | "0xE0 \<le> ?b" "?b \<le> 0xEF" | "0xF0 \<le> ?b" "?b \<le> 0xF4"
    using assms s by (auto simp: utf8_size_def Let_def split: if_splits)
  then show thesis
  proof cases
    case 1
    with s show ?thesis by (intro that(1)) (auto simp: utf8_size_def)
  next
    case 2
    with assms s obtain c1 r1 where "r = c1 # r1" "cont_byte c1"
      by (auto simp: utf8_size_def Let_def split: list.splits if_splits)
    with s 2 show ?thesis by (intro that(2)) (auto simp: utf8_size_def Let_def)
  next
    case 3
    with assms s obtain c1 c2 r1 where "r = c1 # c2 # r1" "second_byte ?b c1" "cont_byte c2"
      by (auto simp: utf8_size_def Let_def split: list.splits if_splits)
    with s 3 show ?thesis by (intro that(3)) (auto simp: utf8_size_def Let_def)
  next
    case 4
    with assms s obtain c1 c2 c3 r1 where "r = c1 # c2 # c3 # r1" "second_byte ?b c1" "cont_byte c2" "cont_byte c3"
      by (auto simp: utf8_size_def Let_def split: list.splits if_splits)
    with s 4 show ?thesis by (intro that(4) [of c c1 c2 c3 r1]) (auto simp: utf8_size_def Let_def)
  qed
qed

lemma utf8_size_take: "utf8_size s \<noteq> 0 \<Longrightarrow> utf8_size (take (utf8_size s) s @ x) = utf8_size s"
  by (erule utf8_size_cases) (simp_all add: numeral_eq_Suc)

lemma second_byte_high: "second_byte b c \<Longrightarrow> 0x80 \<le> byte c"
  by (auto simp: second_byte_def split: if_splits)

lemma utf8_multibyte:
  assumes "utf8_size (c # r) \<noteq> 0" and "0x80 \<le> byte c" and "d \<in> set (take (utf8_size (c # r)) (c # r))"
  shows "0x80 \<le> byte d"
  using assms(1)
  by (cases rule: utf8_size_cases) (use assms in \<open>auto simp: numeral_eq_Suc cont_byte_def dest!: second_byte_high\<close>)

lemma hex_digit_value: "n < 16 \<Longrightarrow> hex_value (hex_digit n) = Some n"
  by (simp add: hex_digit_def hex_value_def is_digit_def)

lemma hex_value_zero: "hex_value (CHR ''0'') = Some 0"
  by (simp add: hex_value_def is_digit_def)

lemma char_of_byte: "byte c = n \<Longrightarrow> char_of n = c"
  by auto

lemma escape_byte_cases:
  obtains (plain) "escape_byte c = [c]" "c \<noteq> dquote" "c \<noteq> backslash" "0x20 \<le> byte c"
  | (short) e where "escape_byte c = [backslash, e]" "e \<in> {dquote, backslash} \<union> set ''bfnrt''" "unescape e = c"
  | (long) "escape_byte c = [backslash, CHR ''u'', CHR ''0'', CHR ''0'', hex_digit (byte c div 16), hex_digit (byte c mod 16)]"
      "byte c < 0x80"
proof -
  have sp: "byte c < 0x80" if "c \<in> set ''<>&''" using that by auto
  have ne: "byte c \<noteq> 0x22 \<Longrightarrow> c \<noteq> dquote" "byte c \<noteq> 0x5C \<Longrightarrow> c \<noteq> backslash" by auto
  note un = unescape_def char_of_byte escape_byte_def
  consider "c = dquote \<or> c = backslash" | "byte c = 8" | "byte c = 9" | "byte c = 10" | "byte c = 12" | "byte c = 13"
    | "c \<noteq> dquote" "c \<noteq> backslash" "byte c \<notin> {8, 9, 10, 12, 13}" by blast
  then show thesis
  proof cases
    case 1
    then show ?thesis by (intro short [of c]) (auto simp: un)
  next
    case 2
    with ne show ?thesis by (intro short [of "CHR ''b''"]) (auto simp: un)
  next
    case 3
    with ne show ?thesis by (intro short [of "CHR ''t''"]) (auto simp: un)
  next
    case 4
    with ne show ?thesis by (intro short [of "CHR ''n''"]) (auto simp: un)
  next
    case 5
    with ne show ?thesis by (intro short [of "CHR ''f''"]) (auto simp: un)
  next
    case 6
    with ne show ?thesis by (intro short [of "CHR ''r''"]) (auto simp: un)
  next
    case 7
    show ?thesis
    proof (cases "byte c < 0x20 \<or> c \<in> set ''<>&''")
      case True
      with 7 sp show ?thesis by (intro long) (auto simp: escape_byte_def)
    next
      case False
      with 7 show ?thesis by (intro plain) (auto simp: escape_byte_def)
    qed
  qed
qed

lemma unquote_backslash:
  "e \<noteq> CHR ''u'' \<Longrightarrow> unquote (backslash # e # r) = unescape e # unquote r"
  by (subst unquote.simps) simp

lemma unquote_u:
  "hex4 h < 0xD800 \<Longrightarrow> length h = 4 \<Longrightarrow> unquote (backslash # CHR ''u'' # h @ r) = encode_rune (hex4 h) @ unquote r"
  by (subst unquote.simps) (simp add: hex4_def)

lemma unquote_escape_byte:
  assumes "byte c < 0x80"
  shows "unquote (escape_byte c @ r) = c # unquote r"
proof (cases rule: escape_byte_cases [of c])
  case plain
  with assms show ?thesis by (subst unquote.simps) simp
next
  case (short e)
  then show ?thesis using unquote_backslash [of e r] by auto
next
  case long
  let ?h = "[CHR ''0'', CHR ''0'', hex_digit (byte c div 16), hex_digit (byte c mod 16)]"
  from long(2) have "hex4 ?h = byte c"
    by (simp add: hex4_def hex_digit_value hex_value_zero)
  with long unquote_u [of ?h r] show ?thesis by (simp add: encode_rune_def)
qed

lemma unquote_rune:
  "x \<noteq> [] \<Longrightarrow> utf8_size x \<noteq> 0 \<Longrightarrow> 0x80 \<le> byte (hd x) \<Longrightarrow>
   unquote x = take (utf8_size x) x @ unquote (drop (utf8_size x) x)"
  by (subst unquote.simps) (auto split: list.split)

lemma unquote_escape_rune:
  assumes "utf8_size s \<noteq> 0" and "s = c # r'" and "0x80 \<le> byte c"
  shows "unquote (escape_rune (take (utf8_size s) s) @ r) = take (utf8_size s) s @ unquote r"
proof -
  let ?u = "take (utf8_size s) s"
  have e: "hex4 ''2028'' = 0x2028" "hex4 ''2029'' = 0x2029" by code_simp+
  consider "?u = encode_rune 0x2028" | "?u = encode_rune 0x2029" | "escape_rune ?u = ?u"
    unfolding escape_rune_def by presburger
  then show ?thesis
  proof cases
    case 1
    then show ?thesis using e(1) unquote_u [of "''2028''" r] by (simp add: escape_rune_def)
  next
    case 2
    moreover have "encode_rune 0x2029 \<noteq> encode_rune 0x2028" by (simp add: encode_rune_def)
    ultimately show ?thesis using e(2) unquote_u [of "''2029''" r] by (simp add: escape_rune_def)
  next
    case 3
    have "hd (?u @ r) = c" "?u @ r \<noteq> []" using assms(1,2) by (cases "utf8_size s"; simp)+
    moreover have "utf8_size (?u @ r) = utf8_size s" by (rule utf8_size_take [OF assms(1)])
    moreover have "length ?u = utf8_size s" using utf8_size_le [of s] by simp
    ultimately show ?thesis using 3 assms(1,3) unquote_rune [of "?u @ r"] by simp
  qed
qed

theorem unquote_escape: "valid_utf8 s \<Longrightarrow> unquote (escape s) = s"
proof (induction s rule: escape.induct)
  case (1 s)
  show ?case
  proof (cases s)
    case Nil
    then show ?thesis by (simp add: escape.simps unquote.simps)
  next
    case (Cons c r)
    show ?thesis
    proof (cases "byte c < 0x80")
      case True
      with Cons have "utf8_size s = 1" by (simp add: utf8_size_def)
      with 1(4) Cons have "valid_utf8 r" by (subst (asm) valid_utf8.simps) simp
      with 1(1) [OF Cons True] Cons True show ?thesis
        by (subst escape.simps) (simp add: unquote_escape_byte)
    next
      case False
      with 1(4) Cons have v: "utf8_size s \<noteq> 0" "valid_utf8 (drop (utf8_size s) s)"
        by (subst (asm) valid_utf8.simps, auto split: if_splits)+
      with 1(3) [OF Cons False] have IH: "unquote (escape (drop (utf8_size s) s)) = drop (utf8_size s) s" by simp
      have "escape s = escape_rune (take (utf8_size s) s) @ escape (drop (utf8_size s) s)"
        using Cons False v(1) by (subst escape.simps) simp
      with unquote_escape_rune [OF v(1) Cons] False IH show ?thesis by simp
    qed
  qed
qed

lemma scan_escape_byte:
  assumes "byte c < 0x80"
  shows "scan_string (escape_byte c @ r) = map_option (apfst ((@) (escape_byte c))) (scan_string r)"
proof (cases rule: escape_byte_cases [of c])
  case plain
  then show ?thesis by (cases "scan_string r") auto
next
  case (short e)
  then show ?thesis by (cases "scan_string r") auto
next
  case long
  then show ?thesis by (cases "scan_string r") (simp_all add: hex_digit_value hex_value_zero)
qed

lemma scan_plain:
  "\<forall>c \<in> set u. 0x80 \<le> byte c \<Longrightarrow> scan_string (u @ r) = map_option (apfst ((@) u)) (scan_string r)"
proof (induction u)
  case Nil
  then show ?case by (cases "scan_string r") auto
next
  case (Cons c u)
  then have "c \<noteq> dquote" "c \<noteq> backslash" by auto
  with Cons show ?case by (cases "scan_string r") auto
qed

lemma scan_escape_rune:
  assumes "\<forall>c \<in> set u. 0x80 \<le> byte c"
  shows "scan_string (escape_rune u @ r) = map_option (apfst ((@) (escape_rune u))) (scan_string r)"
  using scan_plain [OF assms, of r]
  by (cases "scan_string r") (simp_all add: escape_rune_def hex_value_def is_digit_def)

lemma scan_escape: "scan_string (escape s @ dquote # r) = Some (escape s, r)"
proof (induction s rule: escape.induct)
  case (1 s)
  show ?case
  proof (cases s)
    case Nil
    then show ?thesis by (simp add: escape.simps)
  next
    case (Cons c t)
    show ?thesis
    proof (cases "byte c < 0x80")
      case True
      with 1(1) [OF Cons True] Cons show ?thesis by (subst (1 2) escape.simps) (simp add: scan_escape_byte)
    next
      case False
      show ?thesis
      proof (cases "utf8_size s = 0")
        case True
        with 1(2) [OF Cons False] Cons False show ?thesis
          by (subst (1 2) escape.simps) (simp add: hex_value_def is_digit_def)
      next
        case size: False
        let ?u = "take (utf8_size s) s"
        have "\<forall>c \<in> set ?u. 0x80 \<le> byte c" using utf8_multibyte [of c t] size False Cons by fastforce
        moreover have "escape s = escape_rune ?u @ escape (drop (utf8_size s) s)"
          using Cons False size by (subst escape.simps) simp
        ultimately show ?thesis using 1(3) [OF Cons False size] by (simp add: scan_escape_rune)
      qed
    qed
  qed
qed

section \<open>Numbers are read back\<close>

text \<open>\<open>strconv.ParseInt\<close> and \<open>ParseUint\<close> on a literal, before the check of the range.\<close>

definition digits_value :: "string \<Rightarrow> nat" where
  "digits_value = foldl (\<lambda>n c. 10 * n + (byte c - 48)) 0"

definition parse_nat :: "string \<Rightarrow> nat option" where
  "parse_nat s = (if s \<noteq> [] \<and> list_all is_digit s then Some (digits_value s) else None)"

definition parse_int :: "string \<Rightarrow> int option" where
  "parse_int s =
     (if HasPrefix s ''-'' then map_option (\<lambda>n. - int n) (parse_nat (drop 1 s)) else map_option int (parse_nat s))"

lemma digit_char: "(n :: nat) < 10 \<Longrightarrow> is_digit (char_of (48 + n))"
  by (simp add: is_digit_def)

lemma nat_text_digits: "list_all is_digit (nat_text n) \<and> nat_text n \<noteq> []"
proof (induction n rule: nat_text.induct)
  case (1 n)
  then show ?case by (subst (1 2) nat_text.simps) (auto simp: digit_char)
qed

lemma nat_text_value: "digits_value (nat_text n) = n"
proof (induction n rule: nat_text.induct)
  case (1 n)
  show ?case
  proof (cases "n < 10")
    case True
    then show ?thesis by (subst nat_text.simps) (simp add: digits_value_def)
  next
    case False
    with 1 have "foldl (\<lambda>n c. 10 * n + (byte c - 48)) 0 (nat_text (n div 10)) = n div 10" by (simp add: digits_value_def)
    with False show ?thesis by (subst nat_text.simps) (simp add: digits_value_def)
  qed
qed

lemma nat_text_head: "0 < n \<Longrightarrow> hd (nat_text n) \<noteq> CHR ''0''"
proof (induction n rule: nat_text.induct)
  case (1 n)
  show ?case
  proof (cases "n < 10")
    case True
    have "byte (char_of (48 + n)) \<noteq> byte (CHR ''0'')" using True \<open>0 < n\<close> by simp
    then have "char_of (48 + n) \<noteq> CHR ''0''" by metis
    with True show ?thesis by (subst nat_text.simps) simp
  next
    case False
    with 1 have "hd (nat_text (n div 10)) \<noteq> CHR ''0''" by simp
    with False nat_text_digits [of "n div 10"] show ?thesis by (subst nat_text.simps) simp
  qed
qed

lemma not_minus: "list_all is_digit s \<Longrightarrow> s \<noteq> [] \<Longrightarrow> \<not> HasPrefix (s @ r) ''-''"
  by (cases s) (auto simp: HasPrefix_def is_digit_def)

lemma parse_int_text: "parse_int (int_text i) = Some i"
  using nat_text_digits [of "nat i"] nat_text_digits [of "nat (- i)"] not_minus [of "nat_text (nat i)" "[]"]
  by (auto simp: int_text_def parse_int_def parse_nat_def nat_text_value HasPrefix_def)

text \<open>What may follow a number.\<close>

definition num_end :: "string \<Rightarrow> bool" where
  "num_end r \<longleftrightarrow> (case r of [] \<Rightarrow> True | c # _ \<Rightarrow> \<not> is_digit c \<and> c \<notin> set ''.eE'')"

definition num_literal :: "string \<Rightarrow> bool" where
  "num_literal l \<longleftrightarrow> l \<noteq> [] \<and> (\<forall>c \<in> set l. 0x20 \<le> byte c) \<and> (is_digit (hd l) \<or> hd l = CHR ''-'') \<and>
     (\<forall>r. num_end r \<longrightarrow> read_num (l @ r) = Some (l, r))"

lemma read_whole_text:
  assumes "num_end r"
  shows "read_whole (nat_text n @ r) = Some (nat_text n, r)"
proof (cases "n = 0")
  case True
  have "char_of (48 :: nat) = CHR ''0''" by (rule char_of_byte) simp
  with True show ?thesis by (simp add: nat_text.simps read_whole_def HasPrefix_def)
next
  case False
  note d = nat_text_digits [of n]
  obtain c t where t: "nat_text n = c # t" using d by (cases "nat_text n") auto
  have stop: "takeWhile is_digit r = []" "dropWhile is_digit r = r"
    using assms by (auto simp: num_end_def split: list.splits)
  have "read_digits (nat_text n @ r) = Some (nat_text n, r)"
    using d stop by (auto simp: read_digits_def takeWhile_append dropWhile_append list_all_iff)
  moreover have "c \<noteq> CHR ''0''" using nat_text_head [of n] False t by simp
  ultimately show ?thesis using t by (auto simp: read_whole_def HasPrefix_def)
qed

lemma num_literal_int: "num_literal (int_text i)"
proof -
  have "read_num (int_text i @ r) = Some (int_text i, r)" if r: "num_end r" for r
  proof -
    have f: "read_frac r = Some ([], r)" and e: "read_exp r = Some ([], r)"
      using r by (auto simp: num_end_def read_frac_def read_exp_def split: list.splits)
    show ?thesis
      using not_minus [of "nat_text (nat i)" r] nat_text_digits [of "nat i"]
      by (auto simp: int_text_def read_num_def read_whole_text [OF r] f e HasPrefix_def)
  qed
  moreover have "\<forall>c \<in> set (int_text i). 0x20 \<le> byte c"
    using nat_text_digits by (auto simp: int_text_def list_all_iff is_digit_def intro: le_trans [of 32 48])
  moreover have "int_text i \<noteq> [] \<and> (is_digit (hd (int_text i)) \<or> hd (int_text i) = CHR ''-'')"
    using nat_text_digits [of "nat i"] by (cases "nat_text (nat i)") (auto simp: int_text_def)
  ultimately show ?thesis by (simp add: num_literal_def)
qed

section \<open>Values are read back\<close>

fun json_ok :: "json \<Rightarrow> bool" where
  "json_ok JNull \<longleftrightarrow> True"
| "json_ok (JBool b) \<longleftrightarrow> True"
| "json_ok (JNum l) \<longleftrightarrow> num_literal l"
| "json_ok (JStr s) \<longleftrightarrow> valid_utf8 s"
| "json_ok (JArr xs) \<longleftrightarrow> (\<forall>x \<in> set xs. json_ok x)"
| "json_ok (JObj kvs) \<longleftrightarrow> (\<forall>(k, v) \<in> set kvs. valid_utf8 k \<and> json_ok v)"

fun depth :: "json \<Rightarrow> nat" where
  "depth (JArr xs) = Suc (fold max (map depth xs) 0)"
| "depth (JObj kvs) = Suc (fold max (map (\<lambda>(k, v). depth v) kvs) 0)"
| "depth _ = 0"

lemma fold_max_le: "x \<in> set xs \<Longrightarrow> x \<le> fold max xs (a :: nat)"
proof -
  have mono: "a \<le> fold max xs a" for a :: nat and xs by (induction xs arbitrary: a) (auto intro: le_trans [OF max.cobounded2])
  show "x \<in> set xs \<Longrightarrow> x \<le> fold max xs a"
    by (induction xs arbitrary: a) (auto intro: le_trans [OF max.cobounded1 mono])
qed

definition not_ws :: "char \<Rightarrow> bool" where
  "not_ws c \<longleftrightarrow> byte c \<notin> {32, 9, 13, 10}"

lemma next_char_Cons: "not_ws c \<Longrightarrow> next_char (c # r) = Some (c, r)"
  by (simp add: next_char_def skip_ws_def not_ws_def)

lemma not_ws_punctuation [simp]:
  "not_ws dquote" "not_ws (CHR ''{'')" "not_ws (CHR ''}'')" "not_ws (CHR ''['')" "not_ws (CHR '']'')"
  "not_ws (CHR '','')" "not_ws (CHR '':'')"
  by (simp_all add: not_ws_def)

lemma num_end_punctuation [simp]: "num_end (CHR '','' # r)" "num_end (CHR ''}'' # r)" "num_end (CHR '']'' # r)" "num_end []"
  by (simp_all add: num_end_def is_digit_def)

lemma num_head: "is_digit c \<or> c = CHR ''-'' \<Longrightarrow> not_ws c \<and> c \<notin> set ''{}[]ntf'' \<and> c \<noteq> dquote"
  by (auto simp: is_digit_def not_ws_def)

lemma render_head:
  assumes "json_ok j"
  shows "\<exists>c t. render j = c # t \<and> not_ws c \<and> c \<noteq> CHR '']''"
proof (cases j)
  case (JNum l)
  with assms num_head [of "hd l"] show ?thesis by (cases l) (auto simp: num_literal_def)
qed (auto simp: not_ws_def quoted_def)

text \<open>A value that is read back whatever follows it, given enough fuel.\<close>

definition reads_back :: "nat \<Rightarrow> json \<Rightarrow> bool" where
  "reads_back d j \<longleftrightarrow>
     (\<forall>n r. length (render j) < n \<longrightarrow> num_end r \<longrightarrow> parse_value n d (render j @ r) = Some (j, r))"

lemma parse_elems_render:
  assumes "xs \<noteq> []" and "\<forall>x \<in> set xs. reads_back d x" and "length (commas (map render xs)) + 2 \<le> n"
  shows "parse_elems n d (commas (map render xs) @ CHR '']'' # r) = Some (xs, r)"
  using assms
proof (induction xs arbitrary: n)
  case (Cons x xs)
  obtain m where n: "n = Suc m" using Cons.prems(3) by (cases n) auto
  show ?case
  proof (cases xs)
    case Nil
    with Cons.prems n have "parse_value m d (render x @ CHR '']'' # r) = Some (x, CHR '']'' # r)"
      by (simp add: reads_back_def)
    with Nil n show ?thesis by (simp add: parse_simps next_char_Cons)
  next
    case (Cons y ys)
    let ?rest = "commas (map render xs) @ CHR '']'' # r"
    from Cons Cons.prems n have "parse_value m d (render x @ CHR '','' # ?rest) = Some (x, CHR '','' # ?rest)"
      by (simp add: reads_back_def)
    moreover have "parse_elems m d ?rest = Some (xs, r)" using Cons.IH [of m] Cons.prems Cons n by simp
    ultimately show ?thesis using Cons n by (simp add: parse_simps next_char_Cons)
  qed
qed simp

definition member_text :: "string \<times> json \<Rightarrow> string" where
  "member_text kv = quoted (fst kv) @ CHR '':'' # render (snd kv)"

lemma parse_members_render:
  assumes "kvs \<noteq> []" and "\<forall>(k, v) \<in> set kvs. valid_utf8 k \<and> reads_back d v"
    and "length (commas (map member_text kvs)) + 2 \<le> n"
  shows "parse_members n d (commas (map member_text kvs) @ CHR ''}'' # r) = Some (kvs, r)"
  using assms
proof (induction kvs arbitrary: n)
  case (Cons kv kvs)
  obtain k v where kv: "kv = (k, v)" by (cases kv)
  obtain m where n: "n = Suc m" using Cons.prems(3) by (cases n) auto
  have mt: "member_text kv = dquote # escape k @ dquote # CHR '':'' # render v"
    by (simp add: member_text_def quoted_def kv)
  have k: "unquote (escape k) = k" using Cons.prems(2) kv by (simp add: unquote_escape)
  have "length (member_text kv) \<le> length (commas (map member_text (kv # kvs)))" by (cases kvs) auto
  moreover have "length (render v) \<le> length (member_text kv)" by (simp add: member_text_def kv)
  ultimately have len: "length (render v) < m" using Cons.prems(3) n by linarith
  have v: "num_end x \<Longrightarrow> parse_value m d (render v @ x) = Some (v, x)" for x
    using Cons.prems(2) kv len by (auto simp: reads_back_def)
  show ?case
  proof (cases kvs)
    case Nil
    then show ?thesis using n v [of "CHR ''}'' # r"] mt k kv
      by (simp add: parse_simps next_char_Cons scan_escape)
  next
    case (Cons y ys)
    let ?rest = "commas (map member_text kvs) @ CHR ''}'' # r"
    have "parse_members m d ?rest = Some (kvs, r)" using Cons.IH [of m] Cons.prems Cons n by simp
    moreover have "commas (map member_text (kv # kvs)) = member_text kv @ CHR '','' # commas (map member_text kvs)"
      using Cons by simp
    ultimately show ?thesis using n v [of "CHR '','' # ?rest"] mt k kv
      by (simp add: parse_simps next_char_Cons scan_escape del: list.map)
  qed
qed simp

lemma render_Obj: "render (JObj kvs) = CHR ''{'' # commas (map member_text kvs) @ ''}''"
  by (simp add: member_text_def [abs_def] case_prod_beta')

lemma commas_head: "xs \<noteq> [] \<Longrightarrow> hd xs = c # t \<Longrightarrow> \<exists>t'. commas xs = c # t'"
  by (cases xs rule: commas.cases) auto

lemma parse_literal:
  "n \<noteq> 0 \<Longrightarrow> parse_value n d (''null'' @ r) = Some (JNull, r)"
  "n \<noteq> 0 \<Longrightarrow> parse_value n d (''true'' @ r) = Some (JBool True, r)"
  "n \<noteq> 0 \<Longrightarrow> parse_value n d (''false'' @ r) = Some (JBool False, r)"
  by (cases n; simp add: parse_simps next_char_Cons not_ws_def HasPrefix_def)+

lemma reads_backI:
  assumes "\<And>m r. length (render j) \<le> m \<Longrightarrow> num_end r \<Longrightarrow> parse_value (Suc m) d (render j @ r) = Some (j, r)"
  shows "reads_back d j"
  unfolding reads_back_def using assms by (metis Suc_le_eq Suc_le_mono not0_implies_Suc not_less_zero)

lemma reads_back_num: "num_literal l \<Longrightarrow> reads_back d (JNum l)"
proof (rule reads_backI)
  fix m r
  assume l: "num_literal l" and "num_end r"
  then obtain c t where c: "l = c # t" "is_digit c \<or> c = CHR ''-''" by (cases l) (auto simp: num_literal_def)
  with l \<open>num_end r\<close> num_head [OF c(2)] show "parse_value (Suc m) d (render (JNum l) @ r) = Some (JNum l, r)"
    by (auto simp: parse_simps next_char_Cons HasPrefix_def num_literal_def)
qed

lemma reads_back_str: "valid_utf8 s \<Longrightarrow> reads_back d (JStr s)"
  by (rule reads_backI) (simp add: parse_simps quoted_def next_char_Cons scan_escape unquote_escape)

lemma reads_back_arr:
  assumes "d < 10000" and ok: "\<forall>x \<in> set xs. json_ok x" and el: "\<forall>x \<in> set xs. reads_back (Suc d) x"
  shows "reads_back d (JArr xs)"
proof (rule reads_backI)
  fix m r
  assume m: "length (render (JArr xs)) \<le> m"
  show "parse_value (Suc m) d (render (JArr xs) @ r) = Some (JArr xs, r)"
  proof (cases xs)
    case Nil
    with assms(1) show ?thesis by (simp add: parse_simps next_char_Cons)
  next
    case (Cons x ys)
    obtain c t where c: "commas (map render xs) = c # t" "not_ws c" "c \<noteq> CHR '']''"
      using render_head [of x] commas_head [of "map render xs"] ok Cons by fastforce
    have "xs \<noteq> []" using Cons by simp
    with m parse_elems_render [OF _ el, of m r]
    have "parse_elems m (Suc d) (c # t @ CHR '']'' # r) = Some (xs, r)" by (simp add: c(1))
    with c assms(1) show ?thesis by (simp add: parse_simps next_char_Cons)
  qed
qed

lemma reads_back_obj:
  assumes "d < 10000" and el: "\<forall>(k, v) \<in> set kvs. valid_utf8 k \<and> reads_back (Suc d) v"
  shows "reads_back d (JObj kvs)"
proof (rule reads_backI)
  fix m r
  assume m: "length (render (JObj kvs)) \<le> m"
  show "parse_value (Suc m) d (render (JObj kvs) @ r) = Some (JObj kvs, r)"
  proof (cases kvs)
    case Nil
    with assms(1) show ?thesis by (simp add: parse_simps next_char_Cons)
  next
    case (Cons kv ys)
    obtain t where c: "commas (map member_text kvs) = dquote # t"
      using commas_head [of "map member_text kvs" dquote] Cons by (auto simp: member_text_def quoted_def)
    have "kvs \<noteq> []" using Cons by simp
    with m parse_members_render [OF _ el, of m r]
    have "parse_members m (Suc d) (dquote # t @ CHR ''}'' # r) = Some (kvs, r)"
      by (simp add: c render_Obj del: render.simps)
    with c assms(1) show ?thesis by (simp add: parse_simps next_char_Cons render_Obj del: render.simps)
  qed
qed

lemma render_reads_back: "json_ok j \<Longrightarrow> d + depth j \<le> 10000 \<Longrightarrow> reads_back d j"
proof (induction j arbitrary: d rule: render.induct)
  case (2 b)
  then show ?case by (cases b) (auto simp: reads_back_def parse_literal [simplified])
next
  case (5 xs)
  have "depth x \<le> fold max (map depth xs) 0" if "x \<in> set xs" for x using fold_max_le [of "depth x"] that by simp
  with 5 have "\<forall>x \<in> set xs. reads_back (Suc d) x" by fastforce
  with 5(2,3) show ?case by (intro reads_back_arr) auto
next
  case (6 kvs)
  have "depth v \<le> fold max (map (\<lambda>(k, v). depth v) kvs) 0" if "(k, v) \<in> set kvs" for k v
    using that by (intro fold_max_le) force
  with 6 have "\<forall>(k, v) \<in> set kvs. valid_utf8 k \<and> reads_back (Suc d) v" by fastforce
  with 6(3) show ?case by (intro reads_back_obj) auto
qed (simp_all add: reads_back_num reads_back_str, simp add: reads_back_def parse_literal [simplified])

lemma parse_value_render:
  "json_ok j \<Longrightarrow> depth j \<le> 10000 \<Longrightarrow> num_end r \<Longrightarrow> length (render j) < n \<Longrightarrow> parse_value n 0 (render j @ r) = Some (j, r)"
  using render_reads_back [of j 0] by (simp add: reads_back_def)

lemma parse_render: "json_ok j \<Longrightarrow> depth j \<le> 10000 \<Longrightarrow> parse_json (render j) = Some j"
  using parse_value_render [of j "[]"] by (simp add: parse_json_def skip_ws_def)

end
