(* ===== verification/Json_Struct.thy ===== *)
theory Json_Struct
  imports Json
begin

text \<open>
  The rest of what the sources use of \<open>encoding/json\<close>: a text cut short is refused, the text of a value has no
  control characters, and the step from a parsed value to the fields of a Go struct and back.
\<close>

section \<open>A text cut short is refused\<close>

text \<open>Reading does not look beyond the end of a value, unless it is a number at the end of the text.\<close>

lemma dropWhile_extend: "dropWhile P s = c # r \<Longrightarrow> dropWhile P (s @ t) = c # r @ t"
  by (induction s) (auto split: if_splits)

lemma next_char_iff: "next_char s = Some (c, r) \<longleftrightarrow> skip_ws s = c # r"
  by (simp add: next_char_def split: list.split)

lemma next_char_extend: "next_char s = Some (c, r) \<Longrightarrow> next_char (s @ t) = Some (c, r @ t)"
  unfolding next_char_iff skip_ws_def by (rule dropWhile_extend)

lemma next_char_Nil [simp]: "next_char [] = None"
  by (simp add: next_char_def skip_ws_def)

lemma scan_extend: "scan_string s = Some (b, r) \<Longrightarrow> scan_string (s @ t) = Some (b, r @ t)"
proof (induction s arbitrary: b r rule: scan_string.induct)
  case (2 c s)
  show ?case
  proof (cases "c = backslash")
    case True
    with 2(4) obtain e s1 where s: "s = e # s1" by (cases s) auto
    with True 2(4) 2(1) [of e s1] 2(2) [of e s1] show ?thesis by (auto split: if_splits)
  next
    case False
    with 2(3,4) show ?thesis by (auto split: if_splits)
  qed
qed simp

lemma read_digits_extend:
  "read_digits s = Some (l, r) \<Longrightarrow> r \<noteq> [] \<Longrightarrow> read_digits (s @ t) = Some (l, r @ t)"
  by (auto simp: read_digits_def takeWhile_append dropWhile_append split: if_splits)

lemma read_whole_extend: "read_whole s = Some (l, r) \<Longrightarrow> r \<noteq> [] \<Longrightarrow> read_whole (s @ t) = Some (l, r @ t)"
  by (cases s) (auto simp: read_whole_def HasPrefix_def read_digits_def takeWhile_append dropWhile_append split: if_splits)

lemma read_frac_extend: "read_frac s = Some (l, r) \<Longrightarrow> r \<noteq> [] \<Longrightarrow> read_frac (s @ t) = Some (l, r @ t)"
  by (cases s) (auto simp: read_frac_def dest: read_digits_extend split: if_splits)

lemma read_exp_extend: "read_exp s = Some (l, r) \<Longrightarrow> r \<noteq> [] \<Longrightarrow> read_exp (s @ t) = Some (l, r @ t)"
  by (cases s) (auto simp: read_exp_def dest: read_digits_extend split: if_splits list.splits)

lemma read_rest: "read_frac s = Some (l, r) \<Longrightarrow> r \<noteq> [] \<Longrightarrow> s \<noteq> []" "read_exp s = Some (l, r) \<Longrightarrow> r \<noteq> [] \<Longrightarrow> s \<noteq> []"
  by (auto simp: read_frac_def read_exp_def)

lemma read_num_extend:
  assumes "read_num s = Some (l, r)" and "r \<noteq> []"
  shows "read_num (s @ t) = Some (l, r @ t)"
proof -
  let ?sign = "if HasPrefix s ''-'' then ''-'' else []" and ?u = "if HasPrefix s ''-'' then drop 1 s else s"
  obtain w r1 f r2 e where 1: "read_whole ?u = Some (w, r1)" and 2: "read_frac r1 = Some (f, r2)"
    and 3: "read_exp r2 = Some (e, r)" and l: "l = ?sign @ w @ f @ e"
    using assms(1) by (auto simp: read_num_def bind_eq_Some_conv split: if_splits)
  have ne: "r2 \<noteq> []" "r1 \<noteq> []" using read_rest 2 3 assms(2) by blast+
  have "s \<noteq> []" using 1 by (auto simp: read_whole_def read_digits_def HasPrefix_def split: if_splits)
  then obtain x s' where s: "s = x # s'" by (cases s) auto
  from read_whole_extend [OF 1 ne(2), of t] read_frac_extend [OF 2 ne(1), of t] read_exp_extend [OF 3 assms(2), of t] l
  show ?thesis by (auto simp: read_num_def s HasPrefix_def split: if_splits)
qed

lemma read_num_head: "read_num (c # s) = Some x \<Longrightarrow> is_digit c \<or> c = CHR ''-''"
  by (auto simp: read_num_def read_whole_def read_digits_def HasPrefix_def bind_eq_Some_conv is_digit_def split: if_splits)

definition closed_value :: "json \<Rightarrow> bool" where
  "closed_value v \<longleftrightarrow> (case v of JNum _ \<Rightarrow> False | _ \<Rightarrow> True)"

lemma HasPrefix_extend: "HasPrefix s p \<Longrightarrow> HasPrefix (s @ t) p"
  by (metis HasPrefix_iff append_assoc)

lemma parse_elemsE:
  assumes "parse_elems (Suc n) d s = Some y"
  obtains v r1 c r2 where "parse_value n d s = Some (v, r1)" "next_char r1 = Some (c, r2)"
    "(if c = CHR '']'' then Some ([v], r2)
      else if c = CHR '','' then map_option (apfst ((#) v)) (parse_elems n d r2) else None) = Some y"
  using assms that by (auto simp: parse_simps bind_eq_Some_conv)

lemma parse_membersE:
  assumes "parse_members (Suc n) d s = Some y"
  obtains r0 k r1 r2 v r3 c r4 where "next_char s = Some (dquote, r0)" "scan_string r0 = Some (k, r1)"
    "next_char r1 = Some (CHR '':'', r2)" "parse_value n d r2 = Some (v, r3)" "next_char r3 = Some (c, r4)"
    "(if c = CHR ''}'' then Some ([(unquote k, v)], r4)
      else if c = CHR '','' then map_option (apfst ((#) (unquote k, v))) (parse_members n d r4) else None) = Some y"
  using assms that by (auto simp: parse_simps bind_eq_Some_conv split: if_splits)

lemma parse_value_extend_step:
  assumes elems_ext: "\<And>d s vs r. parse_elems n d s = Some (vs, r) \<Longrightarrow> parse_elems n d (s @ t) = Some (vs, r @ t)"
    and members_ext: "\<And>d s kvs r. parse_members n d s = Some (kvs, r) \<Longrightarrow> parse_members n d (s @ t) = Some (kvs, r @ t)"
    and v: "parse_value (Suc n) d s = Some (v, r)" and closed: "r \<noteq> [] \<or> closed_value v"
  shows "parse_value (Suc n) d (s @ t) = Some (v, r @ t)"
proof -
  obtain c r0 where c: "next_char s = Some (c, r0)" using v by (auto simp: parse_simps bind_eq_Some_conv)
  note ct = next_char_extend [OF c, of t]
  consider "c = dquote" | "c = CHR ''{''" | "c = CHR ''[''" | "c \<in> set ''ntf''" | "c \<notin> set ''{[ntf''" "c \<noteq> dquote" by auto
  then show ?thesis
  proof cases
    case 1
    with v c ct show ?thesis by (auto simp: parse_simps dest: scan_extend)
  next
    case 2
    with v c obtain c1 r1 where 1: "next_char r0 = Some (c1, r1)" by (auto simp: parse_simps bind_eq_Some_conv split: if_splits)
    with 2 v c ct next_char_extend [OF 1, of t] members_ext [of "Suc d" r0] show ?thesis
      by (auto simp: parse_simps split: if_splits)
  next
    case 3
    with v c obtain c1 r1 where 1: "next_char r0 = Some (c1, r1)" by (auto simp: parse_simps bind_eq_Some_conv split: if_splits)
    with 3 v c ct next_char_extend [OF 1, of t] elems_ext [of "Suc d" r0] show ?thesis
      by (auto simp: parse_simps split: if_splits)
  next
    case 4
    then have "read_num (c # r0) = None" using read_num_head [of c r0] by (cases "read_num (c # r0)") (auto simp: is_digit_def)
    with 4 v c ct show ?thesis by (auto simp: parse_simps HasPrefix_iff split: if_splits)
  next
    case 5
    then have "\<not> HasPrefix (c # x) ''null''" "\<not> HasPrefix (c # x) ''true''" "\<not> HasPrefix (c # x) ''false''" for x
      by (auto simp: HasPrefix_def)
    with 5 v c ct closed read_num_extend [of "c # r0" _ r t] show ?thesis by (auto simp: parse_simps closed_value_def)
  qed
qed

lemma parse_extend:
  "(parse_value n d s = Some (v, r) \<longrightarrow> r \<noteq> [] \<or> closed_value v \<longrightarrow> parse_value n d (s @ t) = Some (v, r @ t)) \<and>
   (parse_elems n d s = Some (vs, r) \<longrightarrow> parse_elems n d (s @ t) = Some (vs, r @ t)) \<and>
   (parse_members n d s = Some (kvs, r) \<longrightarrow> parse_members n d (s @ t) = Some (kvs, r @ t))"
proof (induction n arbitrary: d s v vs kvs r)
  case 0
  then show ?case by (simp add: parse_simps)
next
  case (Suc n)
  have value_ext: "parse_value n d s = Some (v, r) \<Longrightarrow> next_char r = Some x \<Longrightarrow> parse_value n d (s @ t) = Some (v, r @ t)"
    for d s v r x using Suc.IH by (metis next_char_Nil option.distinct(1))
  have elems_ext: "parse_elems n d s = Some (vs, r) \<Longrightarrow> parse_elems n d (s @ t) = Some (vs, r @ t)" for d s vs r
    using Suc.IH by blast
  have members_ext: "parse_members n d s = Some (kvs, r) \<Longrightarrow> parse_members n d (s @ t) = Some (kvs, r @ t)" for d s kvs r
    using Suc.IH by blast
  show ?case
  proof (intro conjI impI)
    assume "parse_elems (Suc n) d s = Some (vs, r)"
    from parse_elemsE [OF this] obtain v r1 c r2 where 1: "parse_value n d s = Some (v, r1)" "next_char r1 = Some (c, r2)"
      and 2: "(if c = CHR '']'' then Some ([v], r2)
        else if c = CHR '','' then map_option (apfst ((#) v)) (parse_elems n d r2) else None) = Some (vs, r)" .
    from 2 elems_ext [of d r2] show "parse_elems (Suc n) d (s @ t) = Some (vs, r @ t)"
      by (auto simp: parse_simps value_ext [OF 1] next_char_extend [OF 1(2)] split: if_splits)
  next
    assume "parse_members (Suc n) d s = Some (kvs, r)"
    from parse_membersE [OF this] obtain r0 k r1 r2 v r3 c r4 where 1: "next_char s = Some (dquote, r0)" "scan_string r0 = Some (k, r1)"
        "next_char r1 = Some (CHR '':'', r2)" "parse_value n d r2 = Some (v, r3)" "next_char r3 = Some (c, r4)"
      and 2: "(if c = CHR ''}'' then Some ([(unquote k, v)], r4)
        else if c = CHR '','' then map_option (apfst ((#) (unquote k, v))) (parse_members n d r4) else None) = Some (kvs, r)" .
    from 2 members_ext [of d r4] show "parse_members (Suc n) d (s @ t) = Some (kvs, r @ t)"
      by (auto simp: parse_simps next_char_extend [OF 1(1)] scan_extend [OF 1(2)] next_char_extend [OF 1(3)]
          value_ext [OF 1(4,5)] next_char_extend [OF 1(5)] split: if_splits)
  next
    assume "parse_value (Suc n) d s = Some (v, r)" and "r \<noteq> [] \<or> closed_value v"
    with elems_ext members_ext show "parse_value (Suc n) d (s @ t) = Some (v, r @ t)" by (rule parse_value_extend_step)
  qed
qed

lemma parse_more_fuel:
  "(parse_value n d s = Some x \<longrightarrow> parse_value (Suc n) d s = Some x) \<and>
   (parse_elems n d s = Some y \<longrightarrow> parse_elems (Suc n) d s = Some y) \<and>
   (parse_members n d s = Some z \<longrightarrow> parse_members (Suc n) d s = Some z)"
proof (induction n arbitrary: d s x y z)
  case 0
  then show ?case by (simp add: parse_simps)
next
  case (Suc n)
  note IH = Suc.IH [THEN conjunct1, rule_format] Suc.IH [THEN conjunct2, THEN conjunct1, rule_format]
    Suc.IH [THEN conjunct2, THEN conjunct2, rule_format]
  show ?case
  proof (intro conjI impI)
    assume v: "parse_value (Suc n) d s = Some x"
    then obtain c r where c: "next_char s = Some (c, r)" by (auto simp: parse_value.simps bind_eq_Some_conv)
    consider "c = CHR ''{''" | "c = CHR ''[''" | "c \<noteq> CHR ''{''" "c \<noteq> CHR ''[''" by blast
    then show "parse_value (Suc (Suc n)) d s = Some x"
    proof cases
      case 1
      with v c obtain c1 r1 where "next_char r = Some (c1, r1)" by (auto simp: parse_value.simps bind_eq_Some_conv split: if_splits)
      with 1 v c IH(3) [of "Suc d" r] show ?thesis by (auto simp: parse_value.simps split: if_splits)
    next
      case 2
      with v c obtain c1 r1 where "next_char r = Some (c1, r1)" by (auto simp: parse_value.simps bind_eq_Some_conv split: if_splits)
      with 2 v c IH(2) [of "Suc d" r] show ?thesis by (auto simp: parse_value.simps split: if_splits)
    next
      case 3
      with c have "parse_value (Suc (Suc n)) d s = parse_value (Suc n) d s" by (simp add: parse_value.simps)
      with v show ?thesis by simp
    qed
  next
    assume "parse_elems (Suc n) d s = Some y"
    then show "parse_elems (Suc (Suc n)) d s = Some y"
      by (rule parse_elemsE) (use IH(1,2) in \<open>auto simp: parse_elems.simps(2) [of "Suc n"] split: if_splits\<close>)
  next
    assume "parse_members (Suc n) d s = Some z"
    then show "parse_members (Suc (Suc n)) d s = Some z"
      by (rule parse_membersE) (use IH(1,3) in \<open>auto simp: parse_members.simps(2) [of "Suc n"] split: if_splits\<close>)
  qed
qed

lemma parse_value_fuel: "parse_value n d s = Some x \<Longrightarrow> n \<le> m \<Longrightarrow> parse_value m d s = Some x"
proof (induction m)
  case 0
  then show ?case by (simp add: parse_simps)
next
  case (Suc m)
  then show ?case using parse_more_fuel [of m d s x] by (cases "n \<le> m") (auto simp: le_Suc_eq)
qed

lemma parse_cut_short:
  assumes "json_ok (JObj kvs)" and "depth (JObj kvs) \<le> 10000" and "render (JObj kvs) = s @ t" and "t \<noteq> []"
  shows "parse_json s = None"
proof (cases "parse_json s")
  case (Some v)
  let ?n = "Suc (length (s @ t))"
  obtain r where r: "parse_value (Suc (length s)) 0 s = Some (v, r)"
    using Some by (auto simp: parse_json_def split: option.splits if_splits)
  from assms(3) obtain s' where s: "s = CHR ''{'' # s'"
    using r by (cases s) (auto simp: parse_simps)
  then have "closed_value v" using r
    by (auto simp: parse_value.simps next_char_Cons bind_eq_Some_conv closed_value_def split: if_splits)
  with r parse_extend [of "Suc (length s)" 0 s v r t] have "parse_value (Suc (length s)) 0 (s @ t) = Some (v, r @ t)" by blast
  from parse_value_fuel [OF this, of ?n] have "parse_value ?n 0 (s @ t) = Some (v, r @ t)" by simp
  moreover have "parse_value ?n 0 (s @ t) = Some (JObj kvs, [])"
    using parse_value_render [OF assms(1,2), of "[]" ?n] unfolding assms(3) by simp
  ultimately have "r @ t = []" by simp
  with assms(4) show ?thesis by simp
qed

section \<open>No control characters\<close>

lemma hex_digit_printable: "n < 16 \<Longrightarrow> 0x20 \<le> byte (hex_digit n)"
  by (simp add: hex_digit_def)

lemma escape_byte_printable:
  assumes "byte c < 0x80" and "x \<in> set (escape_byte c)"
  shows "0x20 \<le> byte x"
proof (cases rule: escape_byte_cases [of c])
  case (short e)
  with assms(2) show ?thesis by auto
next
  case long
  have "byte c div 16 < 16" "byte c mod 16 < 16" using long(2) by simp_all
  with long(1) assms(2) hex_digit_printable show ?thesis by auto
qed (use assms in simp)

lemma escape_rune_printable:
  assumes "\<forall>c \<in> set u. 0x80 \<le> byte c" and "x \<in> set (escape_rune u)"
  shows "0x20 \<le> byte x"
proof -
  consider "x \<in> set u" | "x \<in> set (backslash # ''u20289'')" using assms(2) by (auto simp: escape_rune_def split: if_splits)
  then show ?thesis using assms(1) by cases fastforce+
qed

lemma escape_printable: "x \<in> set (escape s) \<Longrightarrow> 0x20 \<le> byte x"
proof (induction s rule: escape.induct)
  case (1 s)
  show ?case
  proof (cases s)
    case Nil
    with 1(4) show ?thesis by (simp add: escape.simps)
  next
    case (Cons c t)
    consider "byte c < 0x80" | "\<not> byte c < 0x80" "utf8_size s = 0" | "\<not> byte c < 0x80" "utf8_size s \<noteq> 0" by blast
    then show ?thesis
    proof cases
      case 1
      then have "x \<in> set (escape_byte c) \<or> x \<in> set (escape t)" using "1.prems" Cons by (subst (asm) escape.simps) simp
      then show ?thesis using "1.IH"(1) [OF Cons 1] escape_byte_printable [OF 1] by blast
    next
      case 2
      then have "x \<in> set (backslash # ''ufffd'') \<or> x \<in> set (escape t)" using "1.prems" Cons by (subst (asm) escape.simps) simp
      then show ?thesis using "1.IH"(2) [OF Cons 2] by fastforce
    next
      case 3
      let ?u = "take (utf8_size s) s"
      have u: "\<forall>c \<in> set ?u. 0x80 \<le> byte c" using utf8_multibyte [of c t] 3 Cons by fastforce
      from 3 have "x \<in> set (escape_rune ?u) \<or> x \<in> set (escape (drop (utf8_size s) s))"
        using "1.prems" Cons by (subst (asm) escape.simps) simp
      then show ?thesis using "1.IH"(3) [OF Cons 3] escape_rune_printable [OF u] by blast
    qed
  qed
qed

lemma commas_set: "x \<in> set (commas xs) \<Longrightarrow> x = CHR '','' \<or> (\<exists>y \<in> set xs. x \<in> set y)"
  by (induction xs rule: commas.induct) auto

lemma render_printable: "json_ok j \<Longrightarrow> x \<in> set (render j) \<Longrightarrow> 0x20 \<le> byte x"
proof (induction j rule: render.induct)
  case (5 xs)
  then consider "x \<in> set ''[],''" | y where "y \<in> set xs" "x \<in> set (render y)"
    by (auto dest!: commas_set)
  then show ?case using 5 by cases auto
next
  case (6 kvs)
  then consider "x \<in> set ''{},:''" | "x = dquote" | k v where "(k, v) \<in> set kvs" "x \<in> set (escape k)"
    | k v where "(k, v) \<in> set kvs" "x \<in> set (render v)"
    by (auto simp: quoted_def dest!: commas_set)
  then show ?case
  proof cases
    case 4
    with 6 show ?thesis by fastforce
  qed (auto dest: escape_printable)
qed (auto simp: quoted_def num_literal_def dest: escape_printable split: if_splits)

section \<open>Structs\<close>

text \<open>
  \<open>Unmarshal\<close> looks a key up among the field names, first exactly, then up to case; the folding also
  identifies U+017F with S and U+212A with K. Unknown keys are ignored, a repeated key stores again.
  A value of the wrong type makes \<open>Unmarshal\<close> return an error, \<open>null\<close> leaves numbers and strings as they are.
\<close>

definition upper :: "char \<Rightarrow> char" where
  "upper c = (if 97 \<le> byte c \<and> byte c \<le> 122 then char_of (byte c - 32) else c)"

fun fold_name :: "string \<Rightarrow> string" where
  "fold_name [] = []"
| "fold_name (c # r) =
     (if HasPrefix (c # r) [CHR 0xC5, CHR 0xBF] then CHR ''S'' # fold_name (drop 1 r)
      else if HasPrefix (c # r) [CHR 0xE2, CHR 0x84, CHR 0xAA] then CHR ''K'' # fold_name (drop 2 r)
      else upper c # fold_name r)"

definition field_for :: "string list \<Rightarrow> string \<Rightarrow> string option" where
  "field_for names key =
     (if key \<in> set names then Some key else find (\<lambda>f. fold_name f = fold_name key) names)"

fun store_fields :: "(string \<Rightarrow> json \<Rightarrow> 'r \<Rightarrow> 'r option) \<Rightarrow> string list \<Rightarrow> (string \<times> json) list \<Rightarrow> 'r \<Rightarrow> 'r option" where
  "store_fields store names [] r = Some r"
| "store_fields store names ((k, v) # kvs) r =
     (case field_for names k of
        None \<Rightarrow> store_fields store names kvs r
      | Some f \<Rightarrow> Option.bind (store f v r) (store_fields store names kvs))"

definition unmarshal_struct :: "(string \<Rightarrow> json \<Rightarrow> 'r \<Rightarrow> 'r option) \<Rightarrow> string list \<Rightarrow> 'r \<Rightarrow> string \<Rightarrow> 'r option" where
  "unmarshal_struct store names zero text =
     (case parse_json text of
        Some JNull \<Rightarrow> Some zero
      | Some (JObj kvs) \<Rightarrow> store_fields store names kvs zero
      | _ \<Rightarrow> None)"

definition store_string :: "json \<Rightarrow> string \<Rightarrow> string option" where
  "store_string v old = (case v of JStr s \<Rightarrow> Some s | JNull \<Rightarrow> Some old | _ \<Rightarrow> None)"

definition store_int64 :: "json \<Rightarrow> int64 \<Rightarrow> int64 option" where
  "store_int64 v old =
     (case v of
        JNum l \<Rightarrow>
          (case parse_int l of
             None \<Rightarrow> None
           | Some i \<Rightarrow> if - (2 ^ 63) \<le> i \<and> i < 2 ^ 63 then Some (word_of_int i) else None)
      | JNull \<Rightarrow> Some old
      | _ \<Rightarrow> None)"

definition store_uint64 :: "json \<Rightarrow> uint64 \<Rightarrow> uint64 option" where
  "store_uint64 v old =
     (case v of
        JNum l \<Rightarrow>
          (case parse_nat l of
             None \<Rightarrow> None
           | Some n \<Rightarrow> if int n < 2 ^ 64 then Some (word_of_int (int n)) else None)
      | JNull \<Rightarrow> Some old
      | _ \<Rightarrow> None)"

text \<open>A map keeps its entries and gets those of the object; each element starts from the zero value.\<close>

fun store_members :: "(json \<Rightarrow> 'v option) \<Rightarrow> (string \<times> json) list \<Rightarrow> 'v gomap \<Rightarrow> 'v gomap option" where
  "store_members elem [] m = Some m"
| "store_members elem ((k, v) # kvs) m = Option.bind (elem v) (\<lambda>x. store_members elem kvs (fmupd k x m))"

definition store_map :: "(json \<Rightarrow> 'v option) \<Rightarrow> json \<Rightarrow> 'v gomap \<Rightarrow> 'v gomap option" where
  "store_map elem v old =
     (case v of JObj kvs \<Rightarrow> store_members elem kvs old | JNull \<Rightarrow> Some fmempty | _ \<Rightarrow> None)"

fun store_strings :: "json list \<Rightarrow> string list option" where
  "store_strings [] = Some []"
| "store_strings (v # vs) =
     Option.bind (store_string v []) (\<lambda>s. map_option ((#) s) (store_strings vs))"

definition store_slice :: "json \<Rightarrow> string list option" where
  "store_slice v = (case v of JArr vs \<Rightarrow> store_strings vs | JNull \<Rightarrow> Some [] | _ \<Rightarrow> None)"

text \<open>What \<open>Marshal\<close> writes: numbers in decimal, a map as an object in the order of its keys, a \<open>nil\<close> slice as \<open>null\<close>.\<close>

definition int64_json :: "int64 \<Rightarrow> json" where
  "int64_json w = JNum (int_text (sint w))"

definition uint64_json :: "uint64 \<Rightarrow> json" where
  "uint64_json w = JNum (int_text (uint w))"

definition map_json :: "('v \<Rightarrow> json) \<Rightarrow> 'v gomap \<Rightarrow> json" where
  "map_json elem m = JObj (map (\<lambda>(k, v). (k, elem v)) (sorted_list_of_fmap m))"

definition slice_json :: "string list \<Rightarrow> json" where
  "slice_json xs = (if xs = [] then JNull else JArr (map JStr xs))"

text \<open>A field with \<open>omitempty\<close>.\<close>

definition omit_if :: "bool \<Rightarrow> string \<Rightarrow> json \<Rightarrow> (string \<times> json) list" where
  "omit_if b k v = (if b then [] else [(k, v)])"

section \<open>Fields are read back\<close>

lemma store_int64_json [simp]: "store_int64 (int64_json w) old = Some w"
  using sint_int64_range [of w] by (simp add: store_int64_def int64_json_def parse_int_text int64_of_sint)

lemma store_uint64_json [simp]: "store_uint64 (uint64_json w) old = Some w"
proof -
  have "int_text (uint w) = nat_text (unat w)" by (simp add: int_text_def)
  moreover have "int (unat w) < 2 ^ 64" using uint_lt2p [of w] by simp
  ultimately show ?thesis using nat_text_digits [of "unat w"]
    by (simp add: store_uint64_def uint64_json_def parse_nat_def nat_text_value)
qed

lemma store_string_JStr [simp]: "store_string (JStr s) old = Some s"
  by (simp add: store_string_def)

lemma store_slice_json [simp]: "store_slice (slice_json xs) = Some xs"
proof -
  have "store_strings (map JStr xs) = Some xs" by (induction xs) auto
  then show ?thesis by (simp add: store_slice_def slice_json_def)
qed

lemma fold_fmupd_lookup:
  "distinct (map fst xs) \<Longrightarrow>
   fmlookup (fold (\<lambda>(k, v). fmupd k v) xs m) k = (case map_of xs k of None \<Rightarrow> fmlookup m k | Some v \<Rightarrow> Some v)"
proof (induction xs arbitrary: m)
  case (Cons x xs)
  then show ?case by (cases x) (auto simp: map_of_eq_None_iff [THEN iffD2] split: option.splits dest: map_of_SomeD)
qed simp

lemma store_map_json [simp]:
  assumes "\<And>x. elem (enc x) = Some x"
  shows "store_map elem (map_json enc m) fmempty = Some m"
proof -
  have "store_members elem (map (\<lambda>(k, v). (k, enc v)) xs) m0 = Some (fold (\<lambda>(k, v). fmupd k v) xs m0)" for xs m0
    by (induction xs arbitrary: m0) (auto simp: assms)
  moreover have "fold (\<lambda>(k, v). fmupd k v) (sorted_list_of_fmap m) fmempty = m"
    by (intro fmap_ext)
      (simp add: fold_fmupd_lookup [OF distinct_keys_sorted_list_of_fmap] map_of_sorted_list split: option.split)
  ultimately show ?thesis by (simp add: store_map_def map_json_def)
qed

lemma store_fields_append [simp]:
  "store_fields store names (xs @ ys) r = Option.bind (store_fields store names xs r) (store_fields store names ys)"
  by (induction xs arbitrary: r) (auto split: option.split bind_split)

lemma store_omit_if:
  assumes "k \<in> set names" and "b \<Longrightarrow> r' = r" and "store k v r = Some r'"
  shows "store_fields store names (omit_if b k v) r = Some r'"
  using assms by (auto simp: omit_if_def field_for_def)

lemma set_omit_if: "x \<in> set (omit_if b k v) \<Longrightarrow> x = (k, v)"
  by (simp add: omit_if_def split: if_splits)

text \<open>The strings of a map that the encoding keeps.\<close>

definition keys_ok :: "'v gomap \<Rightarrow> bool" where
  "keys_ok m \<longleftrightarrow> list_all (\<lambda>(k, v). valid_utf8 k) (sorted_list_of_fmap m)"

lemma keys_ok_iff: "keys_ok m \<longleftrightarrow> (\<forall>k v. fmlookup m k = Some v \<longrightarrow> valid_utf8 k)"
  by (auto simp: keys_ok_def list_all_iff set_sorted_list_of_fmap)

lemma keys_ok_empty [simp]: "keys_ok fmempty"
  by (simp add: keys_ok_iff)

lemma keys_ok_upd: "valid_utf8 k \<Longrightarrow> keys_ok m \<Longrightarrow> keys_ok (fmupd k v m)"
  by (simp add: keys_ok_iff)

lemma json_ok_int [simp]: "json_ok (int64_json w)" "json_ok (uint64_json u)"
  by (simp_all add: int64_json_def uint64_json_def num_literal_int)

lemma depth_int [simp]: "depth (int64_json w) = 0" "depth (uint64_json u) = 0"
  by (simp_all add: int64_json_def uint64_json_def)

lemma json_ok_map: "keys_ok m \<Longrightarrow> (\<And>k v. fmlookup m k = Some v \<Longrightarrow> json_ok (enc v)) \<Longrightarrow> json_ok (map_json enc m)"
  by (auto simp: map_json_def keys_ok_def list_all_iff set_sorted_list_of_fmap)

lemma fold_max_bound: "\<forall>x \<in> set xs. x \<le> b \<Longrightarrow> a \<le> b \<Longrightarrow> fold max xs (a :: nat) \<le> b"
  by (induction xs arbitrary: a) auto

lemma depth_map: "(\<And>v. depth (enc v) \<le> b) \<Longrightarrow> depth (map_json enc m) \<le> Suc b"
  unfolding map_json_def depth.simps by (auto intro!: fold_max_bound)

lemma slice_json_ok: "list_all valid_utf8 xs \<Longrightarrow> json_ok (slice_json xs)"
  by (auto simp: slice_json_def list_all_iff)

lemma depth_slice: "depth (slice_json xs) \<le> 1"
  using fold_max_bound [of "map depth (map JStr xs)" 0 0] by (auto simp: slice_json_def)

lemma unmarshal_render:
  assumes "json_ok (JObj kvs)" and "depth (JObj kvs) \<le> 10000"
  shows "unmarshal_struct store names zero (render (JObj kvs)) = store_fields store names kvs zero"
  using parse_render [OF assms] by (simp add: unmarshal_struct_def)

lemma unmarshal_cut_short:
  assumes "json_ok (JObj kvs)" and "depth (JObj kvs) \<le> 10000" and "k < length (render (JObj kvs))"
  shows "unmarshal_struct store names zero (take k (render (JObj kvs))) = None"
proof -
  have "render (JObj kvs) = take k (render (JObj kvs)) @ drop k (render (JObj kvs))" by simp
  from parse_cut_short [OF assms(1,2) this] assms(3) show ?thesis by (simp add: unmarshal_struct_def)
qed

section \<open>Short ASCII texts\<close>

lemma valid_utf8_ascii: "list_all (\<lambda>c. byte c < 0x80) s \<Longrightarrow> valid_utf8 s"
proof (induction s)
  case (Cons c s)
  then have "utf8_size (c # s) = 1" by (simp add: utf8_size_def)
  with Cons show ?case by (subst valid_utf8.simps) simp
qed (simp add: valid_utf8.simps)

lemma escape_byte_length: "length (escape_byte c) \<le> 6"
  by (simp add: escape_byte_def)

lemma escape_ascii_length: "list_all (\<lambda>c. byte c < 0x80) s \<Longrightarrow> length (escape s) \<le> 6 * length s"
proof (induction s)
  case (Cons c s)
  then have "escape (c # s) = escape_byte c @ escape s" by (subst escape.simps) simp
  with Cons escape_byte_length [of c] show ?case by simp
qed (simp add: escape.simps)

lemma nat_text_length: "n < 10 ^ Suc k \<Longrightarrow> length (nat_text n) \<le> Suc k"
proof (induction k arbitrary: n)
  case 0
  then show ?case by (subst nat_text.simps) simp
next
  case (Suc k)
  then have "n div 10 < 10 ^ Suc k" by (simp add: less_mult_imp_div_less mult.commute)
  with Suc.IH show ?case by (subst nat_text.simps) simp
qed

lemma int_json_length: "length (render (int64_json w)) \<le> 21" "length (render (uint64_json u)) \<le> 21"
proof -
  have len: "length (int_text i) \<le> 21" if "\<bar>i\<bar> < 10 ^ 20" for i :: int
    using that nat_text_length [of "nat i" 19] nat_text_length [of "nat (- i)" 19]
    by (auto simp: int_text_def nat_less_iff)
  have "\<bar>sint w\<bar> < 10 ^ 20" using sint_int64_range [of w] by (simp add: abs_less_iff)
  with len show "length (render (int64_json w)) \<le> 21" by (simp add: int64_json_def)
  have "\<bar>uint u\<bar> < 10 ^ 20" using uint_lt2p [of u] by simp
  with len show "length (render (uint64_json u)) \<le> 21" by (simp add: uint64_json_def)
qed

end
