(* ===== verification/PNCounter.thy ===== *)
theory PNCounter
  imports Max_Merge Json_Struct
begin

text \<open>
  \<open>internal/crdt/pn_counter.go\<close>: the positive-negative counter. All named counters of a node share
  one pair of maps; the contribution of replica \<open>r\<close> to counter \<open>c\<close> is the entry \<open>c:r\<close>, and the bare
  \<open>r\<close> for the default counter. The mutex around every method makes each method one atomic step, so
  a method is a function on the record. (\<open>Merge\<close> takes its argument's lock as well: merging a counter
  with itself would block, and no caller does it.)
\<close>

section \<open>The counter and its operations\<close>

record PNCounter =
  positive :: "int64 gomap"
  negative :: "int64 gomap"
  pn_nodeID :: string

definition NewPNCounter :: "string \<Rightarrow> PNCounter" where
  "NewPNCounter nodeID = \<lparr>positive = fmempty, negative = fmempty, pn_nodeID = nodeID\<rparr>"

definition counterKey :: "string \<Rightarrow> string \<Rightarrow> string" where
  "counterKey name nodeID =
     (if name = '''' \<or> name = ''default'' then nodeID else name @ '':'' @ nodeID)"

definition PN_Increment :: "int64 \<Rightarrow> PNCounter \<Rightarrow> PNCounter" where
  "PN_Increment delta p =
     p\<lparr>positive := fmupd (pn_nodeID p) (gget (positive p) (pn_nodeID p) + delta) (positive p)\<rparr>"

definition PN_Decrement :: "int64 \<Rightarrow> PNCounter \<Rightarrow> PNCounter" where
  "PN_Decrement delta p =
     p\<lparr>negative := fmupd (pn_nodeID p) (gget (negative p) (pn_nodeID p) + delta) (negative p)\<rparr>"

definition PN_IncrementName :: "string \<Rightarrow> int64 \<Rightarrow> PNCounter \<Rightarrow> PNCounter" where
  "PN_IncrementName name delta p =
     (let k = counterKey name (pn_nodeID p)
      in p\<lparr>positive := fmupd k (gget (positive p) k + delta) (positive p)\<rparr>)"

definition PN_DecrementName :: "string \<Rightarrow> int64 \<Rightarrow> PNCounter \<Rightarrow> PNCounter" where
  "PN_DecrementName name delta p =
     (let k = counterKey name (pn_nodeID p)
      in p\<lparr>negative := fmupd k (gget (negative p) k + delta) (negative p)\<rparr>)"

definition keyBelongsTo :: "string \<Rightarrow> string \<Rightarrow> bool" where
  "keyBelongsTo name key =
     (if name = '''' \<or> name = ''default''
      then \<not> Contains key '':'' \<or> HasPrefix key ''default:''
      else HasPrefix key (name @ '':''))"

definition PN_ValueName :: "string \<Rightarrow> PNCounter \<Rightarrow> int64" where
  "PN_ValueName name p =
     sum_where (keyBelongsTo name) (positive p) - sum_where (keyBelongsTo name) (negative p)"

text \<open>The two deletion loops of \<open>ResetName\<close>: the default counter's and a named counter's.\<close>

definition drop_default_body :: "string \<Rightarrow> int64 \<Rightarrow> int64 gomap \<Rightarrow> int64 gomap" where
  "drop_default_body k v m =
     (if \<not> Contains k '':'' \<or> HasPrefix k ''default:'' then fmdrop k m else m)"

definition drop_prefix_body :: "string \<Rightarrow> string \<Rightarrow> int64 \<Rightarrow> int64 gomap \<Rightarrow> int64 gomap" where
  "drop_prefix_body pre k v m = (if HasPrefix k pre then fmdrop k m else m)"

definition reset_map :: "string \<Rightarrow> int64 gomap \<Rightarrow> int64 gomap" where
  "reset_map name m =
     (if name = '''' \<or> name = ''default'' then go_range drop_default_body m m
      else go_range (drop_prefix_body (name @ '':'')) m m)"

definition PN_ResetName :: "string \<Rightarrow> PNCounter \<Rightarrow> PNCounter" where
  "PN_ResetName name p =
     p\<lparr>positive := reset_map name (positive p), negative := reset_map name (negative p)\<rparr>"

text \<open>The loop of \<open>Names\<close> that collects the text before the first colon of every key.\<close>

definition seen_body :: "string \<Rightarrow> int64 \<Rightarrow> bool gomap \<Rightarrow> bool gomap" where
  "seen_body k v seen =
     (let i = IndexByte k CHR '':'' in if 0 < i then fmupd (take (nat i) k) True seen else seen)"

definition map_names :: "bool gomap \<Rightarrow> string list" where
  "map_names seen = sort (map fst (sorted_list_of_fmap seen))"

definition PN_Names :: "PNCounter \<Rightarrow> string list" where
  "PN_Names p =
     (let seen = go_range seen_body (positive p) fmempty;
          seen = go_range seen_body (negative p) seen
      in map_names seen)"

definition PN_Reset :: "PNCounter \<Rightarrow> PNCounter" where
  "PN_Reset p = p\<lparr>positive := fmempty, negative := fmempty\<rparr>"

definition PN_Value :: "PNCounter \<Rightarrow> int64" where
  "PN_Value p = go_range (\<lambda>_ v s. s + v) (positive p) 0 - go_range (\<lambda>_ v s. s + v) (negative p) 0"

definition PN_Merge :: "PNCounter \<Rightarrow> PNCounter \<Rightarrow> PNCounter" where
  "PN_Merge p other =
     p\<lparr>positive := merge_max (positive p) (positive other),
       negative := merge_max (negative p) (negative other)\<rparr>"

text \<open>The copying loop of \<open>SetPositive\<close>, \<open>SetNegative\<close>, \<open>Positive\<close> and \<open>Negative\<close>.\<close>

definition copy_body :: "string \<Rightarrow> 'v \<Rightarrow> 'v gomap \<Rightarrow> 'v gomap" where
  "copy_body k v res = fmupd k v res"

definition copy_map :: "'v gomap \<Rightarrow> 'v gomap" where
  "copy_map m = go_range copy_body m fmempty"

definition PN_SetPositive :: "int64 gomap \<Rightarrow> PNCounter \<Rightarrow> PNCounter" where
  "PN_SetPositive state p = p\<lparr>positive := copy_map state\<rparr>"

definition PN_SetNegative :: "int64 gomap \<Rightarrow> PNCounter \<Rightarrow> PNCounter" where
  "PN_SetNegative state p = p\<lparr>negative := copy_map state\<rparr>"

definition PN_Positive :: "PNCounter \<Rightarrow> int64 gomap" where
  "PN_Positive p = copy_map (positive p)"

definition PN_Negative :: "PNCounter \<Rightarrow> int64 gomap" where
  "PN_Negative p = copy_map (negative p)"

text \<open>\<open>json.Marshal\<close> of a \<open>map[string]interface{}\<close> writes the keys in order.\<close>

definition PN_MarshalJSON :: "PNCounter \<Rightarrow> string" where
  "PN_MarshalJSON p =
     render (JObj [(''negative'', map_json int64_json (negative p)), (''node_id'', JStr (pn_nodeID p)),
       (''positive'', map_json int64_json (positive p)), (''value'', int64_json (PN_Value p))])"

text \<open>Every stored count is positive. This is so as long as every delta is positive and no count overflows; \<open>IncrementName\<close>
  accepts other deltas too.\<close>

definition pn_positive_counts :: "PNCounter \<Rightarrow> bool" where
  "pn_positive_counts p \<longleftrightarrow> counts_positive (positive p) \<and> counts_positive (negative p)"

text \<open>
  The counter a request means (the empty name stands for the default counter) and the counter that
  owns a key: the text before its first colon, the default counter for a key without a colon.
\<close>

definition canonical_name :: "string \<Rightarrow> string" where
  "canonical_name name = (if name = '''' then ''default'' else name)"

definition key_owner :: "string \<Rightarrow> string" where
  "key_owner k = (if CHR '':'' \<in> set k then takeWhile (\<lambda>c. c \<noteq> CHR '':'') k else ''default'')"

text \<open>The sum of the stored counts as an integer, without wrap-around.\<close>

definition true_sum :: "(string \<Rightarrow> bool) \<Rightarrow> int64 gomap \<Rightarrow> int" where
  "true_sum P m = (\<Sum>k \<in> {k \<in> fset (fmdom m). P k}. sint (gget m k))"

abbreviation colon_free :: "string \<Rightarrow> bool" where
  "colon_free s \<equiv> CHR '':'' \<notin> set s"

section \<open>The loops, one key at a time\<close>

definition drop_if :: "(string \<Rightarrow> bool) \<Rightarrow> string \<Rightarrow> int64 \<Rightarrow> int64 option \<Rightarrow> int64 option" where
  "drop_if P k v old = (if P k then None else old)"

interpretation drop_default: keywise_loop drop_default_body "drop_if (keyBelongsTo ''default'')"
  by unfold_locales (simp add: drop_default_body_def drop_if_def keyBelongsTo_def)

interpretation drop_prefix: keywise_loop "drop_prefix_body pre" "drop_if (\<lambda>k. HasPrefix k pre)" for pre
  by unfold_locales (simp add: drop_prefix_body_def drop_if_def)

interpretation copying: keywise_loop copy_body "\<lambda>k v old. Some v"
  by unfold_locales (simp add: copy_body_def)

lemma copy_map_id [simp]: "copy_map m = m"
  by (rule fmap_ext) (simp add: copy_map_def copying.range_lookup split: option.split)

lemma reset_map_filter: "reset_map name m = fmfilter (\<lambda>k. \<not> keyBelongsTo name k) m"
  by (rule fmap_ext)
    (auto simp: reset_map_def drop_default.range_lookup drop_prefix.range_lookup drop_if_def
      keyBelongsTo_def split: option.split)

lemma PN_Value_eq: "PN_Value p = key_sum (\<lambda>_. True) (positive p) - key_sum (\<lambda>_. True) (negative p)"
  using sum_where_eq_sum [of "\<lambda>_. True"] by (simp add: PN_Value_def sum_where_def)

lemma PN_ValueName_eq:
  "PN_ValueName name p = key_sum (keyBelongsTo name) (positive p) - key_sum (keyBelongsTo name) (negative p)"
  by (simp add: PN_ValueName_def sum_where_eq_sum)

lemmas pn_defs = NewPNCounter_def PN_Increment_def PN_Decrement_def PN_IncrementName_def
  PN_DecrementName_def PN_ResetName_def PN_Reset_def PN_Merge_def PN_SetPositive_def
  PN_SetNegative_def PN_Positive_def PN_Negative_def Let_def

section \<open>Namespaces\<close>

lemma HasPrefix_colon:
  assumes "colon_free name"
  shows "HasPrefix k (name @ '':'') \<longleftrightarrow> CHR '':'' \<in> set k \<and> takeWhile (\<lambda>c. c \<noteq> CHR '':'') k = name"
proof
  assume "HasPrefix k (name @ '':'')"
  then obtain t where "k = name @ CHR '':'' # t" by (auto simp: HasPrefix_iff)
  with assms show "CHR '':'' \<in> set k \<and> takeWhile (\<lambda>c. c \<noteq> CHR '':'') k = name"
    by (auto simp: takeWhile_append takeWhile_eq_all_conv)
next
  assume k: "CHR '':'' \<in> set k \<and> takeWhile (\<lambda>c. c \<noteq> CHR '':'') k = name"
  then obtain a t where "k = a @ CHR '':'' # t" "colon_free a"
    using split_list_first [of "CHR '':''" k] by blast
  with k have "k = name @ CHR '':'' # t"
    by (auto simp: takeWhile_append takeWhile_eq_all_conv)
  then show "HasPrefix k (name @ '':'')" by (auto simp: HasPrefix_iff)
qed

lemma belongs_iff_owner:
  assumes "colon_free name"
  shows "keyBelongsTo name k \<longleftrightarrow> key_owner k = canonical_name name"
proof -
  have "HasPrefix k ''default:'' \<longleftrightarrow>
      CHR '':'' \<in> set k \<and> takeWhile (\<lambda>c. c \<noteq> CHR '':'') k = ''default''"
    using HasPrefix_colon [of "''default''" k] by simp
  with assms show ?thesis
    by (auto simp: keyBelongsTo_def key_owner_def canonical_name_def HasPrefix_colon)
qed

lemma owner_counterKey:
  "colon_free name \<Longrightarrow> colon_free nodeID \<Longrightarrow> key_owner (counterKey name nodeID) = canonical_name name"
  by (auto simp: counterKey_def key_owner_def canonical_name_def takeWhile_append takeWhile_eq_all_conv)

section \<open>Values after the operations\<close>

lemma reset_map_keeps:
  "colon_free name \<Longrightarrow> colon_free other \<Longrightarrow> canonical_name other \<noteq> canonical_name name \<Longrightarrow>
   key_sum (keyBelongsTo other) (reset_map name m) = key_sum (keyBelongsTo other) m"
  by (rule key_sum_cong) (auto simp: reset_map_filter belongs_iff_owner)

lemma reset_map_clears: "key_sum (keyBelongsTo name) (reset_map name m) = 0"
  by (rule key_sum_zero) (simp add: reset_map_filter)

lemma canonical_belongs: "canonical_name a = canonical_name b \<Longrightarrow> keyBelongsTo a = keyBelongsTo b"
  by (intro ext) (auto simp: canonical_name_def keyBelongsTo_def split: if_splits)

text \<open>Which counters an update is counted in: those to whose namespace its key belongs, its own among them.\<close>

lemma ValueName_update_any:
  "PN_ValueName other (PN_IncrementName name delta p) =
     PN_ValueName other p + (if keyBelongsTo other (counterKey name (pn_nodeID p)) then delta else 0)"
  "PN_ValueName other (PN_DecrementName name delta p) =
     PN_ValueName other p - (if keyBelongsTo other (counterKey name (pn_nodeID p)) then delta else 0)"
  by (simp_all add: PN_ValueName_eq pn_defs key_sum_upd)

lemma own_key: "colon_free nodeID \<Longrightarrow> keyBelongsTo name (counterKey name nodeID)"
  using belongs_iff_owner [of "''''" nodeID] owner_counterKey [of "''''" nodeID] HasPrefix_append [of "name @ '':''" nodeID]
  by (auto simp: keyBelongsTo_def counterKey_def)

lemma ValueName_IncrementName:
  "colon_free name \<Longrightarrow> colon_free other \<Longrightarrow> colon_free (pn_nodeID p) \<Longrightarrow>
   PN_ValueName other (PN_IncrementName name delta p) =
     PN_ValueName other p + (if canonical_name other = canonical_name name then delta else 0)"
  by (auto simp: PN_ValueName_eq pn_defs key_sum_upd belongs_iff_owner owner_counterKey)

lemma ValueName_DecrementName:
  "colon_free name \<Longrightarrow> colon_free other \<Longrightarrow> colon_free (pn_nodeID p) \<Longrightarrow>
   PN_ValueName other (PN_DecrementName name delta p) =
     PN_ValueName other p - (if canonical_name other = canonical_name name then delta else 0)"
  by (auto simp: PN_ValueName_eq pn_defs key_sum_upd belongs_iff_owner owner_counterKey)

lemma ValueName_ResetName: "PN_ValueName name (PN_ResetName name p) = 0"
  by (simp add: PN_ValueName_eq PN_ResetName_def reset_map_clears)

lemma ValueName_ResetName_other:
  "colon_free name \<Longrightarrow> colon_free other \<Longrightarrow> canonical_name other \<noteq> canonical_name name \<Longrightarrow>
   PN_ValueName other (PN_ResetName name p) = PN_ValueName other p"
  by (simp add: PN_ValueName_eq PN_ResetName_def reset_map_keeps)

text \<open>Adding to a named counter changes that counter's value by the amount added, subtracting
  changes it by the amount subtracted, and no other counter changes.\<close>

theorem PN_IncrementName_value:
  assumes "colon_free name" "colon_free other" "colon_free (pn_nodeID p)"
  shows "PN_ValueName other (PN_IncrementName name delta p) =
      PN_ValueName other p + (if canonical_name other = canonical_name name then delta else 0) \<and>
    PN_ValueName other (PN_DecrementName name delta p) =
      PN_ValueName other p - (if canonical_name other = canonical_name name then delta else 0)"
  using assms by (simp add: ValueName_IncrementName ValueName_DecrementName)

theorem PN_IncrementName_value_witness:
  "PN_ValueName ''likes'' (PN_IncrementName ''likes'' 5 (NewPNCounter ''n1'')) = 5 \<and>
   PN_ValueName ''views'' (PN_DecrementName ''likes'' 5 (NewPNCounter ''n1'')) = 0"
  using PN_IncrementName_value [of "''likes''" "''likes''" "NewPNCounter ''n1''" 5]
    PN_IncrementName_value [of "''likes''" "''views''" "NewPNCounter ''n1''" 5]
  by (simp add: PN_ValueName_eq pn_defs key_sum_def canonical_name_def)

text \<open>Resetting a named counter makes its value zero and leaves every other counter as it was.\<close>

theorem PN_ResetName_value:
  "PN_ValueName name (PN_ResetName name p) = 0 \<and>
   (colon_free name \<longrightarrow> colon_free other \<longrightarrow> canonical_name other \<noteq> canonical_name name \<longrightarrow>
     PN_ValueName other (PN_ResetName name p) = PN_ValueName other p)"
  by (simp add: ValueName_ResetName ValueName_ResetName_other)

theorem PN_ResetName_value_witness:
  "PN_ValueName ''views'' (PN_ResetName ''likes'' (PN_IncrementName ''views'' 3 (NewPNCounter ''n1''))) =
   PN_ValueName ''views'' (PN_IncrementName ''views'' 3 (NewPNCounter ''n1''))"
  using PN_ResetName_value [of "''likes''" "PN_IncrementName ''views'' 3 (NewPNCounter ''n1'')" "''views''"]
  by (simp add: canonical_name_def)

lemma key_sum_true_sum: "key_sum P m = word_of_int (true_sum P m)"
  unfolding key_sum_def true_sum_def by (simp add: int64_of_sint of_int_sum)

text \<open>The wrap-around of the int64 sums is invisible whenever the counter's true value fits
  into an int64: then \<open>ValueName\<close> is the sum of the positive minus the sum of the negative counts.\<close>

theorem PN_ValueName_exact:
  assumes "- (2 ^ 63) \<le> true_sum (keyBelongsTo name) (positive p) - true_sum (keyBelongsTo name) (negative p)"
    and "true_sum (keyBelongsTo name) (positive p) - true_sum (keyBelongsTo name) (negative p) < 2 ^ 63"
  shows "sint (PN_ValueName name p) =
    true_sum (keyBelongsTo name) (positive p) - true_sum (keyBelongsTo name) (negative p)"
proof -
  let ?t = "true_sum (keyBelongsTo name) (positive p) - true_sum (keyBelongsTo name) (negative p)"
  have "PN_ValueName name p = word_of_int ?t"
    by (simp add: PN_ValueName_eq key_sum_true_sum)
  moreover have "sint (word_of_int ?t :: int64) = ?t"
    using assms by (rule sint_int64)
  ultimately show ?thesis by metis
qed

theorem PN_ValueName_exact_witness:
  "sint (PN_ValueName ''c'' \<lparr>positive = fmap_of_list [(''c:a'', 7)], negative = fmap_of_list [(''c:a'', 9)],
     pn_nodeID = ''a''\<rparr>) = -2"
proof -
  let ?p = "\<lparr>positive = fmap_of_list [(''c:a'', 7)], negative = fmap_of_list [(''c:a'', 9)], pn_nodeID = ''a''\<rparr>"
  have 1: "true_sum (keyBelongsTo ''c'') (positive ?p) = 7" by code_simp
  have 2: "true_sum (keyBelongsTo ''c'') (negative ?p) = 9" by code_simp
  show ?thesis using PN_ValueName_exact [of "''c''" ?p] unfolding 1 2 by simp
qed

section \<open>Merging\<close>




text \<open>On counters with positive counts, \<open>Merge\<close> keeps them positive and is commutative (on the
  counts), associative and idempotent.\<close>

theorem PN_Merge_join:
  assumes "pn_positive_counts p" "pn_positive_counts q" "pn_positive_counts r"
  shows "pn_positive_counts (PN_Merge p q) \<and>
    positive (PN_Merge p q) = positive (PN_Merge q p) \<and>
    negative (PN_Merge p q) = negative (PN_Merge q p) \<and>
    PN_Merge (PN_Merge p q) r = PN_Merge p (PN_Merge q r) \<and>
    PN_Merge p p = p"
  using assms
  by (simp add: PN_Merge_def pn_positive_counts_def max_join.merge_invar max_join.merge_assoc
      max_join.merge_idem max_join.merge_comm [of "positive p"] max_join.merge_comm [of "negative p"])

theorem PN_Merge_join_witness:
  "let p = PN_IncrementName ''c'' 2 (NewPNCounter ''a''); q = PN_IncrementName ''c'' 3 (NewPNCounter ''b'')
   in positive (PN_Merge p q) = positive (PN_Merge q p)"
proof -
  have "pn_positive_counts (PN_IncrementName ''c'' 2 (NewPNCounter ''a''))"
    and "pn_positive_counts (PN_IncrementName ''c'' 3 (NewPNCounter ''b''))"
    by code_simp+
  then show ?thesis
    using PN_Merge_join [of "PN_IncrementName ''c'' 2 (NewPNCounter ''a'')"
      "PN_IncrementName ''c'' 3 (NewPNCounter ''b'')" "PN_IncrementName ''c'' 3 (NewPNCounter ''b'')"]
    by (simp add: Let_def)
qed



text \<open>Go may run the two loops of \<open>Merge\<close> in any order of the keys: the result is the same.\<close>

theorem PN_Merge_any_order:
  assumes "distinct (map fst ps)" "fmap_of_list ps = positive other"
    and "distinct (map fst ns)" "fmap_of_list ns = negative other"
  shows "p\<lparr>positive := fold (\<lambda>(k, v). merge_body k v) ps (positive p),
           negative := fold (\<lambda>(k, v). merge_body k v) ns (negative p)\<rparr> = PN_Merge p other"
  using assms by (simp add: PN_Merge_def merge_max_def merge_loop.any_order)

theorem PN_Merge_any_order_witness:
  "(NewPNCounter ''a'')\<lparr>
     positive := fold (\<lambda>(k, v). merge_body k v) [(''y'', 1), (''x'', 2)] (positive (NewPNCounter ''a'')),
     negative := fold (\<lambda>(k, v). merge_body k v) [] (negative (NewPNCounter ''a''))\<rparr> =
   PN_Merge (NewPNCounter ''a'')
     \<lparr>positive = fmap_of_list [(''y'', 1), (''x'', 2)], negative = fmempty, pn_nodeID = ''''\<rparr>"
  by (rule PN_Merge_any_order) simp_all

section \<open>Names\<close>

lemma fold_seen_lookup:
  "fmlookup (fold (\<lambda>(k, v). seen_body k v) xs s) n =
     (if \<exists>k \<in> set (map fst xs). 0 < IndexByte k CHR '':'' \<and> take (nat (IndexByte k CHR '':'')) k = n
      then Some True else fmlookup s n)"
  by (induction xs arbitrary: s) (auto simp: seen_body_def Let_def)

lemma seen_range_lookup:
  "fmlookup (go_range seen_body m s) n =
     (if \<exists>k \<in> fset (fmdom m). 0 < IndexByte k CHR '':'' \<and> take (nat (IndexByte k CHR '':'')) k = n
      then Some True else fmlookup s n)"
  by (simp add: go_range_def fold_seen_lookup del: set_map)

lemma set_map_names: "set (map_names seen) = fset (fmdom seen)"
  by (simp add: map_names_def)

lemma owner_IndexByte:
  "0 < IndexByte k CHR '':'' \<and> take (nat (IndexByte k CHR '':'')) k = n \<longleftrightarrow>
   CHR '':'' \<in> set k \<and> key_owner k = n \<and> n \<noteq> ''''"
proof (cases "CHR '':'' \<in> set k")
  case True
  then obtain a t where k: "k = a @ CHR '':'' # t" "colon_free a"
    using split_list_first [of "CHR '':''" k] by blast
  then have "IndexByte k CHR '':'' = int (length a)" and "key_owner k = a"
    by (simp_all add: IndexByte_append key_owner_def takeWhile_append takeWhile_eq_all_conv)
  with k show ?thesis by auto
qed (simp add: IndexByte_absent)

lemma set_PN_Names:
  "set (PN_Names p) =
     {key_owner k | k. k \<in> fset (fmdom (positive p)) \<union> fset (fmdom (negative p)) \<and>
        CHR '':'' \<in> set k \<and> key_owner k \<noteq> ''''}"
proof -
  let ?seen = "go_range seen_body (negative p) (go_range seen_body (positive p) fmempty)"
  let ?keys = "fset (fmdom (positive p)) \<union> fset (fmdom (negative p))"
  have "n \<in> fset (fmdom ?seen) \<longleftrightarrow> (\<exists>k \<in> ?keys. CHR '':'' \<in> set k \<and> key_owner k = n \<and> n \<noteq> '''')" for n
    unfolding fmlookup_dom_iff seen_range_lookup owner_IndexByte by (auto simp: fmlookup_dom_iff)
  then have "set (PN_Names p) = {n. \<exists>k \<in> ?keys. CHR '':'' \<in> set k \<and> key_owner k = n \<and> n \<noteq> ''''}"
    unfolding PN_Names_def Let_def set_map_names by blast
  also have "\<dots> = {key_owner k | k. k \<in> ?keys \<and> CHR '':'' \<in> set k \<and> key_owner k \<noteq> ''''}"
    by blast
  finally show ?thesis .
qed

text \<open>\<open>Names\<close> lists, sorted and without repetition, exactly the nonempty texts before the first
  colon of a key, that is the counters that own a namespaced key.\<close>

theorem PN_Names_spec:
  "sorted (PN_Names p) \<and> distinct (PN_Names p) \<and>
   set (PN_Names p) =
     {key_owner k | k. k \<in> fset (fmdom (positive p)) \<union> fset (fmdom (negative p)) \<and>
        CHR '':'' \<in> set k \<and> key_owner k \<noteq> ''''}"
  using set_PN_Names [of p] by (simp add: PN_Names_def map_names_def Let_def sorted_list_of_fset.rep_eq)

section \<open>Where the counter is not a counter\<close>

text \<open>A counter name may contain a colon, and then namespaces overlap: what is added to the
  counter \<open>a:b\<close> is added to the counter \<open>a\<close> as well.\<close>

theorem PN_colon_names_overlap:
  assumes "name \<noteq> ''''" "name \<noteq> ''default''"
  shows "PN_ValueName name (PN_IncrementName (name @ '':'' @ suffix) delta p) = PN_ValueName name p + delta"
proof -
  have "name @ '':'' @ suffix \<noteq> ''default''"
  proof
    assume "name @ '':'' @ suffix = ''default''"
    then have "CHR '':'' \<in> set ''default''" by (metis in_set_conv_decomp append_Cons append_Nil)
    then show False by simp
  qed
  then have "counterKey (name @ '':'' @ suffix) (pn_nodeID p) = (name @ '':'') @ suffix @ '':'' @ pn_nodeID p"
    by (simp add: counterKey_def)
  then have "keyBelongsTo name (counterKey (name @ '':'' @ suffix) (pn_nodeID p))"
    using assms by (metis keyBelongsTo_def HasPrefix_append)
  then show ?thesis by (simp add: PN_ValueName_eq pn_defs key_sum_upd)
qed

theorem PN_colon_names_overlap_witness:
  "PN_ValueName ''post'' (PN_IncrementName ''post:1'' 4 (NewPNCounter ''n1'')) =
   PN_ValueName ''post'' (NewPNCounter ''n1'') + 4"
  using PN_colon_names_overlap [of "''post''" "''1''" 4 "NewPNCounter ''n1''"] by simp

text \<open>An increment by a negative amount (the request's delta is any int32) is not a CRDT update:
  a replica that already holds the old count keeps it when it merges the new one, and the origin
  gets the old count back when it merges such a replica.\<close>

theorem PN_negative_delta_lost:
  assumes "k = counterKey name (pn_nodeID p)"
    and "gget (positive q) k = gget (positive p) k" and "k \<in> fset (fmdom (positive q))"
    and "sint delta < 0" and "- (2 ^ 63) \<le> sint (gget (positive p) k) + sint delta"
  shows "gget (positive (PN_Merge q (PN_IncrementName name delta p))) k = gget (positive q) k \<and>
    gget (positive (PN_Merge (PN_IncrementName name delta p) q)) k = gget (positive p) k"
proof -
  have "sint (gget (positive p) k + delta) = sint (gget (positive p) k) + sint delta"
    using assms(4,5) sint_int64_range [of "gget (positive p) k"] by (intro sint_add_int64) simp_all
  with assms show ?thesis
    by (auto simp: pn_defs gget_merge_max fmlookup_dom_iff)
qed

theorem PN_negative_delta_lost_witness:
  "let p = PN_IncrementName ''c'' 10 (NewPNCounter ''a''); q = PN_Merge (NewPNCounter ''b'') p
   in gget (positive (PN_Merge (PN_IncrementName ''c'' (-4) p) q)) ''c:a'' = 10"
proof -
  let ?p = "PN_IncrementName ''c'' 10 (NewPNCounter ''a'')"
  let ?q = "PN_Merge (NewPNCounter ''b'') ?p"
  have 1: "''c:a'' = counterKey ''c'' (pn_nodeID ?p)" by code_simp
  have 2: "gget (positive ?q) ''c:a'' = gget (positive ?p) ''c:a''" by code_simp
  have 3: "''c:a'' \<in> fset (fmdom (positive ?q))" by code_simp
  have 4: "sint (-4 :: int64) < 0" by simp
  have 5: "gget (positive ?p) ''c:a'' = 10" by code_simp
  show ?thesis using PN_negative_delta_lost [OF 1 2 3 4] unfolding 5 Let_def by simp
qed

text \<open>\<open>ResetName\<close> is local: when the node next merges a replica that has seen its old state, every
  count it deleted is back.\<close>

theorem PN_reset_undone_by_merge:
  assumes "pn_positive_counts p" "pn_positive_counts q" and seen: "PN_Merge q p = q"
  shows "positive (PN_Merge (PN_ResetName name p) q) = positive q \<and>
    negative (PN_Merge (PN_ResetName name p) q) = negative q"
proof -
  have *: "merge_max (reset_map name m) m' = m'"
    if "counts_positive m" "counts_positive m'" "merge_max m' m = m'" for m m'
  proof (rule counts_positive_ext)
    have r: "counts_positive (reset_map name m)"
      using that(1) by (auto simp: reset_map_filter counts_positive_def)
    with that show "counts_positive (merge_max (reset_map name m) m')"
      by (simp add: counts_positive_merge_max)
    fix k
    have "sint (gget m k) \<le> sint (gget m' k)"
      using gget_merge_max_sint [OF that(2,1), of k] that(3) by simp
    then show "sint (gget (merge_max (reset_map name m) m') k) = sint (gget m' k)"
      using gget_merge_max_sint [OF r that(2), of k] gget_nonneg [OF that(2), of k]
      by (auto simp: reset_map_filter)
  qed (use that in simp)
  from seen have "merge_max (positive q) (positive p) = positive q"
    and "merge_max (negative q) (negative p) = negative q"
    by (metis PN_Merge_def PNCounter.select_convs PNCounter.update_convs PNCounter.surjective)+
  with assms * show ?thesis by (simp add: PN_Merge_def PN_ResetName_def pn_positive_counts_def)
qed

theorem PN_reset_undone_by_merge_witness:
  "let p = PN_IncrementName ''c'' 10 (NewPNCounter ''a''); q = PN_Merge (NewPNCounter ''b'') p
   in positive (PN_Merge (PN_ResetName ''c'' p) q) = positive q"
proof -
  let ?p = "PN_IncrementName ''c'' 10 (NewPNCounter ''a'')"
  let ?q = "PN_Merge (NewPNCounter ''b'') ?p"
  have "pn_positive_counts ?p" and "pn_positive_counts ?q" and "PN_Merge ?q ?p = ?q"
    by code_simp+
  then show ?thesis using PN_reset_undone_by_merge [of ?p ?q "''c''"] by (simp add: Let_def)
qed

end
