(* ===== verification/VectorClock.thy ===== *)
theory VectorClock
  imports PNCounter
begin

text \<open>
  \<open>internal/crdt/vector_clock.go\<close>: the vector clock, one version per key of the counter, with the
  key scheme of the counter.
\<close>

record VectorClock =
  clock :: "int64 gomap"
  vc_nodeID :: string

definition NewVectorClock :: "string \<Rightarrow> VectorClock" where
  "NewVectorClock nodeID = \<lparr>clock = fmempty, vc_nodeID = nodeID\<rparr>"

definition VC_MergeMap :: "int64 gomap \<Rightarrow> VectorClock \<Rightarrow> VectorClock" where
  "VC_MergeMap state v = v\<lparr>clock := merge_max (clock v) state\<rparr>"

definition VC_Increment :: "VectorClock \<Rightarrow> VectorClock" where
  "VC_Increment v = v\<lparr>clock := fmupd (vc_nodeID v) (gget (clock v) (vc_nodeID v) + 1) (clock v)\<rparr>"

definition VC_IncrementName :: "string \<Rightarrow> VectorClock \<Rightarrow> VectorClock" where
  "VC_IncrementName name v =
     (let k = counterKey name (vc_nodeID v) in v\<lparr>clock := fmupd k (gget (clock v) k + 1) (clock v)\<rparr>)"

definition VC_ResetName :: "string \<Rightarrow> VectorClock \<Rightarrow> VectorClock" where
  "VC_ResetName name v = v\<lparr>clock := reset_map name (clock v)\<rparr>"

definition VC_Names :: "VectorClock \<Rightarrow> string list" where
  "VC_Names v = map_names (go_range seen_body (clock v) fmempty)"

definition VC_Reset :: "VectorClock \<Rightarrow> VectorClock" where
  "VC_Reset v = v\<lparr>clock := fmempty\<rparr>"

definition VC_Merge :: "VectorClock \<Rightarrow> VectorClock \<Rightarrow> VectorClock" where
  "VC_Merge v other = v\<lparr>clock := merge_max (clock v) (clock other)\<rparr>"

definition VC_String :: "VectorClock \<Rightarrow> string" where
  "VC_String v = render (map_json int64_json (clock v))"

definition VC_State :: "VectorClock \<Rightarrow> int64 gomap" where
  "VC_State v = copy_map (clock v)"

lemmas vc_defs = NewVectorClock_def VC_MergeMap_def VC_Increment_def VC_IncrementName_def
  VC_ResetName_def VC_Reset_def VC_Merge_def VC_State_def Let_def

text \<open>\<open>Merge\<close> is \<open>MergeMap\<close> of the other clock's state.\<close>

lemma VC_Merge_eq_MergeMap: "VC_Merge v other = VC_MergeMap (VC_State other) v"
  by (simp add: vc_defs)

text \<open>The clock stays positive under ticks that do not overflow and under merges.\<close>

lemma VC_IncrementName_positive:
  assumes "counts_positive (clock v)" "sint (gget (clock v) (counterKey name (vc_nodeID v))) < 2 ^ 63 - 1"
  shows "counts_positive (clock (VC_IncrementName name v))"
proof (rule counts_positiveI)
  fix k x
  assume x: "fmlookup (clock (VC_IncrementName name v)) k = Some x"
  let ?k = "counterKey name (vc_nodeID v)"
  have "sint (gget (clock v) ?k + 1) = sint (gget (clock v) ?k) + sint (1 :: int64)"
    using assms gget_nonneg [OF assms(1), of ?k] by (intro sint_add_int64) simp_all
  with x assms gget_nonneg [OF assms(1), of ?k] show "0 < sint x"
    by (auto simp: vc_defs split: if_splits dest: counts_positiveD)
qed

lemma VC_MergeMap_positive:
  "counts_positive (clock v) \<Longrightarrow> counts_positive state \<Longrightarrow> counts_positive (clock (VC_MergeMap state v))"
  by (simp add: vc_defs counts_positive_merge_max)

end
