(* ===== verification/Delta.thy ===== *)
theory Delta
  imports VectorClock
begin

text \<open>
  \<open>internal/crdt/delta.go\<close>: the functions behind delta gossip. \<open>DeltaFrom\<close> selects the entries whose
  version exceeds a baseline; the main lemma says when sending the selection has the effect of
  sending everything.
\<close>

text \<open>The loop returns at the first newer entry.\<close>

fun newer_loop :: "(string \<times> int64) list \<Rightarrow> int64 gomap \<Rightarrow> bool" where
  "newer_loop [] base = False"
| "newer_loop ((node, v) # rest) base = (if sint (gget base node) < sint v then True else newer_loop rest base)"

definition ClockNewerThan :: "int64 gomap \<Rightarrow> int64 gomap \<Rightarrow> bool" where
  "ClockNewerThan clk base = newer_loop (sorted_list_of_fmap clk) base"

definition delta_body ::
  "int64 gomap \<Rightarrow> int64 gomap \<Rightarrow> int64 gomap \<Rightarrow> string \<Rightarrow> int64 \<Rightarrow>
   int64 gomap \<times> int64 gomap \<times> int64 gomap \<Rightarrow> int64 gomap \<times> int64 gomap \<times> int64 gomap" where
  "delta_body pos neg base node v acc =
     (case acc of (deltaPos, deltaNeg, deltaClock) \<Rightarrow>
        if sint (gget base node) < sint v
        then ((case fmlookup pos node of Some val \<Rightarrow> fmupd node val deltaPos | None \<Rightarrow> deltaPos),
              (case fmlookup neg node of Some val \<Rightarrow> fmupd node val deltaNeg | None \<Rightarrow> deltaNeg),
              fmupd node v deltaClock)
        else acc)"

definition DeltaFrom ::
  "int64 gomap \<Rightarrow> int64 gomap \<Rightarrow> int64 gomap \<Rightarrow> int64 gomap \<Rightarrow> int64 gomap \<times> int64 gomap \<times> int64 gomap" where
  "DeltaFrom pos neg clk base = go_range (delta_body pos neg base) clk (fmempty, fmempty, fmempty)"

definition MergeClock :: "int64 gomap \<Rightarrow> int64 gomap \<Rightarrow> int64 gomap" where
  "MergeClock a b = merge_max (copy_map a) b"

definition MaxClock :: "int64 gomap \<Rightarrow> int64" where
  "MaxClock clk = go_range (\<lambda>_ v mx. if sint mx < sint v then v else mx) clk 0"

text \<open>The keys \<open>DeltaFrom\<close> selects.\<close>

definition newer_key :: "int64 gomap \<Rightarrow> int64 gomap \<Rightarrow> string \<Rightarrow> bool" where
  "newer_key clk base k =
     (case fmlookup clk k of None \<Rightarrow> False | Some v \<Rightarrow> sint (gget base k) < sint v)"

section \<open>The loops\<close>

lemma newer_loop_iff: "newer_loop xs base \<longleftrightarrow> (\<exists>(k, v) \<in> set xs. sint (gget base k) < sint v)"
  by (induction xs base rule: newer_loop.induct) auto

lemma ClockNewerThan_iff: "ClockNewerThan clk base \<longleftrightarrow> (\<exists>k. newer_key clk base k)"
  by (force simp: ClockNewerThan_def newer_loop_iff newer_key_def set_sorted_list_of_fmap split: option.splits)

lemma MergeClock_eq [simp]: "MergeClock a b = merge_max a b"
  by (simp add: MergeClock_def)

lemma fold_max_clock:
  "sint (fold (\<lambda>(_, v) mx. if sint mx < sint v then v else mx) xs m) =
     fold (\<lambda>(_, v) mx. max mx (sint v)) xs (sint (m :: int64))"
  by (induction xs arbitrary: m) (auto simp: max_def)

lemma fold_max_ge: "x \<in> set xs \<Longrightarrow> f x \<le> fold (\<lambda>y mx. max mx (f y)) xs (m :: int)"
proof (induction xs arbitrary: m)
  case (Cons y xs)
  have "a \<le> fold (\<lambda>y mx. max mx (f y)) xs a" for a
    by (induction xs arbitrary: a) (auto, meson max.cobounded1 order_trans)
  with Cons show ?case by (auto intro: order_trans [OF max.cobounded2])
qed simp

lemma MaxClock_upper: "fmlookup clk k = Some v \<Longrightarrow> sint v \<le> sint (MaxClock clk)"
  using fold_max_ge [of "(k, v)" "sorted_list_of_fmap clk" "\<lambda>(_, v). sint v" 0]
  by (simp add: MaxClock_def go_range_def fold_max_clock [unfolded case_prod_beta'] set_sorted_list_of_fmap case_prod_beta')

text \<open>One keywise loop per component of the accumulator.\<close>

definition pick_body :: "int64 gomap \<Rightarrow> int64 gomap \<Rightarrow> string \<Rightarrow> int64 \<Rightarrow> int64 gomap \<Rightarrow> int64 gomap" where
  "pick_body src base node v acc =
     (if sint (gget base node) < sint v
      then (case fmlookup src node of Some val \<Rightarrow> fmupd node val acc | None \<Rightarrow> acc) else acc)"

definition pick_upd :: "int64 gomap \<Rightarrow> int64 gomap \<Rightarrow> string \<Rightarrow> int64 \<Rightarrow> int64 option \<Rightarrow> int64 option" where
  "pick_upd src base node v old =
     (if sint (gget base node) < sint v
      then (case fmlookup src node of Some val \<Rightarrow> Some val | None \<Rightarrow> old) else old)"

interpretation pick: keywise_loop "pick_body src base" "pick_upd src base" for src base
  by unfold_locales (simp add: pick_body_def pick_upd_def split: option.split)

lemma delta_body_split:
  assumes "fmlookup clk node = Some v"
  shows "delta_body pos neg base node v (dp, dn, dc) =
    (pick_body pos base node v dp, pick_body neg base node v dn, pick_body clk base node v dc)"
  using assms by (simp add: delta_body_def pick_body_def split: option.split)

lemma fold_delta_split:
  "\<forall>(k, v) \<in> set xs. fmlookup clk k = Some v \<Longrightarrow>
   fold (\<lambda>(k, v). delta_body pos neg base k v) xs (dp, dn, dc) =
     (fold (\<lambda>(k, v). pick_body pos base k v) xs dp, fold (\<lambda>(k, v). pick_body neg base k v) xs dn,
      fold (\<lambda>(k, v). pick_body clk base k v) xs dc)"
  by (induction xs arbitrary: dp dn dc) (auto simp: delta_body_split)

lemma pick_range_filter: "go_range (pick_body src base) clk fmempty = fmfilter (newer_key clk base) src"
  by (rule fmap_ext) (auto simp: pick.range_lookup pick_upd_def newer_key_def split: option.split)

lemma DeltaFrom_filter:
  "DeltaFrom pos neg clk base =
     (fmfilter (newer_key clk base) pos, fmfilter (newer_key clk base) neg, fmfilter (newer_key clk base) clk)"
proof -
  have "\<forall>(k, v) \<in> set (sorted_list_of_fmap clk). fmlookup clk k = Some v"
    by (auto simp: set_sorted_list_of_fmap)
  from fold_delta_split [OF this, of pos neg base fmempty fmempty fmempty] show ?thesis
    unfolding DeltaFrom_def go_range_def pick_range_filter [unfolded go_range_def, symmetric] .
qed

lemma merge_filter_eq:
  assumes "\<And>k v. fmlookup src k = Some v \<Longrightarrow> \<not> P k \<Longrightarrow> sint v \<le> sint (gget m k)"
  shows "merge_max m (fmfilter P src) = merge_max m src"
proof (rule fmap_ext)
  fix k
  show "fmlookup (merge_max m (fmfilter P src)) k = fmlookup (merge_max m src) k"
    using assms [of k] by (auto simp: fmlookup_merge_max split: option.splits)
qed

section \<open>Properties\<close>

text \<open>\<open>DeltaFrom\<close> returns the restriction of the three maps to the keys whose version exceeds the
  baseline; its clock part is empty exactly when no version exceeds the baseline.\<close>

theorem DeltaFrom_spec:
  "DeltaFrom pos neg clk base =
     (fmfilter (newer_key clk base) pos, fmfilter (newer_key clk base) neg, fmfilter (newer_key clk base) clk) \<and>
   (snd (snd (DeltaFrom pos neg clk base)) = fmempty \<longleftrightarrow> \<not> ClockNewerThan clk base)"
proof -
  have "fmfilter (newer_key clk base) clk = fmempty \<longleftrightarrow> (\<forall>k. \<not> newer_key clk base k)"
  proof
    assume e: "fmfilter (newer_key clk base) clk = fmempty"
    show "\<forall>k. \<not> newer_key clk base k"
    proof
      fix k
      have "fmlookup (fmfilter (newer_key clk base) clk) k = None" by (simp add: e)
      then show "\<not> newer_key clk base k" by (auto simp: newer_key_def split: option.splits if_splits)
    qed
  qed (simp add: fmfilter_false)
  then show ?thesis by (simp add: DeltaFrom_filter ClockNewerThan_iff)
qed

text \<open>Sending only the delta is as good as sending the full state whenever the receiver already
  holds every count whose version does not exceed the baseline.\<close>

theorem delta_merge_eq_full_merge:
  assumes "DeltaFrom pos neg clk base = (deltaPos, deltaNeg, deltaClock)"
    and "\<And>k v. fmlookup pos k = Some v \<Longrightarrow> \<not> newer_key clk base k \<Longrightarrow> sint v \<le> sint (gget (positive q) k)"
    and "\<And>k v. fmlookup neg k = Some v \<Longrightarrow> \<not> newer_key clk base k \<Longrightarrow> sint v \<le> sint (gget (negative q) k)"
  shows "PN_Merge q (PN_SetNegative deltaNeg (PN_SetPositive deltaPos (NewPNCounter ''''))) =
    PN_Merge q (PN_SetNegative neg (PN_SetPositive pos (NewPNCounter '''')))"
proof -
  have "deltaPos = fmfilter (newer_key clk base) pos" "deltaNeg = fmfilter (newer_key clk base) neg"
    using assms(1) by (simp_all add: DeltaFrom_filter)
  with assms(2,3) show ?thesis by (simp add: pn_defs merge_filter_eq)
qed

theorem delta_merge_eq_full_merge_witness:
  "PN_Merge \<lparr>positive = fmap_of_list [(''a'', 5)], negative = fmempty, pn_nodeID = ''c''\<rparr>
     (PN_SetNegative fmempty (PN_SetPositive (fmap_of_list [(''b'', 2)]) (NewPNCounter ''''))) =
   PN_Merge \<lparr>positive = fmap_of_list [(''a'', 5)], negative = fmempty, pn_nodeID = ''c''\<rparr>
     (PN_SetNegative fmempty (PN_SetPositive (fmap_of_list [(''a'', 5), (''b'', 2)]) (NewPNCounter '''')))"
proof (rule delta_merge_eq_full_merge
    [of _ _ "fmap_of_list [(''a'', 1), (''b'', 1)]" "fmap_of_list [(''a'', 1)]" _ _ "fmap_of_list [(''b'', 1)]"])
  show "DeltaFrom (fmap_of_list [(''a'', 5), (''b'', 2)]) fmempty (fmap_of_list [(''a'', 1), (''b'', 1)])
      (fmap_of_list [(''a'', 1)]) = (fmap_of_list [(''b'', 2)], fmempty, fmap_of_list [(''b'', 1)])"
    by code_simp
qed (auto simp: newer_key_def split: if_splits)

text \<open>\<open>ClockNewerThan\<close> decides the causal order of the vector clocks: it is false exactly when
  merging the clock into the baseline adds nothing.\<close>

theorem ClockNewerThan_order: "\<not> ClockNewerThan clk base \<longleftrightarrow> MergeClock base clk = base"
proof
  assume "\<not> ClockNewerThan clk base"
  then show "MergeClock base clk = base"
    by (auto intro!: fmap_ext simp: fmlookup_merge_max ClockNewerThan_iff newer_key_def split: option.splits)
next
  assume m: "MergeClock base clk = base"
  show "\<not> ClockNewerThan clk base"
  proof
    assume "ClockNewerThan clk base"
    then obtain k v where "fmlookup clk k = Some v" "sint (gget base k) < sint v"
      by (auto simp: ClockNewerThan_iff newer_key_def split: option.splits)
    with m merge_max_covers [of clk k v base] show False by simp
  qed
qed

end
