(* ===== verification/Proto.thy ===== *)
theory Proto
  imports Go_Prelude
begin

text \<open>
  The messages of \<open>api/proto/counter.proto\<close> that the handlers exchange, as the structs of the
  generated \<open>counter.pb.go\<close> have them (without the bookkeeping fields of the protobuf runtime). An
  enum of proto3 is open: a value outside the declared constants arrives as its number. Unix times
  are integers.
\<close>

datatype MemberStatus =
  MEMBER_ALIVE | MEMBER_SUSPECT | MEMBER_DEAD | MEMBER_LEFT | MEMBER_OTHER int32

datatype UpdateType = FULL_STATE | DELTA_UPDATE | HEARTBEAT | UPDATE_OTHER int32

record IncrementRequest =
  ir_Delta :: int32
  ir_ClientId :: string
  ir_Timestamp :: int
  ir_CounterName :: string

record DecrementRequest =
  dr_Delta :: int32
  dr_ClientId :: string
  dr_Timestamp :: int
  dr_CounterName :: string

record GetValueRequest =
  gv_NodeId :: string
  gv_CounterName :: string

record ResetRequest =
  rs_NodeId :: string
  rs_CounterName :: string

record CreateCounterRequest =
  cc_Name :: string
  cc_Tags :: "string list"

record ListCountersRequest =
  lc_Tag :: string

record AddNodeRequest =
  an_NodeId :: string
  an_Address :: string

record RemoveNodeRequest =
  rm_NodeId :: string

record NodeInfo =
  ni_NodeId :: string
  ni_Address :: string
  ni_CounterValue :: int64
  ni_Version :: string
  ni_IsLeader :: bool
  ni_LastSeen :: int
  ni_LeaderId :: string
  ni_Priority :: int64

record CounterResponse =
  cr_NodeId :: string
  cr_CounterName :: string
  cr_CurrentValue :: int64
  cr_Version :: string
  cr_LastUpdated :: int
  cr_ClusterNodes :: "NodeInfo list"

record CounterInfo =
  ci_Name :: string
  ci_CurrentValue :: int64
  ci_Shard :: uint32
  ci_Tags :: "string list"

record StateUpdate =
  su_FromNodeId :: string
  su_PositiveState :: "int64 gomap"
  su_NegativeState :: "int64 gomap"
  su_VectorClock :: "int64 gomap"
  su_Timestamp :: int
  su_Type :: UpdateType
  su_LastSyncVersion :: int64
  su_Membership :: "MemberStatus gomap"

record JoinRequest =
  jr_NodeId :: string
  jr_Address :: string
  jr_StartupTime :: int

record pb_Member =
  pm_NodeId :: string
  pm_Address :: string
  pm_IsActive :: bool
  pm_LastHeartbeat :: int
  pm_CounterValue :: int64
  pm_Status :: MemberStatus
  pm_Priority :: int64

record MemberList =
  ml_Members :: "pb_Member list"
  ml_Version :: int

record HeartbeatRequest =
  hr_NodeId :: string
  hr_CurrentValue :: int64
  hr_Timestamp :: int
  hr_Address :: string
  hr_Priority :: int64
  hr_LeaderId :: string

record HeartbeatResponse =
  hs_Success :: bool
  hs_Message :: string
  hs_ClusterSize :: int
  hs_ActiveMembers :: "pb_Member list"

record SwimPingRequest =
  sp_FromNodeId :: string
  sp_TargetNodeId :: string
  sp_MessageId :: int64

record SwimPingResponse =
  sr_NodeId :: string
  sr_Alive :: bool
  sr_MessageId :: int64

record ElectionRequest =
  er_NodeId :: string
  er_Priority :: int64
  er_MessageId :: int64

record ElectionResponse =
  es_NodeId :: string
  es_Ok :: bool
  es_Priority :: int64

record CoordinatorRequest =
  co_NodeId :: string
  co_Priority :: int64
  co_Term :: int64

record CoordinatorResponse =
  cs_Success :: bool

record AdminResponse =
  ar_Success :: bool
  ar_Message :: string
  ar_Members :: "pb_Member list"

record ForceSyncResponse =
  fr_Success :: bool
  fr_Message :: string
  fr_PeersContacted :: int32

end
