(* ===== verification/Membership.thy ===== *)
theory Membership
  imports Proto "HOL-Library.Multiset"
begin

text \<open>
  \<open>internal/cluster/membership.go\<close>: the member table of a node and the lifecycle Alive, Suspect, Dead,
  Left of its entries. Getters return copies of the members, so there is no aliasing; the order in
  which a getter lists a Go map is open, and the model lists it in key order. \<open>rand.Shuffle\<close> is an
  argument \<open>shuffle\<close>.
\<close>

section \<open>Statuses and members\<close>

datatype Status = StatusAlive | StatusSuspect | StatusDead | StatusLeft

fun Status_String :: "Status \<Rightarrow> string" where
  "Status_String StatusAlive = ''Alive''"
| "Status_String StatusSuspect = ''Suspect''"
| "Status_String StatusDead = ''Dead''"
| "Status_String StatusLeft = ''Left''"

fun ToProto :: "Status \<Rightarrow> MemberStatus" where
  "ToProto StatusSuspect = MEMBER_SUSPECT"
| "ToProto StatusDead = MEMBER_DEAD"
| "ToProto StatusLeft = MEMBER_LEFT"
| "ToProto _ = MEMBER_ALIVE"

fun StatusFromProto :: "MemberStatus \<Rightarrow> Status" where
  "StatusFromProto MEMBER_SUSPECT = StatusSuspect"
| "StatusFromProto MEMBER_DEAD = StatusDead"
| "StatusFromProto MEMBER_LEFT = StatusLeft"
| "StatusFromProto _ = StatusAlive"

record Member =
  m_ID :: string
  m_Address :: string
  m_Status :: Status
  m_IsActive :: bool
  m_CounterValue :: int64
  m_LastHeartbeat :: go_time
  m_SuspectCount :: int
  m_Priority :: int64

definition setStatus :: "Status \<Rightarrow> Member \<Rightarrow> Member" where
  "setStatus s m = m\<lparr>m_Status := s, m_IsActive := (s = StatusAlive)\<rparr>"

record Membership =
  mb_nodeID :: string
  members :: "Member gomap"
  recovering :: bool

definition NewMembership :: "string \<Rightarrow> Membership" where
  "NewMembership nodeID = \<lparr>mb_nodeID = nodeID, members = fmempty, recovering = False\<rparr>"

section \<open>Operations\<close>

definition AddOrUpdateMemberStatus :: "string \<Rightarrow> string \<Rightarrow> Status \<Rightarrow> go_time \<Rightarrow> Membership \<Rightarrow> Membership" where
  "AddOrUpdateMemberStatus i address status lastHeartbeat M =
     (case fmlookup (members M) i of
        Some member \<Rightarrow>
          (let member = member\<lparr>m_Address := address, m_LastHeartbeat := lastHeartbeat\<rparr>;
               member = (if status = StatusAlive
                         then (setStatus StatusAlive member)\<lparr>m_SuspectCount := 0\<rparr> else member)
           in M\<lparr>members := fmupd i member (members M)\<rparr>)
      | None \<Rightarrow>
          (let member = \<lparr>m_ID = i, m_Address = address, m_Status = StatusAlive, m_IsActive = False,
                 m_CounterValue = 0, m_LastHeartbeat = lastHeartbeat, m_SuspectCount = 0, m_Priority = 0\<rparr>
           in M\<lparr>members := fmupd i (setStatus status member) (members M)\<rparr>))"

definition AddOrUpdateMember :: "string \<Rightarrow> string \<Rightarrow> bool \<Rightarrow> go_time \<Rightarrow> Membership \<Rightarrow> Membership" where
  "AddOrUpdateMember i address isActive lastHeartbeat M =
     (let status = (if isActive then StatusAlive else StatusDead)
      in AddOrUpdateMemberStatus i address status lastHeartbeat M)"

definition AddMember :: "go_time \<Rightarrow> string \<Rightarrow> string \<Rightarrow> Membership \<Rightarrow> Membership" where
  "AddMember now i address M = AddOrUpdateMember i address True now M"

text \<open>\<open>if member, exists := m.members[id]; exists { ... }\<close>: change one entry if it is there.\<close>

definition with_member :: "string \<Rightarrow> (Member \<Rightarrow> Member) \<Rightarrow> Membership \<Rightarrow> Membership" where
  "with_member i f M =
     (case fmlookup (members M) i of
        Some member \<Rightarrow> M\<lparr>members := fmupd i (f member) (members M)\<rparr> | None \<Rightarrow> M)"

definition UpdateHeartbeat :: "go_time \<Rightarrow> string \<Rightarrow> Membership \<Rightarrow> Membership" where
  "UpdateHeartbeat now i =
     with_member i (\<lambda>member. (setStatus StatusAlive (member\<lparr>m_LastHeartbeat := now\<rparr>))\<lparr>m_SuspectCount := 0\<rparr>)"

definition SetPriority :: "string \<Rightarrow> int64 \<Rightarrow> Membership \<Rightarrow> Membership" where
  "SetPriority i priority = with_member i (\<lambda>member. member\<lparr>m_Priority := priority\<rparr>)"

definition MarkSuspect :: "string \<Rightarrow> Membership \<Rightarrow> Membership" where
  "MarkSuspect i = with_member i (\<lambda>member.
     if m_Status member = StatusDead \<or> m_Status member = StatusLeft then member
     else (setStatus StatusSuspect member)\<lparr>m_SuspectCount := m_SuspectCount member + 1\<rparr>)"

definition MarkDead :: "string \<Rightarrow> Membership \<Rightarrow> Membership" where
  "MarkDead i = with_member i (setStatus StatusDead)"

definition MarkLeft :: "string \<Rightarrow> Membership \<Rightarrow> Membership" where
  "MarkLeft i = with_member i (setStatus StatusLeft)"

definition MarkInactive :: "string \<Rightarrow> Membership \<Rightarrow> Membership" where
  "MarkInactive i = MarkSuspect i"

definition stale_body ::
  "string \<Rightarrow> go_time \<Rightarrow> duration \<Rightarrow> string \<Rightarrow> Member \<Rightarrow> Member gomap \<times> string list \<Rightarrow> Member gomap \<times> string list" where
  "stale_body nodeID now threshold i member s =
     (case s of (ms, changed) \<Rightarrow>
        if i = nodeID then s
        else if \<not> threshold < time_sub now (m_LastHeartbeat member) then s
        else (case m_Status member of
            StatusAlive \<Rightarrow>
              (fmupd i ((setStatus StatusSuspect member)\<lparr>m_SuspectCount := m_SuspectCount member + 1\<rparr>) ms,
               changed @ [i])
          | StatusSuspect \<Rightarrow> (fmupd i (setStatus StatusDead member) ms, changed @ [i])
          | _ \<Rightarrow> s))"

definition MarkStale :: "go_time \<Rightarrow> duration \<Rightarrow> Membership \<Rightarrow> string list \<times> Membership" where
  "MarkStale now threshold M =
     (case go_range (stale_body (mb_nodeID M) now threshold) (members M) (members M, []) of
        (ms, changed) \<Rightarrow> (changed, M\<lparr>members := ms\<rparr>))"

definition SetRecovering :: "bool \<Rightarrow> Membership \<Rightarrow> Membership" where
  "SetRecovering r M = M\<lparr>recovering := r\<rparr>"

definition IsRecovering :: "Membership \<Rightarrow> bool" where
  "IsRecovering M = recovering M"

definition GetMembers :: "Membership \<Rightarrow> Member list" where
  "GetMembers M = map snd (sorted_list_of_fmap (members M))"

definition GetMember :: "string \<Rightarrow> Membership \<Rightarrow> Member option" where
  "GetMember i M = fmlookup (members M) i"

definition GetAlivePeers :: "Membership \<Rightarrow> Member list" where
  "GetAlivePeers M =
     filter (\<lambda>member. m_ID member \<noteq> mb_nodeID M \<and> m_Status member = StatusAlive) (GetMembers M)"

definition GetRandomPeers :: "(Member list \<Rightarrow> Member list) \<Rightarrow> nat \<Rightarrow> Membership \<Rightarrow> Member list" where
  "GetRandomPeers shuffle n M =
     (let peers = filter (\<lambda>member. m_ID member \<noteq> mb_nodeID M \<and> m_Status member = StatusAlive) (GetMembers M);
          peers = shuffle peers
      in if n < length peers then take n peers else peers)"

definition GetRandomPeer :: "(Member list \<Rightarrow> Member list) \<Rightarrow> Membership \<Rightarrow> Member option" where
  "GetRandomPeer shuffle M =
     (case GetRandomPeers shuffle 1 M of [] \<Rightarrow> None | p # _ \<Rightarrow> Some p)"

definition GetRandomProbeTarget :: "(Member list \<Rightarrow> Member list) \<Rightarrow> Membership \<Rightarrow> Member option" where
  "GetRandomProbeTarget shuffle M =
     (let candidates = filter (\<lambda>member. m_ID member \<noteq> mb_nodeID M \<and>
            (m_Status member = StatusAlive \<or> m_Status member = StatusSuspect)) (GetMembers M)
      in if candidates = [] then None
         else (case shuffle candidates of [] \<Rightarrow> None | c # _ \<Rightarrow> Some c))"

definition AddDiscoveredNodes :: "go_time \<Rightarrow> string gomap \<Rightarrow> Membership \<Rightarrow> Membership" where
  "AddDiscoveredNodes now nodes M =
     go_range (\<lambda>i addr M. if i = mb_nodeID M then M else AddMember now i addr M) nodes M"

definition gossip_body :: "string \<Rightarrow> string \<Rightarrow> Member \<Rightarrow> MemberStatus gomap \<Rightarrow> MemberStatus gomap" where
  "gossip_body nodeID i member out = (if i = nodeID then out else fmupd i (ToProto (m_Status member)) out)"

definition GossipMembership :: "Membership \<Rightarrow> MemberStatus gomap" where
  "GossipMembership M = go_range (gossip_body (mb_nodeID M)) (members M) fmempty"

text \<open>What \<open>ApplyMembership\<close> does to one known member that a peer reports with a status.\<close>

definition apply_report :: "MemberStatus \<Rightarrow> Member \<Rightarrow> Member" where
  "apply_report status member =
     (case StatusFromProto status of
        StatusDead \<Rightarrow>
          (if m_Status member = StatusAlive
           then (setStatus StatusSuspect member)\<lparr>m_SuspectCount := m_SuspectCount member + 1\<rparr>
           else if 1 \<le> m_SuspectCount member then setStatus StatusDead member else member)
      | StatusSuspect \<Rightarrow>
          (if m_Status member = StatusAlive
           then (setStatus StatusSuspect member)\<lparr>m_SuspectCount := m_SuspectCount member + 1\<rparr>
           else member)
      | StatusLeft \<Rightarrow> setStatus StatusLeft member
      | StatusAlive \<Rightarrow> member)"

definition report_body :: "string \<Rightarrow> string \<Rightarrow> MemberStatus \<Rightarrow> Member gomap \<Rightarrow> Member gomap" where
  "report_body nodeID i status ms =
     (if i = nodeID then ms
      else (case fmlookup ms i of None \<Rightarrow> ms | Some member \<Rightarrow> fmupd i (apply_report status member) ms))"

definition ApplyMembership :: "MemberStatus gomap \<Rightarrow> Membership \<Rightarrow> Membership" where
  "ApplyMembership statuses M =
     M\<lparr>members := go_range (report_body (mb_nodeID M)) statuses (members M)\<rparr>"

section \<open>The order of the statuses\<close>

text \<open>The constants are numbered by \<open>iota\<close>; the failure detectors move a member up this order.\<close>

fun status_code :: "Status \<Rightarrow> nat" where
  "status_code StatusAlive = 0"
| "status_code StatusSuspect = 1"
| "status_code StatusDead = 2"
| "status_code StatusLeft = 3"

instantiation Status :: linorder
begin

definition less_eq_Status :: "Status \<Rightarrow> Status \<Rightarrow> bool" where
  "less_eq_Status a b \<longleftrightarrow> status_code a \<le> status_code b"

definition less_Status :: "Status \<Rightarrow> Status \<Rightarrow> bool" where
  "less_Status a b \<longleftrightarrow> status_code a < status_code b"

instance
proof
  fix a b :: Status
  show "a \<le> b \<Longrightarrow> b \<le> a \<Longrightarrow> a = b"
    unfolding less_eq_Status_def by (cases a; cases b) auto
qed (auto simp: less_eq_Status_def less_Status_def)

end

section \<open>Reachable member tables\<close>

text \<open>One rule per operation that changes the table.\<close>

inductive membership_step :: "Membership \<Rightarrow> Membership \<Rightarrow> bool" where
  add_or_update: "membership_step M (AddOrUpdateMemberStatus i address status hb M)"
| heartbeat: "membership_step M (UpdateHeartbeat now i M)"
| priority: "membership_step M (SetPriority i p M)"
| suspect: "membership_step M (MarkSuspect i M)"
| dead: "membership_step M (MarkDead i M)"
| left: "membership_step M (MarkLeft i M)"
| stale: "membership_step M (snd (MarkStale now threshold M))"
| recover: "membership_step M (SetRecovering r M)"
| discovered: "membership_step M (AddDiscoveredNodes now nodes M)"
| report: "membership_step M (ApplyMembership statuses M)"

inductive membership_reachable :: "string \<Rightarrow> Membership \<Rightarrow> bool" for nodeID where
  start: "membership_reachable nodeID (NewMembership nodeID)"
| step: "membership_reachable nodeID M \<Longrightarrow> membership_step M M' \<Longrightarrow> membership_reachable nodeID M'"

text \<open>
  The invariant: a member is stored under its own id, is active exactly when it is alive, and its
  suspicion counter is not negative.
\<close>

definition member_ok :: "string \<Rightarrow> Member \<Rightarrow> bool" where
  "member_ok i member \<longleftrightarrow>
     m_ID member = i \<and> (m_IsActive member \<longleftrightarrow> m_Status member = StatusAlive) \<and> 0 \<le> m_SuspectCount member"

definition membership_ok :: "Membership \<Rightarrow> bool" where
  "membership_ok M \<longleftrightarrow> fmpred member_ok (members M)"

section \<open>One member at a time\<close>

definition stale_next :: "go_time \<Rightarrow> duration \<Rightarrow> Member \<Rightarrow> Member option" where
  "stale_next now threshold member =
     (if \<not> threshold < time_sub now (m_LastHeartbeat member) then None
      else (case m_Status member of
          StatusAlive \<Rightarrow> Some ((setStatus StatusSuspect member)\<lparr>m_SuspectCount := m_SuspectCount member + 1\<rparr>)
        | StatusSuspect \<Rightarrow> Some (setStatus StatusDead member)
        | _ \<Rightarrow> None))"

definition stale_members_body :: "string \<Rightarrow> go_time \<Rightarrow> duration \<Rightarrow> string \<Rightarrow> Member \<Rightarrow> Member gomap \<Rightarrow> Member gomap" where
  "stale_members_body nodeID now threshold i member ms =
     (if i = nodeID then ms
      else (case stale_next now threshold member of None \<Rightarrow> ms | Some m' \<Rightarrow> fmupd i m' ms))"

definition stale_changed :: "string \<Rightarrow> go_time \<Rightarrow> duration \<Rightarrow> string \<times> Member \<Rightarrow> bool" where
  "stale_changed nodeID now threshold e \<longleftrightarrow> fst e \<noteq> nodeID \<and> stale_next now threshold (snd e) \<noteq> None"

definition stale_upd :: "string \<Rightarrow> go_time \<Rightarrow> duration \<Rightarrow> string \<Rightarrow> Member \<Rightarrow> Member option \<Rightarrow> Member option" where
  "stale_upd nodeID now threshold i member old =
     (if i = nodeID then old
      else (case stale_next now threshold member of None \<Rightarrow> old | Some m' \<Rightarrow> Some m'))"

definition report_upd :: "string \<Rightarrow> string \<Rightarrow> MemberStatus \<Rightarrow> Member option \<Rightarrow> Member option" where
  "report_upd nodeID i status old = (if i = nodeID then old else map_option (apply_report status) old)"

definition gossip_upd :: "string \<Rightarrow> string \<Rightarrow> Member \<Rightarrow> MemberStatus option \<Rightarrow> MemberStatus option" where
  "gossip_upd nodeID i member old = (if i = nodeID then old else Some (ToProto (m_Status member)))"

interpretation stale_loop: keywise_loop "stale_members_body nodeID now threshold" "stale_upd nodeID now threshold"
  for nodeID now threshold
  by unfold_locales (simp add: stale_members_body_def stale_upd_def split: option.split)

interpretation report_loop: keywise_loop "report_body nodeID" "report_upd nodeID" for nodeID
  by unfold_locales (simp add: report_body_def report_upd_def split: option.split)

interpretation gossip_loop: keywise_loop "gossip_body nodeID" "gossip_upd nodeID" for nodeID
  by unfold_locales (simp add: gossip_body_def gossip_upd_def)

lemma stale_body_next:
  "stale_body nodeID now threshold i member (ms, ch) =
     (stale_members_body nodeID now threshold i member ms,
      if stale_changed nodeID now threshold (i, member) then ch @ [i] else ch)"
  by (simp add: stale_body_def stale_members_body_def stale_next_def stale_changed_def split: Status.split)

lemma fold_stale_body:
  "fold (\<lambda>(i, member). stale_body nodeID now threshold i member) xs (ms, ch) =
     (fold (\<lambda>(i, member). stale_members_body nodeID now threshold i member) xs ms,
      ch @ map fst (filter (stale_changed nodeID now threshold) xs))"
  by (induction xs arbitrary: ms ch) (auto simp: stale_body_next)

lemma MarkStale_eq:
  "MarkStale now threshold M =
     (map fst (filter (stale_changed (mb_nodeID M) now threshold) (sorted_list_of_fmap (members M))),
      M\<lparr>members := go_range (stale_members_body (mb_nodeID M) now threshold) (members M) (members M)\<rparr>)"
  by (simp add: MarkStale_def go_range_def fold_stale_body)

lemma lookup_with_member [simp]:
  "fmlookup (members (with_member i f M)) j =
     (if j = i then map_option f (fmlookup (members M) i) else fmlookup (members M) j)"
  by (simp add: with_member_def split: option.split)

lemma lookup_MarkStale [simp]:
  "fmlookup (members (snd (MarkStale now threshold M))) j =
     map_option (\<lambda>m. if j = mb_nodeID M then m
       else (case stale_next now threshold m of None \<Rightarrow> m | Some m' \<Rightarrow> m')) (fmlookup (members M) j)"
  by (auto simp: MarkStale_eq stale_loop.range_lookup stale_upd_def split: option.split)

lemma lookup_ApplyMembership [simp]:
  "fmlookup (members (ApplyMembership statuses M)) j =
     (case fmlookup statuses j of None \<Rightarrow> fmlookup (members M) j
      | Some s \<Rightarrow> if j = mb_nodeID M then fmlookup (members M) j
                  else map_option (apply_report s) (fmlookup (members M) j))"
  by (simp add: ApplyMembership_def report_loop.range_lookup report_upd_def split: option.split)

lemma lookup_GossipMembership [simp]:
  "fmlookup (GossipMembership M) j =
     (if j = mb_nodeID M then None else map_option (\<lambda>m. ToProto (m_Status m)) (fmlookup (members M) j))"
  by (simp add: GossipMembership_def gossip_loop.range_lookup gossip_upd_def split: option.split)

lemmas member_defs = setStatus_def UpdateHeartbeat_def SetPriority_def MarkSuspect_def MarkDead_def
  MarkLeft_def MarkInactive_def

lemma set_GetMembers: "set (GetMembers M) = {m. \<exists>i. fmlookup (members M) i = Some m}"
  by (auto simp: GetMembers_def image_iff Bex_def set_sorted_list_of_fmap)

lemma membership_okI: "(\<And>i m. fmlookup (members M) i = Some m \<Longrightarrow> member_ok i m) \<Longrightarrow> membership_ok M"
  by (auto simp: membership_ok_def)

lemma membership_okD: "membership_ok M \<Longrightarrow> fmlookup (members M) i = Some m \<Longrightarrow> member_ok i m"
  by (auto simp: membership_ok_def)

lemma with_member_ok:
  "membership_ok M \<Longrightarrow> (\<And>m. member_ok i m \<Longrightarrow> member_ok i (f m)) \<Longrightarrow> membership_ok (with_member i f M)"
  by (rule membership_okI) (auto dest: membership_okD split: if_splits)

lemma AddOrUpdateMemberStatus_ok: "membership_ok M \<Longrightarrow> membership_ok (AddOrUpdateMemberStatus i a s hb M)"
  by (rule membership_okI)
    (auto simp: AddOrUpdateMemberStatus_def Let_def setStatus_def member_ok_def
      dest: membership_okD split: option.splits if_splits)

lemma AddOrUpdateMemberStatus_nodeID [simp]: "mb_nodeID (AddOrUpdateMemberStatus i a s hb M) = mb_nodeID M"
  by (simp add: AddOrUpdateMemberStatus_def Let_def split: option.split)

lemma AddDiscoveredNodes_ok:
  assumes "membership_ok M"
  shows "membership_ok (AddDiscoveredNodes now nodes M)"
proof -
  have "membership_ok (fold (\<lambda>(i, addr) M. if i = mb_nodeID M then M else AddMember now i addr M) xs M)" for xs
    using assms
    by (induction xs arbitrary: M)
      (auto simp: AddMember_def AddOrUpdateMember_def Let_def AddOrUpdateMemberStatus_ok)
  then show ?thesis by (simp add: AddDiscoveredNodes_def go_range_def)
qed

lemma stale_next_ok: "member_ok i m \<Longrightarrow> stale_next now threshold m = Some m' \<Longrightarrow> member_ok i m'"
  by (auto simp: stale_next_def member_ok_def setStatus_def split: Status.splits if_splits)

lemma apply_report_ok: "member_ok i m \<Longrightarrow> member_ok i (apply_report s m)"
  by (auto simp: apply_report_def member_ok_def setStatus_def split: Status.splits)

lemma membership_step_ok: "membership_step M M' \<Longrightarrow> membership_ok M \<Longrightarrow> membership_ok M'"
proof (induction rule: membership_step.induct)
  case (stale M now threshold)
  show ?case
  proof (rule membership_okI)
    fix i m'
    assume "fmlookup (members (snd (MarkStale now threshold M))) i = Some m'"
    then obtain m where "fmlookup (members M) i = Some m"
      and "m' = m \<or> stale_next now threshold m = Some m'"
      by (auto split: option.splits if_splits)
    with stale show "member_ok i m'" by (auto dest: membership_okD intro: stale_next_ok)
  qed
next
  case (report M statuses)
  then show ?case
    by (intro membership_okI) (auto dest: membership_okD intro: apply_report_ok split: option.splits if_splits)
next
  case (recover M r)
  then show ?case by (simp add: SetRecovering_def membership_ok_def)
qed (auto simp: AddOrUpdateMemberStatus_ok AddDiscoveredNodes_ok member_defs member_ok_def intro!: with_member_ok)

lemma membership_reachable_ok: "membership_reachable nodeID M \<Longrightarrow> membership_ok M"
proof (induction rule: membership_reachable.induct)
  case start
  show ?case by (simp add: NewMembership_def membership_ok_def)
qed (rule membership_step_ok)

lemma GetMembers_distinct: "membership_ok M \<Longrightarrow> distinct (map m_ID (GetMembers M))"
proof -
  assume ok: "membership_ok M"
  have "m_ID (snd e) = fst e" if "e \<in> set (sorted_list_of_fmap (members M))" for e
    using that membership_okD [OF ok, of "fst e" "snd e"] by (simp add: set_sorted_list_of_fmap [symmetric] member_ok_def)
  then have "map m_ID (GetMembers M) = map fst (sorted_list_of_fmap (members M))"
    unfolding GetMembers_def map_map by (intro map_cong) auto
  then show ?thesis by (simp only: distinct_keys_sorted_list_of_fmap)
qed

lemma GetMembers_lookup: "membership_ok M \<Longrightarrow> m \<in> set (GetMembers M) \<longleftrightarrow> fmlookup (members M) (m_ID m) = Some m"
  by (auto simp: set_GetMembers member_ok_def dest: membership_okD)

text \<open>The failure detectors: every operation but the two that announce a member as alive.\<close>

inductive membership_detect :: "Membership \<Rightarrow> Membership \<Rightarrow> bool" where
  suspect: "membership_detect M (MarkSuspect i M)"
| dead: "membership_detect M (MarkDead i M)"
| left: "membership_detect M (MarkLeft i M)"
| priority: "membership_detect M (SetPriority i p M)"
| stale: "membership_detect M (snd (MarkStale now threshold M))"
| report: "membership_detect M (ApplyMembership statuses M)"

lemma status_order [simp]:
  "StatusDead \<le> s \<longleftrightarrow> s = StatusDead \<or> s = StatusLeft"
  "s \<le> StatusSuspect \<longleftrightarrow> s = StatusAlive \<or> s = StatusSuspect"
  by (cases s; simp add: less_eq_Status_def)+

lemma Status_remaining: "s \<noteq> StatusAlive \<and> s \<noteq> StatusSuspect \<Longrightarrow> s \<noteq> StatusLeft \<Longrightarrow> s = StatusDead"
  by (cases s) auto

lemma detect_stays_down:
  assumes "membership_detect M M'" and "fmlookup (members M) i = Some m" and "StatusDead \<le> m_Status m"
  shows "\<exists>m'. fmlookup (members M') i = Some m' \<and> StatusDead \<le> m_Status m'"
  using assms
proof (induction rule: membership_detect.induct)
  case (stale M now threshold)
  then show ?case by (auto simp: stale_next_def status_order split: Status.splits option.splits)
next
  case (report M statuses)
  then show ?case
    by (auto simp: apply_report_def setStatus_def status_order split: Status.splits option.splits)
qed (auto simp: member_defs status_order)

lemma detect_ok: "membership_detect M M' \<Longrightarrow> membership_ok M \<Longrightarrow> membership_ok M'"
  by (induction rule: membership_detect.induct) (rule membership_step_ok, rule membership_step.intros, assumption)+

lemma MarkStale_sorted: "sorted (fst (MarkStale now threshold M)) \<and> distinct (fst (MarkStale now threshold M))"
proof -
  let ?xs = "sorted_list_of_fmap (members M)"
  have "sorted (map fst ?xs)" by (simp add: sorted_list_of_fset.rep_eq)
  moreover have "distinct (map fst ?xs)" by (rule distinct_keys_sorted_list_of_fmap)
  ultimately show ?thesis
    by (simp add: MarkStale_eq sorted_filter distinct_map_filter del: keys_sorted_list_of_fmap)
qed

text \<open>\<open>rand.Shuffle\<close> permutes its argument; nothing else is known of it.\<close>

lemma GetRandomProbeTarget_cases:
  fixes M
  defines "candidates \<equiv> filter (\<lambda>member. m_ID member \<noteq> mb_nodeID M \<and>
    (m_Status member = StatusAlive \<or> m_Status member = StatusSuspect)) (GetMembers M)"
  assumes "\<And>xs. mset (shuffle xs) = mset xs"
  shows "case GetRandomProbeTarget shuffle M of Some m \<Rightarrow> m \<in> set candidates | None \<Rightarrow> candidates = []"
  using mset_eq_setD [OF assms(2), of candidates]
  unfolding GetRandomProbeTarget_def Let_def assms(1) [symmetric]
  by (cases "shuffle candidates") auto

lemma probe_target:
  assumes "\<And>xs. mset (shuffle xs) = mset xs" and "GetRandomProbeTarget shuffle M = Some m"
  shows "m \<in> set (GetMembers M) \<and> m_ID m \<noteq> mb_nodeID M \<and> m_Status m \<le> StatusSuspect"
  using GetRandomProbeTarget_cases [OF assms(1), where M = M] assms(2) by auto

lemma no_probe_target:
  assumes "\<And>xs. mset (shuffle xs) = mset xs" and "GetRandomProbeTarget shuffle M = None"
  shows "\<forall>m \<in> set (GetMembers M). m_ID m = mb_nodeID M \<or> StatusDead \<le> m_Status m"
  using GetRandomProbeTarget_cases [OF assms(1), where M = M] assms(2)
  by (auto simp: filter_empty_conv intro: Status_remaining)

section \<open>Properties\<close>

text \<open>C19: in every member table that the operations can build, each member is stored under its own
  id, is active exactly when its status is Alive, and has a non-negative suspicion count.\<close>

theorem membership_invariant:
  assumes "membership_reachable nodeID M" and "fmlookup (members M) i = Some m"
  shows "m_ID m = i \<and> (m_IsActive m \<longleftrightarrow> m_Status m = StatusAlive) \<and> 0 \<le> m_SuspectCount m"
  using membership_okD [OF membership_reachable_ok [OF assms(1)] assms(2)] by (simp add: member_ok_def)

theorem membership_invariant_witness:
  "m_ID (the (fmlookup (members (MarkSuspect ''b'' (AddMember 5 ''b'' ''addr'' (NewMembership ''a'')))) ''b'')) = ''b''"
proof -
  let ?M1 = "AddMember 5 ''b'' ''addr'' (NewMembership ''a'')"
  let ?M2 = "MarkSuspect ''b'' ?M1"
  have 1: "membership_reachable ''a'' ?M1"
    unfolding AddMember_def AddOrUpdateMember_def Let_def
    by (rule membership_reachable.step [OF membership_reachable.start]) (rule membership_step.add_or_update)
  have 2: "membership_reachable ''a'' ?M2"
    by (rule membership_reachable.step [OF 1]) (rule membership_step.suspect)
  obtain m where m: "fmlookup (members ?M2) ''b'' = Some m"
    by (simp add: MarkSuspect_def AddMember_def AddOrUpdateMember_def AddOrUpdateMemberStatus_def NewMembership_def)
  from membership_invariant [OF 2 m] m show ?thesis by simp
qed

text \<open>Dead and Left are terminal for the failure detectors: suspecting, ageing, a gossip report,
  an explicit death or departure, or a new priority never bring a Dead or Left member back to Alive
  or Suspect; only a message that announces the member as alive does.\<close>

theorem detectors_never_revive:
  assumes "membership_detect M M'" and "fmlookup (members M) i = Some m" and "StatusDead \<le> m_Status m"
  shows "\<exists>m'. fmlookup (members M') i = Some m' \<and> StatusDead \<le> m_Status m'"
  using assms by (rule detect_stays_down)

theorem detectors_never_revive_witness:
  "\<exists>m'. fmlookup (members (ApplyMembership (fmap_of_list [(''b'', MEMBER_SUSPECT)])
        (MarkDead ''b'' (AddMember 5 ''b'' ''addr'' (NewMembership ''a''))))) ''b'' = Some m' \<and>
      StatusDead \<le> m_Status m'"
  by (rule detectors_never_revive [OF membership_detect.report, where m = "\<lparr>m_ID = ''b'', m_Address = ''addr'', m_Status = StatusDead,
        m_IsActive = False, m_CounterValue = 0, m_LastHeartbeat = 5, m_SuspectCount = 0, m_Priority = 0\<rparr>"])
    (simp_all add: MarkDead_def AddMember_def AddOrUpdateMember_def AddOrUpdateMemberStatus_def
      NewMembership_def setStatus_def status_order)

text \<open>\<open>MarkStale\<close> is exact: a member other than the local one whose last heartbeat is older than
  the threshold goes one step along Alive, Suspect, Dead; every other member, the local one included,
  keeps its record; and the returned list names exactly the members whose status changed, each once.\<close>

theorem MarkStale_spec:
  assumes "fmlookup (members M) i = Some m"
  shows "fmlookup (members (snd (MarkStale now threshold M))) i =
      Some (if i \<noteq> mb_nodeID M \<and> threshold < time_sub now (m_LastHeartbeat m)
            then (case m_Status m of
                    StatusAlive \<Rightarrow> m\<lparr>m_Status := StatusSuspect, m_IsActive := False, m_SuspectCount := m_SuspectCount m + 1\<rparr>
                  | StatusSuspect \<Rightarrow> m\<lparr>m_Status := StatusDead, m_IsActive := False\<rparr>
                  | _ \<Rightarrow> m)
            else m) \<and>
    (i \<in> set (fst (MarkStale now threshold M)) \<longleftrightarrow>
       m_Status (the (fmlookup (members (snd (MarkStale now threshold M))) i)) \<noteq> m_Status m) \<and>
    sorted (fst (MarkStale now threshold M)) \<and> distinct (fst (MarkStale now threshold M))"
proof -
  have "i \<in> set (fst (MarkStale now threshold M)) \<longleftrightarrow> stale_changed (mb_nodeID M) now threshold (i, m)"
    using assms by (force simp: MarkStale_eq set_sorted_list_of_fmap)
  with assms MarkStale_sorted [of now threshold M] show ?thesis
    by (auto simp: stale_changed_def stale_next_def setStatus_def split: Status.splits)
qed

theorem MarkStale_spec_witness:
  "fst (MarkStale 100 10 (AddMember 5 ''b'' ''addr'' (NewMembership ''a''))) = [''b''] \<and>
   fmlookup (members (snd (MarkStale 100 10 (AddMember 5 ''b'' ''addr'' (NewMembership ''a''))))) ''b'' =
     Some \<lparr>m_ID = ''b'', m_Address = ''addr'', m_Status = StatusSuspect, m_IsActive = False,
       m_CounterValue = 0, m_LastHeartbeat = 5, m_SuspectCount = 1, m_Priority = 0\<rparr>"
proof -
  let ?M = "AddMember 5 ''b'' ''addr'' (NewMembership ''a'')"
  have "fmlookup (members ?M) ''b'' = Some \<lparr>m_ID = ''b'', m_Address = ''addr'', m_Status = StatusAlive,
      m_IsActive = True, m_CounterValue = 0, m_LastHeartbeat = 5, m_SuspectCount = 0, m_Priority = 0\<rparr>"
    by (simp add: AddMember_def AddOrUpdateMember_def AddOrUpdateMemberStatus_def NewMembership_def setStatus_def)
  moreover have "mb_nodeID ?M = ''a''"
    by (simp add: AddMember_def AddOrUpdateMember_def NewMembership_def Let_def)
  moreover have "fst (MarkStale 100 10 ?M) = [''b'']" by code_simp
  ultimately show ?thesis
    using MarkStale_spec [of ?M "''b''" _ 100 10] by (simp add: time_sub_def)
qed

text \<open>C32: \<open>ApplyMembership\<close> treats every reported member on its own, whatever order Go iterates in: the
  local member and unreported or unknown members are unchanged, a first Dead report about an Alive
  member only raises suspicion, a Dead report about a member already suspected once kills it, and any
  number of Suspect reports leaves it Suspect.\<close>

theorem ApplyMembership_spec:
  assumes "distinct (map fst reports)" and "fmap_of_list reports = statuses"
  shows "members (ApplyMembership statuses M) =
      fold (\<lambda>(i, status). report_body (mb_nodeID M) i status) reports (members M) \<and>
    fmdom (members (ApplyMembership statuses M)) = fmdom (members M) \<and>
    (i = mb_nodeID M \<or> fmlookup statuses i = None \<longrightarrow>
       fmlookup (members (ApplyMembership statuses M)) i = fmlookup (members M) i) \<and>
    (i \<noteq> mb_nodeID M \<and> fmlookup (members M) i = Some m \<and> fmlookup statuses i = Some MEMBER_DEAD \<longrightarrow>
       (\<exists>m'. fmlookup (members (ApplyMembership statuses M)) i = Some m' \<and>
          (m_Status m = StatusAlive \<longrightarrow> m_Status m' = StatusSuspect \<and> m_SuspectCount m' = m_SuspectCount m + 1) \<and>
          (m_Status m = StatusSuspect \<and> 1 \<le> m_SuspectCount m \<longrightarrow> m_Status m' = StatusDead))) \<and>
    (i \<noteq> mb_nodeID M \<and> fmlookup (members M) i = Some m \<and> fmlookup statuses i = Some MEMBER_SUSPECT \<longrightarrow>
       (\<exists>m'. fmlookup (members (ApplyMembership statuses M)) i = Some m' \<and>
          m_Status m' = max (m_Status m) StatusSuspect))"
proof (intro conjI impI)
  show "members (ApplyMembership statuses M) =
      fold (\<lambda>(i, status). report_body (mb_nodeID M) i status) reports (members M)"
    using report_loop.any_order [OF assms] by (simp add: ApplyMembership_def)
  show "fmdom (members (ApplyMembership statuses M)) = fmdom (members M)"
    by (rule fset_eqI) (auto simp: fmlookup_dom_iff split: option.splits)
  show "fmlookup (members (ApplyMembership statuses M)) i = fmlookup (members M) i"
    if "i = mb_nodeID M \<or> fmlookup statuses i = None"
    using that by (auto split: option.split)
qed (auto simp: apply_report_def setStatus_def max_def status_order split: Status.splits)

theorem ApplyMembership_spec_witness:
  "fmdom (members (ApplyMembership (fmap_of_list [(''b'', MEMBER_DEAD)])
      (AddMember 5 ''b'' ''addr'' (NewMembership ''a'')))) = {|''b''|}"
proof -
  let ?M = "AddMember 5 ''b'' ''addr'' (NewMembership ''a'')"
  have "distinct (map fst [(''b'', MEMBER_DEAD)])" by simp
  from ApplyMembership_spec [OF this refl] have
    "fmdom (members (ApplyMembership (fmap_of_list [(''b'', MEMBER_DEAD)]) ?M)) = fmdom (members ?M)"
    by blast
  then show ?thesis
    by (simp add: AddMember_def AddOrUpdateMember_def AddOrUpdateMemberStatus_def NewMembership_def)
qed

text \<open>Gossip and probe targets: whatever permutation \<open>rand.Shuffle\<close> applies, \<open>GetRandomPeers\<close> returns
  at most \<open>n\<close> members of the table, all Alive and none the local node, and exactly \<open>n\<close> of them
  when enough are Alive; \<open>GetRandomProbeTarget\<close> picks an Alive or Suspect member other than the local
  node and fails only when there is none.\<close>

theorem random_targets:
  assumes "\<And>xs. mset (shuffle xs) = mset xs"
  shows "set (GetRandomPeers shuffle n M) \<subseteq>
      {m \<in> set (GetMembers M). m_ID m \<noteq> mb_nodeID M \<and> m_Status m = StatusAlive} \<and>
    length (GetRandomPeers shuffle n M) = min n (length (GetAlivePeers M)) \<and>
    (case GetRandomProbeTarget shuffle M of
       Some m \<Rightarrow> m \<in> set (GetMembers M) \<and> m_ID m \<noteq> mb_nodeID M \<and> m_Status m \<le> StatusSuspect
     | None \<Rightarrow> \<forall>m \<in> set (GetMembers M). m_ID m = mb_nodeID M \<or> StatusDead \<le> m_Status m)"
proof -
  have set_shuffle: "set (shuffle xs) = set xs" and len: "length (shuffle xs) = length xs" for xs
    using mset_eq_setD [OF assms] mset_eq_length [OF assms] by auto
  have peers: "set (GetRandomPeers shuffle n M) \<subseteq> set (GetAlivePeers M)"
    by (auto simp: GetRandomPeers_def GetAlivePeers_def Let_def set_shuffle split: if_splits dest!: in_set_takeD)
  have number: "length (GetRandomPeers shuffle n M) = min n (length (GetAlivePeers M))"
    by (simp add: GetRandomPeers_def GetAlivePeers_def Let_def len)
  have "set (GetAlivePeers M) = {m \<in> set (GetMembers M). m_ID m \<noteq> mb_nodeID M \<and> m_Status m = StatusAlive}"
    by (auto simp: GetAlivePeers_def)
  with peers number probe_target [OF assms] no_probe_target [OF assms] show ?thesis
    by (auto split: option.splits intro: Status_remaining)
qed

theorem random_targets_witness:
  "length (GetRandomPeers rev 3 (AddMember 5 ''b'' ''addr'' (NewMembership ''a''))) =
     min 3 (length (GetAlivePeers (AddMember 5 ''b'' ''addr'' (NewMembership ''a''))))"
  using random_targets [of rev 3] by simp

end
