(* ===== verification/Election.thy ===== *)
theory Election
  imports Membership "HOL-Library.Product_Lexorder"
begin

text \<open>
  \<open>internal/election/bully.go\<close>: leader election with the Bully algorithm.

  The network is an argument: \<open>reply i\<close> is the \<open>Ok\<close> field of the answer to the \<open>i\<close>-th probe of a peer, or
  \<open>None\<close> when the connection or the RPC fails; \<open>ctx_done i\<close> says whether the context is cancelled after it.
  An operation that broadcasts returns the announcements it sends. An election releases the lock
  while it probes, so other handlers may run in between: the argument \<open>others\<close> is what they do
  to the state. Logs and spans are left out.
\<close>

section \<open>State\<close>

record Bully =
  b_nodeID :: string
  b_priority :: int64
  b_apiKey :: string
  b_compression :: bool
  b_interval :: duration
  b_timeout :: duration
  b_dialTimeout :: duration
  b_maxProbes :: nat
  b_leaderID :: string
  b_leaderPriority :: int64
  b_leaderTerm :: int64
  b_lastLeaderSeen :: go_time
  b_electionRunning :: bool

record BullyConfig =
  bc_NodeID :: string
  bc_Priority :: int64
  bc_APIKey :: string
  bc_Compression :: bool
  bc_Interval :: duration
  bc_LeaderTimeout :: duration

definition New :: "BullyConfig \<Rightarrow> Bully" where
  "New cfg =
     (let cfg = (if bc_Interval cfg \<le> 0 then cfg\<lparr>bc_Interval := 2 * second\<rparr> else cfg);
          cfg = (if bc_LeaderTimeout cfg \<le> 0 then cfg\<lparr>bc_LeaderTimeout := 10 * second\<rparr> else cfg)
      in \<lparr>b_nodeID = bc_NodeID cfg, b_priority = bc_Priority cfg, b_apiKey = bc_APIKey cfg,
          b_compression = bc_Compression cfg, b_interval = bc_Interval cfg, b_timeout = bc_LeaderTimeout cfg,
          b_dialTimeout = 2 * second, b_maxProbes = 3, b_leaderID = [], b_leaderPriority = 0,
          b_leaderTerm = 0, b_lastLeaderSeen = 0, b_electionRunning = False\<rparr>)"

definition LeaderID :: "Bully \<Rightarrow> string" where
  "LeaderID b = b_leaderID b"

definition IsLeader :: "Bully \<Rightarrow> bool" where
  "IsLeader b \<longleftrightarrow> b_leaderID b = b_nodeID b"

definition LeaderTerm :: "Bully \<Rightarrow> int64" where
  "LeaderTerm b = b_leaderTerm b"

section \<open>Announcements\<close>

definition sendCoordinator :: "int64 \<Rightarrow> Bully \<Rightarrow> Member \<Rightarrow> string \<times> CoordinatorRequest" where
  "sendCoordinator term b peer =
     (m_Address peer, \<lparr>co_NodeId = b_nodeID b, co_Priority = b_priority b, co_Term = term\<rparr>)"

definition announceLeader :: "Membership \<Rightarrow> Bully \<Rightarrow> (string \<times> CoordinatorRequest) list" where
  "announceLeader M b =
     (let term = b_leaderTerm b
      in map (sendCoordinator term b) (filter (\<lambda>m. m_ID m \<noteq> b_nodeID b) (GetAlivePeers M)))"

definition BecomeLeader :: "go_time \<Rightarrow> Membership \<Rightarrow> Bully \<Rightarrow> Bully \<times> (string \<times> CoordinatorRequest) list" where
  "BecomeLeader now M b =
     (let b = b\<lparr>b_leaderID := b_nodeID b, b_leaderPriority := b_priority b, b_leaderTerm := b_leaderTerm b + 1,
              b_lastLeaderSeen := now\<rparr>;
          term = b_leaderTerm b
      in (b, map (sendCoordinator term b) (filter (\<lambda>m. m_ID m \<noteq> b_nodeID b) (GetAlivePeers M))))"

section \<open>Elections\<close>

definition higherPriorityLivePeers :: "Membership \<Rightarrow> Bully \<Rightarrow> Member list" where
  "higherPriorityLivePeers M b =
     filter (\<lambda>m. m_ID m \<noteq> b_nodeID b \<and> sint (b_priority b) < sint (m_Priority m)) (GetAlivePeers M)"

fun sendElection_from :: "(nat \<Rightarrow> bool option) \<Rightarrow> (nat \<Rightarrow> bool) \<Rightarrow> nat \<Rightarrow> nat \<Rightarrow> bool" where
  "sendElection_from reply ctx_done attempt 0 = False"
| "sendElection_from reply ctx_done attempt (Suc left) =
     (case reply attempt of
        Some ok \<Rightarrow> ok
      | None \<Rightarrow> if ctx_done attempt then False else sendElection_from reply ctx_done (attempt + 1) left)"

definition sendElection :: "(string \<Rightarrow> nat \<Rightarrow> bool option) \<Rightarrow> (nat \<Rightarrow> bool) \<Rightarrow> Bully \<Rightarrow> Member \<Rightarrow> bool" where
  "sendElection reply ctx_done b peer = sendElection_from (reply (m_Address peer)) ctx_done 0 (b_maxProbes b)"

text \<open>
  The wait of an election that was acknowledged, for an announcement that a handler records in the
  meantime; it changes no state itself: iteration \<open>i\<close> happens at time \<open>clk i\<close>, sees the context's state \<open>cancelled i\<close>
  and the leader \<open>seen i\<close>. The result is \<open>None\<close> when the fuel runs out.
\<close>

datatype wait_result = Cancelled | Announced | Deadline_passed

fun await_leader ::
  "go_time \<Rightarrow> (nat \<Rightarrow> go_time) \<Rightarrow> (nat \<Rightarrow> bool) \<Rightarrow> (nat \<Rightarrow> string) \<Rightarrow> nat \<Rightarrow> nat \<Rightarrow> wait_result option" where
  "await_leader deadline clk cancelled seen i 0 = None"
| "await_leader deadline clk cancelled seen i (Suc fuel) =
     (if \<not> clk i < deadline then Some Deadline_passed
      else if cancelled i then Some Cancelled
      else if seen i \<noteq> [] then Some Announced
      else await_leader deadline clk cancelled seen (i + 1) fuel)"

definition StartElection ::
  "(string \<Rightarrow> nat \<Rightarrow> bool option) \<Rightarrow> (nat \<Rightarrow> bool) \<Rightarrow> go_time \<Rightarrow> Membership \<Rightarrow> (Bully \<Rightarrow> Bully) \<Rightarrow> Bully
   \<Rightarrow> Bully \<times> (string \<times> CoordinatorRequest) list" where
  "StartElection reply ctx_done now M others b =
     (if b_electionRunning b then (b, [])
      else
        (let b = b\<lparr>b_electionRunning := True\<rparr>;
             higher = higherPriorityLivePeers M b;
             ack = fold (\<lambda>peer ack. if sendElection reply ctx_done b peer then True else ack) higher False;
             b = others b
         in if \<not> ack
            then (case BecomeLeader now M b of (b, sent) \<Rightarrow> (b\<lparr>b_electionRunning := False\<rparr>, sent))
            else (b\<lparr>b_electionRunning := False\<rparr>, [])))"

text \<open>One tick of \<open>Run\<close>.\<close>

definition Run_tick ::
  "(string \<Rightarrow> nat \<Rightarrow> bool option) \<Rightarrow> (nat \<Rightarrow> bool) \<Rightarrow> go_time \<Rightarrow> Membership \<Rightarrow> (Bully \<Rightarrow> Bully) \<Rightarrow> Bully
   \<Rightarrow> Bully \<times> (string \<times> CoordinatorRequest) list" where
  "Run_tick reply ctx_done now M others b =
     (let isLeader = (b_leaderID b = b_nodeID b);
          leaderKnown = (b_leaderID b \<noteq> []);
          leaderStale = (leaderKnown \<and> b_timeout b < time_sub now (b_lastLeaderSeen b))
      in if isLeader then (b, announceLeader M b)
         else if \<not> leaderKnown \<or> leaderStale then StartElection reply ctx_done now M others b
         else (b, []))"

section \<open>Handlers\<close>

text \<open>\<open>HandleElection\<close> answers, and the boolean says whether it starts an election of its own.\<close>

definition HandleElection :: "ElectionRequest \<Rightarrow> Bully \<Rightarrow> ElectionResponse \<times> bool" where
  "HandleElection req b =
     (\<lparr>es_NodeId = b_nodeID b, es_Ok = True, es_Priority = b_priority b\<rparr>,
      sint (er_Priority req) < sint (b_priority b))"

definition leader_fresh :: "go_time \<Rightarrow> Bully \<Rightarrow> bool" where
  "leader_fresh now b \<longleftrightarrow> b_leaderID b \<noteq> [] \<and> time_sub now (b_lastLeaderSeen b) \<le> b_timeout b"

definition HandleCoordinator :: "go_time \<Rightarrow> CoordinatorRequest \<Rightarrow> Bully \<Rightarrow> CoordinatorResponse \<times> Bully" where
  "HandleCoordinator now req b =
     (let fresh = leader_fresh now b;
          accept = (sint (b_leaderPriority b) < sint (co_Priority req) \<or>
            (co_Priority req = b_leaderPriority b \<and> sint (b_leaderTerm b) \<le> sint (co_Term req)) \<or>
            (\<not> fresh \<and> sint (b_leaderTerm b) < sint (co_Term req)))
      in (\<lparr>cs_Success = True\<rparr>,
          if accept
          then b\<lparr>b_leaderID := co_NodeId req, b_leaderPriority := co_Priority req, b_leaderTerm := co_Term req,
                 b_lastLeaderSeen := now\<rparr>
          else b))"

section \<open>The order of announcements\<close>

text \<open>Leaders are compared by priority, and among equals by term.\<close>

definition leader_rank :: "Bully \<Rightarrow> int \<times> int" where
  "leader_rank b = (sint (b_leaderPriority b), sint (b_leaderTerm b))"

definition req_rank :: "CoordinatorRequest \<Rightarrow> int \<times> int" where
  "req_rank req = (sint (co_Priority req), sint (co_Term req))"

definition handle_all :: "(go_time \<times> CoordinatorRequest) list \<Rightarrow> Bully \<Rightarrow> Bully" where
  "handle_all reqs = fold (\<lambda>(now, req) b. snd (HandleCoordinator now req b)) reqs"

text \<open>The announcements arrive in the order of time, none of them after the leader has gone stale.\<close>

fun in_time :: "duration \<Rightarrow> go_time \<Rightarrow> (go_time \<times> CoordinatorRequest) list \<Rightarrow> bool" where
  "in_time timeout seen [] = True"
| "in_time timeout seen ((now, req) # reqs) \<longleftrightarrow>
     seen \<le> now \<and> now - seen \<le> timeout \<and> co_NodeId req \<noteq> [] \<and> in_time timeout seen reqs"

text \<open>The leader a node has accepted has the identity of the announcement with this rank.\<close>

definition names_agree :: "(int \<times> int \<Rightarrow> string) \<Rightarrow> (go_time \<times> CoordinatorRequest) list \<Rightarrow> bool" where
  "names_agree name reqs \<longleftrightarrow> list_all (\<lambda>(now, req). co_NodeId req = name (req_rank req)) reqs"

lemma HandleCoordinator_fresh:
  assumes "leader_fresh now b"
  shows "snd (HandleCoordinator now req b) =
    (if leader_rank b \<le> req_rank req
     then b\<lparr>b_leaderID := co_NodeId req, b_leaderPriority := co_Priority req, b_leaderTerm := co_Term req, b_lastLeaderSeen := now\<rparr>
     else b)"
  using assms
  by (auto simp: HandleCoordinator_def Let_def leader_rank_def req_rank_def less_eq_prod_def)

lemma time_sub_le: "0 \<le> d \<Longrightarrow> t - u \<le> d \<Longrightarrow> time_sub t u \<le> d"
  by (simp add: time_sub_def)

lemma in_time_later: "in_time d seen reqs \<Longrightarrow> list_all (\<lambda>(t, req). now \<le> t) reqs \<Longrightarrow> seen \<le> now \<Longrightarrow> in_time d now reqs"
  by (induction reqs) auto

lemma handle_all_rank:
  assumes "b_leaderID b \<noteq> []" and "0 \<le> b_timeout b" and "sorted (map fst reqs)"
    and "in_time (b_timeout b) (b_lastLeaderSeen b) reqs"
  shows "leader_rank (handle_all reqs b) = fold max (map (req_rank \<circ> snd) reqs) (leader_rank b) \<and>
    (b_leaderID b = name (leader_rank b) \<and> names_agree name reqs \<longrightarrow>
       b_leaderID (handle_all reqs b) = name (leader_rank (handle_all reqs b)))"
  using assms
proof (induction reqs arbitrary: b)
  case Nil
  then show ?case by (simp add: handle_all_def)
next
  case (Cons x reqs)
  obtain now req where x: "x = (now, req)" by (cases x)
  let ?b = "snd (HandleCoordinator now req b)"
  from Cons.prems x have fresh: "leader_fresh now b"
    by (simp add: leader_fresh_def time_sub_le)
  note step = HandleCoordinator_fresh [OF fresh, of req]
  from Cons.prems x have later: "list_all (\<lambda>(t, req). now \<le> t) reqs" by (force simp: list_all_iff)
  have "in_time (b_timeout ?b) (b_lastLeaderSeen ?b) reqs" and "b_leaderID ?b \<noteq> []" and "b_timeout ?b = b_timeout b"
    using Cons.prems x later by (auto simp: step intro: in_time_later)
  moreover have "leader_rank ?b = max (req_rank req) (leader_rank b)"
    by (auto simp: step max_def leader_rank_def req_rank_def)
  moreover have "b_leaderID b = name (leader_rank b) \<and> co_NodeId req = name (req_rank req) \<longrightarrow>
      b_leaderID ?b = name (leader_rank ?b)"
    by (auto simp: step leader_rank_def req_rank_def)
  ultimately show ?case
    using Cons.IH [of ?b] Cons.prems x by (auto simp: handle_all_def names_agree_def)
qed

lemma fold_max_Max: "fold max xs (a :: 'a :: linorder) = Max (insert a (set xs))"
  by (simp add: Max.set_eq_fold [symmetric])

lemma handle_all_Max:
  assumes "b_leaderID b \<noteq> []" and "0 \<le> b_timeout b" and "sorted (map fst reqs)"
    and "in_time (b_timeout b) (b_lastLeaderSeen b) reqs"
    and "b_leaderID b = name (leader_rank b)" and "names_agree name reqs"
  shows "leader_rank (handle_all reqs b) = Max (insert (leader_rank b) (req_rank ` set (map snd reqs)))"
    and "b_leaderID (handle_all reqs b) = name (leader_rank (handle_all reqs b))"
proof -
  note rank = handle_all_rank [OF assms(1-4), of name]
  have "set (map (req_rank \<circ> snd) reqs) = req_rank ` set (map snd reqs)"
    by (simp only: set_map image_comp)
  with rank show "leader_rank (handle_all reqs b) = Max (insert (leader_rank b) (req_rank ` set (map snd reqs)))"
    by (simp only: fold_max_Max)
  from rank assms(5,6) show "b_leaderID (handle_all reqs b) = name (leader_rank (handle_all reqs b))" by blast
qed

section \<open>Elections\<close>

lemma fold_ack: "fold (\<lambda>peer ack. if P peer then True else ack) xs a \<longleftrightarrow> a \<or> list_ex P xs"
  by (induction xs arbitrary: a) auto

lemma sendElection_from_ack:
  "sendElection_from reply ctx_done i n \<longleftrightarrow>
     (\<exists>k < n. reply (i + k) = Some True \<and> (\<forall>j < k. reply (i + j) = None \<and> \<not> ctx_done (i + j)))"
proof (induction n arbitrary: i)
  case 0
  then show ?case by simp
next
  case (Suc n)
  have split: "(\<exists>k < Suc n. Q k) \<longleftrightarrow> Q 0 \<or> (\<exists>k < n. Q (Suc k))" for Q
    using Ex_less_Suc2 by blast
  have all: "(\<forall>j < Suc k. Q j) \<longleftrightarrow> Q 0 \<and> (\<forall>j < k. Q (Suc j))" for Q k
    using All_less_Suc2 by blast
  show ?case using Suc.IH [of "Suc i"] by (auto simp: split all split: option.split)
qed

lemma await_leader_terminates:
  assumes "\<And>i. clk i + 50 * millisecond \<le> clk (Suc i)"
  shows "deadline - clk i \<le> int n * (50 * millisecond) \<Longrightarrow>
    await_leader deadline clk cancelled seen i (Suc n) \<noteq> None"
proof (induction n arbitrary: i)
  case 0
  then show ?case by simp
next
  case (Suc n)
  from Suc.prems assms [of i] have "deadline - clk (Suc i) \<le> int n * (50 * millisecond)"
    by (simp add: algebra_simps)
  from Suc.IH [OF this] show ?case by (subst await_leader.simps) (simp del: await_leader.simps)
qed

definition follower :: Bully where
  "follower = (New \<lparr>bc_NodeID = ''a'', bc_Priority = 1, bc_APIKey = '''', bc_Compression = False,
     bc_Interval = 0, bc_LeaderTimeout = 0\<rparr>)
     \<lparr>b_leaderID := ''c'', b_leaderPriority := 2, b_leaderTerm := 4, b_lastLeaderSeen := 100\<rparr>"

section \<open>Properties\<close>

text \<open>C17: an announcement from a lower-priority node never displaces a leader that was heard of within the
  timeout; an announcement of a higher priority is always accepted; and once the leader is stale, an
  announcement with a newer term takes over whatever its priority (failover).\<close>

theorem HandleCoordinator_safety:
  "(leader_fresh now b \<and> sint (co_Priority req) < sint (b_leaderPriority b) \<longrightarrow>
      snd (HandleCoordinator now req b) = b) \<and>
   (sint (b_leaderPriority b) < sint (co_Priority req) \<or>
      \<not> leader_fresh now b \<and> sint (b_leaderTerm b) < sint (co_Term req) \<longrightarrow>
      LeaderID (snd (HandleCoordinator now req b)) = co_NodeId req \<and>
      leader_rank (snd (HandleCoordinator now req b)) = req_rank req \<and>
      (0 \<le> b_timeout b \<and> co_NodeId req \<noteq> [] \<longrightarrow> leader_fresh now (snd (HandleCoordinator now req b))))"
  by (auto simp: HandleCoordinator_def Let_def LeaderID_def leader_rank_def req_rank_def leader_fresh_def time_sub_def)

theorem HandleCoordinator_safety_witness:
  "snd (HandleCoordinator 150 \<lparr>co_NodeId = ''y'', co_Priority = 1, co_Term = 7\<rparr> follower) = follower \<and>
   LeaderID (snd (HandleCoordinator (100 + 11 * second) \<lparr>co_NodeId = ''y'', co_Priority = 1, co_Term = 7\<rparr> follower)) = ''y''"
  using HandleCoordinator_safety [of 150 follower "\<lparr>co_NodeId = ''y'', co_Priority = 1, co_Term = 7\<rparr>"]
    HandleCoordinator_safety [of "100 + 11 * second" follower "\<lparr>co_NodeId = ''y'', co_Priority = 1, co_Term = 7\<rparr>"]
  by (simp add: follower_def New_def Let_def leader_fresh_def time_sub_def)

text \<open>C18: agreement: two nodes that start from the same leader and receive the same announcements in time,
  each in its own order and with its own repetitions, end up with the same leader, and it is the
  announced one of the highest priority (and latest term), provided that announcements of
  the same priority and term come from the same node.\<close>

theorem announcements_agree:
  assumes "b_leaderID b1 = name (leader_rank b1)" and "b_leaderID b2 = name (leader_rank b2)"
    and "leader_rank b1 = leader_rank b2"
    and "b_leaderID b1 \<noteq> []" and "0 \<le> b_timeout b1" and "0 \<le> b_timeout b2"
    and "sorted (map fst reqs1)" and "sorted (map fst reqs2)"
    and "in_time (b_timeout b1) (b_lastLeaderSeen b1) reqs1" and "in_time (b_timeout b2) (b_lastLeaderSeen b2) reqs2"
    and "names_agree name reqs1" and "names_agree name reqs2" and "set (map snd reqs1) = set (map snd reqs2)"
  shows "LeaderID (handle_all reqs1 b1) = LeaderID (handle_all reqs2 b2) \<and>
    leader_rank (handle_all reqs1 b1) = leader_rank (handle_all reqs2 b2) \<and>
    leader_rank (handle_all reqs1 b1) = Max (insert (leader_rank b1) (req_rank ` set (map snd reqs1)))"
proof -
  from assms(2-4) have b2: "b_leaderID b2 \<noteq> []" using assms(1) by simp
  note 1 = handle_all_Max [OF assms(4,5,7,9,1,11)]
  note 2 = handle_all_Max [OF b2 assms(6,8,10,2,12)]
  from 1 2 assms(3,13) show ?thesis by (simp only: LeaderID_def simp_thms)
qed

theorem announcements_agree_witness:
  "LeaderID (handle_all [(110, \<lparr>co_NodeId = ''x'', co_Priority = 5, co_Term = 7\<rparr>),
       (120, \<lparr>co_NodeId = ''y'', co_Priority = 3, co_Term = 9\<rparr>)] follower) =
   LeaderID (handle_all [(105, \<lparr>co_NodeId = ''y'', co_Priority = 3, co_Term = 9\<rparr>),
       (130, \<lparr>co_NodeId = ''x'', co_Priority = 5, co_Term = 7\<rparr>)] follower)"
  using announcements_agree [of follower "\<lambda>r. if r = (2, 4) then ''c'' else if r = (5, 7) then ''x'' else ''y''" follower
      "[(110, \<lparr>co_NodeId = ''x'', co_Priority = 5, co_Term = 7\<rparr>), (120, \<lparr>co_NodeId = ''y'', co_Priority = 3, co_Term = 9\<rparr>)]"
      "[(105, \<lparr>co_NodeId = ''y'', co_Priority = 3, co_Term = 9\<rparr>), (130, \<lparr>co_NodeId = ''x'', co_Priority = 5, co_Term = 7\<rparr>)]"]
  by (auto simp: follower_def New_def Let_def leader_rank_def req_rank_def names_agree_def)

text \<open>C35: an election ends with this node as leader exactly when no live peer of a higher priority answers
  within the three probes; then its term grows by one and every live peer is sent the announcement; in the
  other case the leader state is unchanged and nothing is sent. In both cases the node can run
  another election.\<close>

theorem StartElection_outcome:
  assumes "\<not> b_electionRunning b"
  shows "StartElection reply ctx_done now M id b =
    (if (\<exists>m \<in> set (GetAlivePeers M). m_ID m \<noteq> b_nodeID b \<and> sint (b_priority b) < sint (m_Priority m) \<and>
          (\<exists>k < b_maxProbes b. reply (m_Address m) k = Some True \<and>
             (\<forall>j < k. reply (m_Address m) j = None \<and> \<not> ctx_done j)))
     then (b, [])
     else (b\<lparr>b_leaderID := b_nodeID b, b_leaderPriority := b_priority b, b_leaderTerm := b_leaderTerm b + 1,
             b_lastLeaderSeen := now\<rparr>,
           map (\<lambda>m. (m_Address m, \<lparr>co_NodeId = b_nodeID b, co_Priority = b_priority b, co_Term = b_leaderTerm b + 1\<rparr>))
             (filter (\<lambda>m. m_ID m \<noteq> b_nodeID b) (GetAlivePeers M))))"
proof -
  let ?b = "b\<lparr>b_electionRunning := True\<rparr>"
  have ack: "fold (\<lambda>peer ack. if sendElection reply ctx_done ?b peer then True else ack)
        (higherPriorityLivePeers M ?b) False \<longleftrightarrow>
      (\<exists>m \<in> set (GetAlivePeers M). m_ID m \<noteq> b_nodeID b \<and> sint (b_priority b) < sint (m_Priority m) \<and>
         (\<exists>k < b_maxProbes b. reply (m_Address m) k = Some True \<and>
            (\<forall>j < k. reply (m_Address m) j = None \<and> \<not> ctx_done j)))" (is "?l \<longleftrightarrow> ?r")
    unfolding fold_ack list_ex_iff higherPriorityLivePeers_def sendElection_def sendElection_from_ack
    by simp blast
  have same: "b\<lparr>b_electionRunning := False\<rparr> = b" using assms by (cases b) simp
  have send: "sendCoordinator tm b' =
      (\<lambda>m. (m_Address m, \<lparr>co_NodeId = b_nodeID b', co_Priority = b_priority b', co_Term = tm\<rparr>))" for tm b'
    by (simp add: sendCoordinator_def fun_eq_iff)
  show ?thesis
  proof (cases ?r)
    case True
    with ack assms same show ?thesis by (simp add: StartElection_def Let_def)
  next
    case False
    with ack have "\<not> ?l" by blast
    with assms have "StartElection reply ctx_done now M id b =
        (case BecomeLeader now M ?b of (b, sent) \<Rightarrow> (b\<lparr>b_electionRunning := False\<rparr>, sent))"
      by (simp add: StartElection_def Let_def)
    moreover have "b\<lparr>b_leaderID := l, b_leaderPriority := p, b_leaderTerm := tm, b_lastLeaderSeen := now,
        b_electionRunning := False\<rparr> = b\<lparr>b_leaderID := l, b_leaderPriority := p, b_leaderTerm := tm, b_lastLeaderSeen := now\<rparr>"
      for l p tm using assms by (cases b) simp
    ultimately show ?thesis unfolding if_not_P [OF False] by (simp add: BecomeLeader_def Let_def send)
  qed
qed

theorem StartElection_outcome_witness:
  "LeaderID (fst (StartElection (\<lambda>_ _. None) (\<lambda>_. False) 7 (NewMembership ''a'') id
     (New \<lparr>bc_NodeID = ''a'', bc_Priority = 1, bc_APIKey = '''', bc_Compression = False,
        bc_Interval = 0, bc_LeaderTimeout = 0\<rparr>))) = ''a''"
  by (subst StartElection_outcome)
    (simp_all add: New_def LeaderID_def NewMembership_def GetAlivePeers_def GetMembers_def)

text \<open>C36: the wait for an announcement after an acknowledged election ends: since the loop sleeps 50
  milliseconds per iteration, it returns within \<open>timeout / 50ms + 1\<close> iterations of its start.\<close>

theorem election_wait_ends:
  assumes "\<And>i. clk i + 50 * millisecond \<le> clk (Suc i)" and "0 \<le> timeout"
  shows "\<exists>r. await_leader (clk 0 + timeout) clk cancelled seen 0 (Suc (Suc (nat (timeout div (50 * millisecond))))) = Some r"
proof -
  have "timeout \<le> (timeout div (50 * millisecond) + 1) * (50 * millisecond)"
    by presburger
  then have "clk 0 + timeout - clk 0 \<le> int (Suc (nat (timeout div (50 * millisecond)))) * (50 * millisecond)"
    using assms(2) by (simp add: pos_imp_zdiv_nonneg_iff)
  from await_leader_terminates [OF assms(1) this] show ?thesis by blast
qed

theorem election_wait_ends_witness:
  "\<exists>r. await_leader (0 + 10 * second) (\<lambda>i. int i * (50 * millisecond)) (\<lambda>_. False) (\<lambda>_. '''') 0
     (Suc (Suc (nat (10 * second div (50 * millisecond))))) = Some r"
  using election_wait_ends [of "\<lambda>i. int i * (50 * millisecond)" "10 * second"] by (simp add: algebra_simps)

end
