(* ===== verification/Store.thy ===== *)
theory Store
  imports Json_Struct
begin

text \<open>
  \<open>internal/persistence/store.go\<close> and \<open>redis.go\<close>: the state that survives restarts and the store that keeps
  it. The Redis server and its client are outside the sources: the server's answers are arguments of
  the operations, and its key space is a map from keys to values. The JSON text of a state is what
  \<open>encoding/json\<close> writes for the struct.
\<close>

section \<open>The state and the store\<close>

record CounterState =
  st_Positive :: "int64 gomap"
  st_Negative :: "int64 gomap"
  st_Clock :: "int64 gomap"
  st_Tags :: "string list gomap"

datatype store_error = Ping_failed | Marshal_failed | Unmarshal_failed | Redis_failed

section \<open>The JSON text of a state\<close>

text \<open>The maps of a state are never \<open>nil\<close> when it is saved, so that an empty one is written as \<open>{}\<close>.\<close>

definition state_members :: "CounterState \<Rightarrow> (string \<times> json) list" where
  "state_members st =
     [(''positive'', map_json int64_json (st_Positive st)), (''negative'', map_json int64_json (st_Negative st)),
      (''clock'', map_json int64_json (st_Clock st))] @
     omit_if (go_len (st_Tags st) = 0) ''tags'' (map_json slice_json (st_Tags st))"

definition state_fields :: "string list" where
  "state_fields = [''positive'', ''negative'', ''clock'', ''tags'']"

definition zero_state :: CounterState where
  "zero_state = \<lparr>st_Positive = fmempty, st_Negative = fmempty, st_Clock = fmempty, st_Tags = fmempty\<rparr>"

definition store_state :: "string \<Rightarrow> json \<Rightarrow> CounterState \<Rightarrow> CounterState option" where
  "store_state f v st =
     (let counts = store_map (\<lambda>x. store_int64 x 0) v
      in if f = ''positive'' then map_option (\<lambda>x. st\<lparr>st_Positive := x\<rparr>) (counts (st_Positive st))
         else if f = ''negative'' then map_option (\<lambda>x. st\<lparr>st_Negative := x\<rparr>) (counts (st_Negative st))
         else if f = ''clock'' then map_option (\<lambda>x. st\<lparr>st_Clock := x\<rparr>) (counts (st_Clock st))
         else map_option (\<lambda>x. st\<lparr>st_Tags := x\<rparr>) (store_map store_slice v (st_Tags st)))"

definition marshal_state :: "CounterState \<Rightarrow> string option" where
  "marshal_state st = Some (render (JObj (state_members st)))"

definition unmarshal_state :: "string \<Rightarrow> CounterState option" where
  "unmarshal_state = unmarshal_struct store_state state_fields zero_state"

definition state_utf8 :: "CounterState \<Rightarrow> bool" where
  "state_utf8 st \<longleftrightarrow> keys_ok (st_Positive st) \<and> keys_ok (st_Negative st) \<and> keys_ok (st_Clock st) \<and> keys_ok (st_Tags st) \<and>
     list_all (\<lambda>(k, tags). list_all valid_utf8 tags) (sorted_list_of_fmap (st_Tags st))"

lemma tags_json_ok:
  assumes "state_utf8 st"
  shows "json_ok (map_json slice_json (st_Tags st))"
proof (rule json_ok_map)
  show "keys_ok (st_Tags st)" using assms by (simp add: state_utf8_def)
  fix k v
  assume "fmlookup (st_Tags st) k = Some v"
  then have "(k, v) \<in> set (sorted_list_of_fmap (st_Tags st))" by (simp add: set_sorted_list_of_fmap)
  with assms show "json_ok (slice_json v)" by (intro slice_json_ok) (auto simp: state_utf8_def list_all_iff)
qed

lemma state_json_ok: "state_utf8 st \<Longrightarrow> json_ok (JObj (state_members st))"
  using tags_json_ok [of st] unfolding json_ok.simps state_members_def
  by (auto simp: state_utf8_def valid_utf8_ascii dest!: set_omit_if intro: json_ok_map)

lemma state_json_depth: "depth (JObj (state_members st)) \<le> 10000"
proof -
  have "depth (map_json int64_json x) \<le> 2" for x using depth_map [of int64_json 1 x] by simp
  moreover have "depth (map_json slice_json x) \<le> 2" for x using depth_map [of slice_json 1 x] depth_slice by simp
  ultimately have "\<forall>(k, v) \<in> set (state_members st). depth v \<le> 2"
    by (auto simp: state_members_def dest!: set_omit_if)
  then have "fold max (map (\<lambda>(k, v). depth v) (state_members st)) 0 \<le> 2" by (intro fold_max_bound) auto
  then show ?thesis by simp
qed

lemma store_state_members: "store_fields store_state state_fields (state_members st) zero_state = Some st"
proof -
  let ?s = "zero_state\<lparr>st_Positive := st_Positive st, st_Negative := st_Negative st, st_Clock := st_Clock st\<rparr>"
  have "store_fields store_state state_fields [(''positive'', map_json int64_json (st_Positive st)),
      (''negative'', map_json int64_json (st_Negative st)), (''clock'', map_json int64_json (st_Clock st))] zero_state = Some ?s"
    by (simp add: field_for_def state_fields_def store_state_def zero_state_def)
  moreover have "store_fields store_state state_fields
      (omit_if (go_len (st_Tags st) = 0) ''tags'' (map_json slice_json (st_Tags st))) ?s = Some st"
    by (rule store_omit_if) (simp_all add: state_fields_def store_state_def zero_state_def)
  ultimately show ?thesis unfolding state_members_def store_fields_append by (simp del: store_fields.simps)
qed

lemma unmarshal_marshal_state: "state_utf8 st \<Longrightarrow> marshal_state st = Some d \<Longrightarrow> unmarshal_state d = Some st"
  by (auto simp: unmarshal_state_def marshal_state_def unmarshal_render state_json_ok state_json_depth
      store_state_members simp del: render.simps depth.simps json_ok.simps)

lemma unmarshal_state_cut:
  "state_utf8 st \<Longrightarrow> marshal_state st = Some d \<Longrightarrow> k < length d \<Longrightarrow> unmarshal_state (take k d) = None"
  unfolding unmarshal_state_def marshal_state_def
  by (auto intro!: unmarshal_cut_short simp: state_json_ok state_json_depth simp del: render.simps depth.simps json_ok.simps)

section \<open>The Redis store\<close>

text \<open>The Redis key space, and whether the next command succeeds.\<close>

type_synonym redis = "string gomap"

definition NewRedisStore :: "bool \<Rightarrow> store_error + unit" where
  "NewRedisStore ping_ok = (if \<not> ping_ok then Inl Ping_failed else Inr ())"

definition stateKey :: "string \<Rightarrow> string" where
  "stateKey nodeID = ''counter:'' @ nodeID @ '':state''"

definition RS_Save ::
  "bool \<Rightarrow> string \<Rightarrow> CounterState \<Rightarrow> redis \<Rightarrow> (store_error + unit) \<times> redis" where
  "RS_Save set_ok nodeID state r =
     (case marshal_state state of
        None \<Rightarrow> (Inl Marshal_failed, r)
      | Some data \<Rightarrow> if set_ok then (Inr (), fmupd (stateKey nodeID) data r) else (Inl Redis_failed, r))"

definition RS_Load ::
  "bool \<Rightarrow> string \<Rightarrow> redis \<Rightarrow> store_error + CounterState option" where
  "RS_Load get_ok nodeID r =
     (if \<not> get_ok then Inl Redis_failed
      else (case fmlookup r (stateKey nodeID) of
          None \<Rightarrow> Inr None
        | Some data \<Rightarrow>
            (case unmarshal_state data of None \<Rightarrow> Inl Unmarshal_failed | Some state \<Rightarrow> Inr (Some state))))"

text \<open>A sequence of saves, each of which may fail, and the ones that succeeded.\<close>

definition saves ::
  "(bool \<Rightarrow> string \<Rightarrow> 's \<Rightarrow> 'db \<Rightarrow> (store_error + unit) \<times> 'db) \<Rightarrow> (bool \<times> string \<times> 's) list \<Rightarrow> 'db \<Rightarrow> 'db" where
  "saves save = fold (\<lambda>(ok, n, s) db. snd (save ok n s db))"

fun succeeded ::
  "(bool \<Rightarrow> string \<Rightarrow> 's \<Rightarrow> 'db \<Rightarrow> (store_error + unit) \<times> 'db) \<Rightarrow> (bool \<times> string \<times> 's) list \<Rightarrow> 'db \<Rightarrow> (string \<times> 's) list" where
  "succeeded save [] db = []"
| "succeeded save ((ok, n, s) # xs) db =
     (case save ok n s db of
        (Inr _, db') \<Rightarrow> (n, s) # succeeded save xs db' | (Inl _, db') \<Rightarrow> succeeded save xs db')"

section \<open>The contract of a store\<close>

text \<open>
  What the \<open>Store\<close> interface promises: a load returns the state of the last successful save for the
  same node, nothing when there was none, and a failed save changes nothing. \<open>good\<close> marks the
  states that the encoding keeps.
\<close>

locale store_contract =
  fixes save :: "bool \<Rightarrow> string \<Rightarrow> 'state \<Rightarrow> 'db \<Rightarrow> (store_error + unit) \<times> 'db"
    and load :: "bool \<Rightarrow> string \<Rightarrow> 'db \<Rightarrow> store_error + 'state option"
    and good :: "'state \<Rightarrow> bool"
    and empty :: 'db
  assumes load_empty: "load True n empty = Inr None"
    and load_save: "good s \<Longrightarrow> save ok n s db = (Inr (), db') \<Longrightarrow>
      load True m db' = (if m = n then Inr (Some s) else load True m db)"
    and save_failed: "save ok n s db = (Inl e, db') \<Longrightarrow> db' = db"
begin

lemma load_saves_from:
  "\<forall>(ok, n, s) \<in> set xs. good s \<Longrightarrow>
   load True m (saves save xs db) =
     (case filter (\<lambda>(n, s). n = m) (succeeded save xs db) of
        [] \<Rightarrow> load True m db | ys \<Rightarrow> Inr (Some (snd (last ys))))"
proof (induction xs arbitrary: db)
  case Nil
  then show ?case by (simp add: saves_def)
next
  case (Cons x xs)
  obtain ok n s where x: "x = (ok, n, s)" by (cases x) auto
  obtain r db' where r: "save ok n s db = (r, db')" by (cases "save ok n s db")
  note IH = Cons.IH [of db']
  show ?case
  proof (cases r)
    case (Inl e)
    with r save_failed have "db' = db" by blast
    with IH Cons.prems x r Inl show ?thesis by (simp add: saves_def cong: list.case_cong)
  next
    case (Inr u)
    with r have sv: "save ok n s db = (Inr (), db')" by simp
    from Cons.prems x have "good s" by auto
    from load_save [OF this sv] IH Cons.prems x sv show ?thesis
      by (auto simp: saves_def split: list.splits)
  qed
qed

lemma load_saves:
  assumes "\<forall>(ok, n, s) \<in> set xs. good s"
  shows "load True m (saves save xs empty) =
     (case filter (\<lambda>(n, s). n = m) (succeeded save xs empty) of
        [] \<Rightarrow> Inr None | ys \<Rightarrow> Inr (Some (snd (last ys))))"
  using load_saves_from [OF assms, of m empty] by (simp add: load_empty cong: list.case_cong)

end

lemma stateKey_inj [simp]: "stateKey m = stateKey n \<longleftrightarrow> m = n"
  by (simp add: stateKey_def)

interpretation redis_store: store_contract RS_Save RS_Load state_utf8 fmempty
  by unfold_locales
    (auto simp: RS_Save_def RS_Load_def unmarshal_marshal_state split: option.splits if_splits)

section \<open>The store keeps the contract\<close>

text \<open>Starting from an empty key space, after any sequence of saves for any nodes, some of them failing, \<open>Load\<close>
  for a node returns the state of the last save for that node that succeeded, and nothing when none did.\<close>

lemma RedisStore_load_last_save:
  assumes "\<forall>(ok, n, s) \<in> set xs. state_utf8 s"
  shows "RS_Load True m (saves RS_Save xs fmempty) =
    (case filter (\<lambda>(n, s). n = m) (succeeded RS_Save xs fmempty) of
       [] \<Rightarrow> Inr None | ys \<Rightarrow> Inr (Some (snd (last ys))))"
  by (rule redis_store.load_saves [OF assms])

end
