(* ===== verification/Wal.thy ===== *)
theory Wal
  imports Json_Struct
begin

text \<open>
  \<open>internal/persistence/wal.go\<close>: the write-ahead log, a file of JSON lines.

  The file system is a map from paths to contents. Each operation takes a \<open>wal_io\<close> that says how the
  system calls it makes turn out: whether the file opens, how much of a write reaches the file, how
  much of it can be read, whether sync, remove and close succeed. An open handle is the path it was
  opened on. The JSON text of an entry is what \<open>encoding/json\<close> writes for the struct.
\<close>

section \<open>Entries, files, errors\<close>

record WALEntry =
  we_Seq :: uint64
  we_Op :: string
  we_Node :: string
  we_Counter :: string
  we_Delta :: int64
  we_Positive :: "int64 gomap"
  we_Negative :: "int64 gomap"
  we_Clock :: "int64 gomap"
  we_Ts :: int64

record WALStore =
  w_dir :: string
  w_file :: "string option"
  w_seq :: uint64

type_synonym files = "string gomap"

datatype wal_error =
  Mkdir_failed | Open_failed | WAL_marshal_failed | Write_failed | Sync_failed
| Decode_failed | Token_too_long | Read_failed | Remove_failed | Close_failed

text \<open>\<open>io_write = Some n\<close>: the write fails after \<open>n\<close> bytes; \<open>io_read = Some n\<close>: reading fails after \<open>n\<close> bytes.\<close>

record wal_io =
  io_mkdir_ok :: bool
  io_open_ok :: bool
  io_write :: "nat option"
  io_sync_ok :: bool
  io_read :: "nat option"
  io_remove_ok :: bool
  io_close_ok :: bool

definition all_ok :: wal_io where
  "all_ok = \<lparr>io_mkdir_ok = True, io_open_ok = True, io_write = None, io_sync_ok = True, io_read = None,
     io_remove_ok = True, io_close_ok = True\<rparr>"

abbreviation newline :: char where "newline \<equiv> CHR 0x0A"
abbreviation carriage_return :: char where "carriage_return \<equiv> CHR 0x0D"

section \<open>The JSON text of an entry\<close>

text \<open>The struct tags: \<open>seq\<close>, \<open>op\<close> and \<open>ts\<close> always, the other fields only when they are not empty.\<close>

definition entry_members :: "WALEntry \<Rightarrow> (string \<times> json) list" where
  "entry_members e =
     [(''seq'', uint64_json (we_Seq e)), (''op'', JStr (we_Op e))] @
     omit_if (we_Node e = []) ''node'' (JStr (we_Node e)) @
     omit_if (we_Counter e = []) ''counter'' (JStr (we_Counter e)) @
     omit_if (we_Delta e = 0) ''delta'' (int64_json (we_Delta e)) @
     omit_if (go_len (we_Positive e) = 0) ''positive'' (map_json int64_json (we_Positive e)) @
     omit_if (go_len (we_Negative e) = 0) ''negative'' (map_json int64_json (we_Negative e)) @
     omit_if (go_len (we_Clock e) = 0) ''clock'' (map_json int64_json (we_Clock e)) @
     [(''ts'', int64_json (we_Ts e))]"

definition entry_fields :: "string list" where
  "entry_fields = [''seq'', ''op'', ''node'', ''counter'', ''delta'', ''positive'', ''negative'', ''clock'', ''ts'']"

definition zero_entry :: WALEntry where
  "zero_entry = \<lparr>we_Seq = 0, we_Op = [], we_Node = [], we_Counter = [], we_Delta = 0, we_Positive = fmempty,
     we_Negative = fmempty, we_Clock = fmempty, we_Ts = 0\<rparr>"

definition store_entry :: "string \<Rightarrow> json \<Rightarrow> WALEntry \<Rightarrow> WALEntry option" where
  "store_entry f v e =
     (let counts = store_map (\<lambda>x. store_int64 x 0) v
      in if f = ''seq'' then map_option (\<lambda>x. e\<lparr>we_Seq := x\<rparr>) (store_uint64 v (we_Seq e))
         else if f = ''op'' then map_option (\<lambda>x. e\<lparr>we_Op := x\<rparr>) (store_string v (we_Op e))
         else if f = ''node'' then map_option (\<lambda>x. e\<lparr>we_Node := x\<rparr>) (store_string v (we_Node e))
         else if f = ''counter'' then map_option (\<lambda>x. e\<lparr>we_Counter := x\<rparr>) (store_string v (we_Counter e))
         else if f = ''delta'' then map_option (\<lambda>x. e\<lparr>we_Delta := x\<rparr>) (store_int64 v (we_Delta e))
         else if f = ''positive'' then map_option (\<lambda>x. e\<lparr>we_Positive := x\<rparr>) (counts (we_Positive e))
         else if f = ''negative'' then map_option (\<lambda>x. e\<lparr>we_Negative := x\<rparr>) (counts (we_Negative e))
         else if f = ''clock'' then map_option (\<lambda>x. e\<lparr>we_Clock := x\<rparr>) (counts (we_Clock e))
         else map_option (\<lambda>x. e\<lparr>we_Ts := x\<rparr>) (store_int64 v (we_Ts e)))"

text \<open>\<open>json.Marshal\<close> never fails on this struct.\<close>

definition entry_text :: "WALEntry \<Rightarrow> string" where
  "entry_text e = render (JObj (entry_members e))"

definition marshal_entry :: "WALEntry \<Rightarrow> string option" where
  "marshal_entry e = Some (entry_text e)"

definition unmarshal_entry :: "string \<Rightarrow> WALEntry option" where
  "unmarshal_entry = unmarshal_struct store_entry entry_fields zero_entry"

text \<open>The entries whose strings are UTF-8, which is what JSON can carry.\<close>

definition entry_utf8 :: "WALEntry \<Rightarrow> bool" where
  "entry_utf8 e \<longleftrightarrow> valid_utf8 (we_Op e) \<and> valid_utf8 (we_Node e) \<and> valid_utf8 (we_Counter e) \<and>
     keys_ok (we_Positive e) \<and> keys_ok (we_Negative e) \<and> keys_ok (we_Clock e)"

lemma entry_json_ok: "entry_utf8 e \<Longrightarrow> json_ok (JObj (entry_members e))"
  unfolding json_ok.simps entry_members_def entry_utf8_def
  by (auto dest!: set_omit_if intro: json_ok_map simp: valid_utf8_ascii)

lemma entry_json_depth: "depth (JObj (entry_members e)) \<le> 10000"
proof -
  have m: "depth (map_json int64_json x) \<le> 1" for x using depth_map [of int64_json 0 x] by simp
  then have "\<forall>(k, v) \<in> set (entry_members e). depth v \<le> 1"
    by (auto simp: entry_members_def dest!: set_omit_if)
  then have "fold max (map (\<lambda>(k, v). depth v) (entry_members e)) 0 \<le> 1" by (intro fold_max_bound) auto
  then show ?thesis by simp
qed

lemma store_entry_members: "store_fields store_entry entry_fields (entry_members e) zero_entry = Some e"
proof -
  let ?S = "store_fields store_entry entry_fields"
  let ?e1 = "zero_entry\<lparr>we_Seq := we_Seq e, we_Op := we_Op e\<rparr>"
  let ?e2 = "?e1\<lparr>we_Node := we_Node e\<rparr>" let ?e3 = "?e2\<lparr>we_Counter := we_Counter e\<rparr>"
  let ?e4 = "?e3\<lparr>we_Delta := we_Delta e\<rparr>" let ?e5 = "?e4\<lparr>we_Positive := we_Positive e\<rparr>"
  let ?e6 = "?e5\<lparr>we_Negative := we_Negative e\<rparr>" let ?e7 = "?e6\<lparr>we_Clock := we_Clock e\<rparr>"
  have 1: "?S [(''seq'', uint64_json (we_Seq e)), (''op'', JStr (we_Op e))] zero_entry = Some ?e1"
    by (simp add: field_for_def entry_fields_def store_entry_def)
  have 2: "?S (omit_if (we_Node e = []) ''node'' (JStr (we_Node e))) ?e1 = Some ?e2"
    by (rule store_omit_if) (simp_all add: entry_fields_def store_entry_def zero_entry_def)
  have 3: "?S (omit_if (we_Counter e = []) ''counter'' (JStr (we_Counter e))) ?e2 = Some ?e3"
    by (rule store_omit_if) (simp_all add: entry_fields_def store_entry_def zero_entry_def)
  have 4: "?S (omit_if (we_Delta e = 0) ''delta'' (int64_json (we_Delta e))) ?e3 = Some ?e4"
    by (rule store_omit_if) (simp_all add: entry_fields_def store_entry_def zero_entry_def)
  have 5: "?S (omit_if (go_len (we_Positive e) = 0) ''positive'' (map_json int64_json (we_Positive e))) ?e4 = Some ?e5"
    by (rule store_omit_if) (simp_all add: entry_fields_def store_entry_def zero_entry_def)
  have 6: "?S (omit_if (go_len (we_Negative e) = 0) ''negative'' (map_json int64_json (we_Negative e))) ?e5 = Some ?e6"
    by (rule store_omit_if) (simp_all add: entry_fields_def store_entry_def zero_entry_def)
  have 7: "?S (omit_if (go_len (we_Clock e) = 0) ''clock'' (map_json int64_json (we_Clock e))) ?e6 = Some ?e7"
    by (rule store_omit_if) (simp_all add: entry_fields_def store_entry_def zero_entry_def)
  have 8: "?S [(''ts'', int64_json (we_Ts e))] ?e7 = Some e"
    by (simp add: field_for_def entry_fields_def store_entry_def zero_entry_def)
  show ?thesis unfolding entry_members_def store_fields_append 1 2 3 4 5 6 7 8 Option.bind.simps by (rule refl)
qed

lemma unmarshal_entry_text: "entry_utf8 e \<Longrightarrow> unmarshal_entry (entry_text e) = Some e"
  by (simp add: unmarshal_entry_def entry_text_def unmarshal_render entry_json_ok entry_json_depth
      store_entry_members del: render.simps depth.simps json_ok.simps)

lemma unmarshal_entry_cut: "entry_utf8 e \<Longrightarrow> k < length (entry_text e) \<Longrightarrow> unmarshal_entry (take k (entry_text e)) = None"
  unfolding unmarshal_entry_def entry_text_def by (rule unmarshal_cut_short) (simp_all add: entry_json_ok entry_json_depth del: depth.simps json_ok.simps)

section \<open>Paths\<close>

text \<open>\<open>filepath.Join\<close> of two elements and the \<open>filepath.Clean\<close> it ends with, on a system with \<open>/\<close> as separator.\<close>

fun split_at :: "char \<Rightarrow> string \<Rightarrow> string list" where
  "split_at c [] = [[]]"
| "split_at c (x # s) =
     (if x = c then [] # split_at c s
      else (case split_at c s of [] \<Rightarrow> [[x]] | p # ps \<Rightarrow> (x # p) # ps))"

fun join_with :: "string \<Rightarrow> string list \<Rightarrow> string" where
  "join_with sep [] = []"
| "join_with sep [p] = p"
| "join_with sep (p # ps) = p @ sep @ join_with sep ps"

fun clean_parts :: "bool \<Rightarrow> string list \<Rightarrow> string list \<Rightarrow> string list" where
  "clean_parts rooted acc [] = rev acc"
| "clean_parts rooted acc (p # ps) =
     (if p = [] \<or> p = ''.'' then clean_parts rooted acc ps
      else if p = ''..'' then
        (case acc of
           [] \<Rightarrow> if rooted then clean_parts rooted [] ps else clean_parts rooted [p] ps
         | a # acc' \<Rightarrow> if a = ''..'' then clean_parts rooted (p # acc) ps else clean_parts rooted acc' ps)
      else clean_parts rooted (p # acc) ps)"

definition Clean :: "string \<Rightarrow> string" where
  "Clean path =
     (let rooted = HasPrefix path ''/'';
          body = join_with ''/'' (clean_parts rooted [] (split_at (CHR ''/'') path))
      in if rooted then ''/'' @ body else if body = [] then ''.'' else body)"

definition path_join :: "string \<Rightarrow> string \<Rightarrow> string" where
  "path_join a b =
     (if a = [] \<and> b = [] then [] else if a = [] then Clean b else if b = [] then Clean a
      else Clean (a @ ''/'' @ b))"

definition walPath :: "WALStore \<Rightarrow> string \<Rightarrow> string" where
  "walPath w nodeID = path_join (w_dir w) (''counter-'' @ nodeID @ ''.wal'')"

section \<open>Operations\<close>

definition NewWALStore :: "wal_io \<Rightarrow> string \<Rightarrow> wal_error + WALStore" where
  "NewWALStore io dir =
     (if \<not> io_mkdir_ok io then Inl Mkdir_failed else Inr \<lparr>w_dir = dir, w_file = None, w_seq = 0\<rparr>)"

definition openLocked :: "wal_io \<Rightarrow> string \<Rightarrow> WALStore \<Rightarrow> files \<Rightarrow> (wal_error + string) \<times> WALStore \<times> files" where
  "openLocked io nodeID w fs =
     (case w_file w of
        Some path \<Rightarrow> (Inr path, w, fs)
      | None \<Rightarrow>
          (let path = walPath w nodeID
           in if \<not> io_open_ok io then (Inl Open_failed, w, fs)
              else (Inr path, w\<lparr>w_file := Some path\<rparr>,
                    (case fmlookup fs path of None \<Rightarrow> fmupd path [] fs | Some _ \<Rightarrow> fs))))"

text \<open>A write through a handle in append mode.\<close>

definition file_append :: "string \<Rightarrow> string \<Rightarrow> files \<Rightarrow> files" where
  "file_append path data fs =
     (case fmlookup fs path of None \<Rightarrow> fs | Some content \<Rightarrow> fmupd path (content @ data) fs)"

definition AppendCounter ::
  "wal_io \<Rightarrow> go_time \<Rightarrow> string \<Rightarrow> string \<Rightarrow> string \<Rightarrow> int64
   \<Rightarrow> int64 gomap \<Rightarrow> int64 gomap \<Rightarrow> int64 gomap \<Rightarrow> WALStore \<Rightarrow> files \<Rightarrow> (wal_error + unit) \<times> WALStore \<times> files" where
  "AppendCounter io now nodeID counter op delta positive negative clock w fs =
     (case openLocked io nodeID w fs of
        (Inl e, w, fs) \<Rightarrow> (Inl e, w, fs)
      | (Inr file, w, fs) \<Rightarrow>
          (let w = w\<lparr>w_seq := w_seq w + 1\<rparr>;
               entry = \<lparr>we_Seq = w_seq w, we_Op = op, we_Node = [], we_Counter = counter, we_Delta = delta,
                  we_Positive = positive, we_Negative = negative, we_Clock = clock, we_Ts = word_of_int (unix_of_time now)\<rparr>
           in (case marshal_entry entry of
                 None \<Rightarrow> (Inl WAL_marshal_failed, w, fs)
               | Some data \<Rightarrow>
                   (case io_write io of
                      Some n \<Rightarrow> (Inl Write_failed, w, file_append file (take n (data @ [newline])) fs)
                    | None \<Rightarrow>
                        (if io_sync_ok io then Inr () else Inl Sync_failed, w,
                         file_append file (data @ [newline]) fs)))))"

definition WAL_Append ::
  "wal_io \<Rightarrow> go_time \<Rightarrow> string \<Rightarrow> string \<Rightarrow> int64
   \<Rightarrow> int64 gomap \<Rightarrow> int64 gomap \<Rightarrow> int64 gomap \<Rightarrow> WALStore \<Rightarrow> files \<Rightarrow> (wal_error + unit) \<times> WALStore \<times> files" where
  "WAL_Append io now nodeID op delta positive negative clock w fs =
     AppendCounter io now nodeID [] op delta positive negative clock w fs"

text \<open>
  \<open>bufio.Scanner\<close> with \<open>ScanLines\<close>: the lines of the input, a last line without newline included; a
  trailing carriage return is dropped. The buffer holds at most 4 MiB including the newline, so
  the scanner stops with an error at a line of 4194304 bytes or more.
\<close>

fun raw_lines :: "string \<Rightarrow> string list" where
  "raw_lines [] = []"
| "raw_lines (c # s) =
     (if c = newline then [] # raw_lines s
      else (case raw_lines s of [] \<Rightarrow> [[c]] | l # ls \<Rightarrow> (c # l) # ls))"

definition dropCR :: "string \<Rightarrow> string" where
  "dropCR l = (if l \<noteq> [] \<and> last l = carriage_return then butlast l else l)"

fun replay_loop ::
  "string list \<Rightarrow> uint64 \<Rightarrow> WALEntry list \<Rightarrow> wal_error option \<times> WALEntry list \<times> uint64" where
  "replay_loop [] seq entries = (None, entries, seq)"
| "replay_loop (raw # rest) seq entries =
     (if 4194304 \<le> int (length raw) then (Some Token_too_long, entries, seq)
      else if dropCR raw = [] then replay_loop rest seq entries
      else (case unmarshal_entry (dropCR raw) of
          None \<Rightarrow> (Some Decode_failed, [], seq)
        | Some entry \<Rightarrow>
            replay_loop rest (if seq < we_Seq entry then we_Seq entry else seq) (entries @ [entry])))"

text \<open>\<open>Replay\<close> returns the entries together with an error, as the Go function does.\<close>

definition Replay ::
  "wal_io \<Rightarrow> string \<Rightarrow> WALStore \<Rightarrow> files \<Rightarrow> (wal_error option \<times> WALEntry list) \<times> WALStore" where
  "Replay io nodeID w fs =
     (case fmlookup fs (walPath w nodeID) of
        None \<Rightarrow> ((None, []), w)
      | Some content \<Rightarrow>
          if \<not> io_open_ok io then ((Some Open_failed, []), w)
          else (let readable = (case io_read io of None \<Rightarrow> content | Some n \<Rightarrow> take n content)
                in (case replay_loop (raw_lines readable) (w_seq w) [] of
                      (Some e, entries, seq) \<Rightarrow> ((Some e, entries), w\<lparr>w_seq := seq\<rparr>)
                    | (None, entries, seq) \<Rightarrow>
                        ((if io_read io = None then None else Some Read_failed, entries), w\<lparr>w_seq := seq\<rparr>))))"

definition Truncate :: "wal_io \<Rightarrow> string \<Rightarrow> WALStore \<Rightarrow> files \<Rightarrow> (wal_error + unit) \<times> WALStore \<times> files" where
  "Truncate io nodeID w fs =
     (let w = w\<lparr>w_file := None\<rparr>;
          path = walPath w nodeID
      in if path |\<in>| fmdom fs \<and> \<not> io_remove_ok io then (Inl Remove_failed, w, fs)
         else (Inr (), w\<lparr>w_seq := 0\<rparr>, fmdrop path fs))"

definition WAL_Close :: "wal_io \<Rightarrow> WALStore \<Rightarrow> (wal_error + unit) \<times> WALStore" where
  "WAL_Close io w =
     (if w_file w \<noteq> None then (if io_close_ok io then Inr () else Inl Close_failed, w\<lparr>w_file := None\<rparr>)
      else (Inr (), w))"

section \<open>The log a file holds\<close>

text \<open>What the log needs of an entry: UTF-8 strings and a line below the limit of the scanner.\<close>

definition entry_ok :: "WALEntry \<Rightarrow> bool" where
  "entry_ok e \<longleftrightarrow> entry_utf8 e \<and> int (length (entry_text e)) < 4194304"

definition log_text :: "WALEntry list \<Rightarrow> string" where
  "log_text entries = concat (map (\<lambda>e. entry_text e @ [newline]) entries)"

definition next_seq :: "WALEntry list \<Rightarrow> uint64 \<Rightarrow> uint64" where
  "next_seq = fold (\<lambda>e seq. if seq < we_Seq e then we_Seq e else seq)"

text \<open>The file of the node holds exactly the lines of these entries, and the handle, if open, is on it.\<close>

definition holds_log :: "string \<Rightarrow> WALStore \<Rightarrow> files \<Rightarrow> WALEntry list \<Rightarrow> bool" where
  "holds_log nodeID w fs entries \<longleftrightarrow>
     (case fmlookup fs (walPath w nodeID) of
        None \<Rightarrow> entries = [] \<and> w_file w = None
      | Some content \<Rightarrow> content = log_text entries \<and> (w_file w = None \<or> w_file w = Some (walPath w nodeID)))"

lemma walPath_upd [simp]: "walPath (w\<lparr>w_file := f\<rparr>) n = walPath w n" "walPath (w\<lparr>w_seq := q\<rparr>) n = walPath w n"
  by (simp_all add: walPath_def)

lemma raw_lines_line: "newline \<notin> set l \<Longrightarrow> raw_lines (l @ newline # s) = l # raw_lines s"
  by (induction l) auto

lemma raw_lines_tail: "newline \<notin> set l \<Longrightarrow> raw_lines l = (if l = [] then [] else [l])"
  by (induction l) auto

lemma entry_text_line:
  assumes "entry_utf8 e"
  shows "entry_text e \<noteq> []" "c \<in> set (entry_text e) \<Longrightarrow> 0x20 \<le> byte c" "newline \<notin> set (entry_text e)"
    "carriage_return \<notin> set (entry_text e)"
proof -
  show p: "0x20 \<le> byte c" if "c \<in> set (entry_text e)" for c
    using render_printable [OF entry_json_ok [OF assms]] that unfolding entry_text_def by blast
  show "entry_text e \<noteq> []" by (simp add: entry_text_def)
  show "newline \<notin> set (entry_text e)" "carriage_return \<notin> set (entry_text e)" using p by fastforce+
qed

lemma entry_okE:
  assumes "entry_ok e"
  obtains "entry_text e \<noteq> []" "newline \<notin> set (entry_text e)" "dropCR (entry_text e) = entry_text e"
    "int (length (entry_text e)) < 4194304" "unmarshal_entry (entry_text e) = Some e"
proof -
  have u: "entry_utf8 e" and l: "int (length (entry_text e)) < 4194304" using assms by (auto simp: entry_ok_def)
  have "last (entry_text e) \<noteq> carriage_return" using entry_text_line(1,4) [OF u] last_in_set by metis
  then have "dropCR (entry_text e) = entry_text e" by (simp add: dropCR_def)
  with that entry_text_line [OF u] unmarshal_entry_text [OF u] l show thesis by blast
qed

lemma raw_lines_log_text:
  "list_all entry_ok es \<Longrightarrow> raw_lines (log_text es @ s) = map entry_text es @ raw_lines s"
  by (induction es) (auto simp: log_text_def raw_lines_line elim!: entry_okE)

lemma replay_loop_log:
  "list_all entry_ok es \<Longrightarrow>
   replay_loop (map entry_text es @ rest) seq acc = replay_loop rest (next_seq es seq) (acc @ es)"
  by (induction es arbitrary: seq acc) (auto simp: next_seq_def elim!: entry_okE)

lemma Replay_holds:
  assumes "holds_log n w fs es" and "list_all entry_ok es"
  shows "Replay all_ok n w fs = ((None, es), w\<lparr>w_seq := next_seq es (w_seq w)\<rparr>)"
proof (cases "fmlookup fs (walPath w n)")
  case None
  with assms(1) show ?thesis by (simp add: Replay_def holds_log_def next_seq_def)
next
  case (Some content)
  with assms(1) have "content = log_text es" by (simp add: holds_log_def)
  with Some raw_lines_log_text [OF assms(2), of "[]"] replay_loop_log [OF assms(2), of "[]" "w_seq w" "[]"]
  show ?thesis by (simp add: Replay_def all_ok_def)
qed

lemma AppendCounter_holds:
  assumes "holds_log n w fs es"
    and "entry = \<lparr>we_Seq = w_seq w + 1, we_Op = op, we_Node = [], we_Counter = counter, we_Delta = delta,
      we_Positive = p, we_Negative = ng, we_Clock = c, we_Ts = word_of_int (unix_of_time now)\<rparr>"
    and "entry_ok entry"
  shows "AppendCounter all_ok now n counter op delta p ng c w fs =
      (Inr (), w\<lparr>w_file := Some (walPath w n), w_seq := w_seq w + 1\<rparr>,
       fmupd (walPath w n) (log_text (es @ [entry])) fs)"
proof -
  from assms(1,2) show ?thesis
    by (cases "w_file w")
      (auto simp: AppendCounter_def openLocked_def holds_log_def file_append_def all_ok_def log_text_def
        marshal_entry_def Let_def split: option.splits)
qed

lemma holds_log_appended:
  "holds_log n (w\<lparr>w_file := Some (walPath w n), w_seq := q\<rparr>) (fmupd (walPath w n) (log_text es) fs) es"
  by (simp add: holds_log_def)

lemma Truncate_holds:
  "\<exists>w' fs'. Truncate all_ok n w fs = (Inr (), w', fs') \<and> w_seq w' = 0 \<and> w_dir w' = w_dir w \<and> holds_log n w' fs' []"
  by (simp add: Truncate_def all_ok_def holds_log_def)

lemma holds_log_restart: "holds_log n w fs es \<Longrightarrow> w_dir w' = w_dir w \<Longrightarrow> w_file w' = None \<Longrightarrow> holds_log n w' fs es"
  by (auto simp: holds_log_def walPath_def split: option.splits)

section \<open>The contract of a log\<close>

text \<open>The entries that a sequence of calls writes, when each entry depends on the state it is written in.\<close>

fun logged :: "('m \<Rightarrow> 's \<Rightarrow> 's) \<Rightarrow> ('s \<Rightarrow> 'm \<Rightarrow> 'e) \<Rightarrow> 'm list \<Rightarrow> 's \<Rightarrow> 'e list" where
  "logged add entry [] s = []"
| "logged add entry (m # ms) s = entry s m # logged add entry ms (add m s)"

text \<open>
  What the clients of the log rely on: \<open>holds s es\<close> says that the log in state \<open>s\<close> keeps the entries \<open>es\<close>;
  an append adds one, a restart loses none, a replay returns them in order, truncation drops them.
\<close>

locale log_contract =
  fixes holds :: "'s \<Rightarrow> 'e list \<Rightarrow> bool"
    and add :: "'m \<Rightarrow> 's \<Rightarrow> 's"
    and entry :: "'s \<Rightarrow> 'm \<Rightarrow> 'e"
    and replay :: "'s \<Rightarrow> 'e list option"
    and restart :: "'s \<Rightarrow> 's"
    and truncate :: "'s \<Rightarrow> 's"
    and good :: "'e \<Rightarrow> bool"
  assumes append_holds: "holds s es \<Longrightarrow> good (entry s m) \<Longrightarrow> holds (add m s) (es @ [entry s m])"
    and restart_holds: "holds s es \<Longrightarrow> holds (restart s) es"
    and replay_holds: "holds s es \<Longrightarrow> list_all good es \<Longrightarrow> replay s = Some es"
    and truncate_holds: "holds (truncate s) []"
begin

lemma run_holds:
  "holds s es \<Longrightarrow> list_all good (logged add entry ms s) \<Longrightarrow>
   holds (fold add ms s) (es @ logged add entry ms s)"
proof (induction ms arbitrary: s es)
  case Nil
  then show ?case by simp
next
  case (Cons m ms)
  from Cons.prems have "holds (add m s) (es @ [entry s m])" by (intro append_holds) auto
  from Cons.IH [OF this] Cons.prems show ?case by simp
qed

lemma replay_after_crash:
  assumes "holds s es" and "list_all good es" and "list_all good (logged add entry ms s)"
  shows "replay (restart (fold add ms s)) = Some (es @ logged add entry ms s)"
  using assms by (intro replay_holds restart_holds run_holds) auto

lemma replay_since_truncate:
  assumes "list_all good (logged add entry ms (truncate s))"
  shows "replay (restart (fold add ms (truncate s))) = Some (logged add entry ms (truncate s))"
  using replay_after_crash [OF truncate_holds _ assms] by simp

end

section \<open>The file-backed log keeps the contract\<close>

record mutation =
  mu_now :: go_time
  mu_counter :: string
  mu_op :: string
  mu_delta :: int64
  mu_positive :: "int64 gomap"
  mu_negative :: "int64 gomap"
  mu_clock :: "int64 gomap"

definition append_call :: "string \<Rightarrow> mutation \<Rightarrow> WALStore \<times> files \<Rightarrow> WALStore \<times> files" where
  "append_call n m s =
     snd (AppendCounter all_ok (mu_now m) n (mu_counter m) (mu_op m) (mu_delta m)
       (mu_positive m) (mu_negative m) (mu_clock m) (fst s) (snd s))"

definition mutation_entry :: "uint64 \<Rightarrow> mutation \<Rightarrow> WALEntry" where
  "mutation_entry seq m = \<lparr>we_Seq = seq, we_Op = mu_op m, we_Node = [], we_Counter = mu_counter m,
     we_Delta = mu_delta m, we_Positive = mu_positive m, we_Negative = mu_negative m,
     we_Clock = mu_clock m, we_Ts = word_of_int (unix_of_time (mu_now m))\<rparr>"

definition replay_call :: "string \<Rightarrow> WALStore \<times> files \<Rightarrow> WALEntry list option" where
  "replay_call n s =
     (case Replay all_ok n (fst s) (snd s) of ((None, es), _) \<Rightarrow> Some es | _ \<Rightarrow> None)"

text \<open>A restart: a new store on the same directory; the files stay.\<close>

definition wal_restart :: "WALStore \<times> files \<Rightarrow> WALStore \<times> files" where
  "wal_restart s = (\<lparr>w_dir = w_dir (fst s), w_file = None, w_seq = 0\<rparr>, snd s)"

interpretation wal: log_contract
  "\<lambda>s es. holds_log n (fst s) (snd s) es" "append_call n" "\<lambda>s m. mutation_entry (w_seq (fst s) + 1) m"
  "replay_call n" wal_restart "\<lambda>s. snd (Truncate all_ok n (fst s) (snd s))" entry_ok
  for n
proof unfold_locales
  fix s es m
  assume "holds_log n (fst s) (snd s) es" and "entry_ok (mutation_entry (w_seq (fst s) + 1) m)"
  from AppendCounter_holds [OF this(1) _ this(2)]
  show "holds_log n (fst (append_call n m s)) (snd (append_call n m s))
      (es @ [mutation_entry (w_seq (fst s) + 1) m])"
    by (simp add: append_call_def mutation_entry_def holds_log_appended)
next
  fix s es
  assume "holds_log n (fst s) (snd s) es"
  then show "holds_log n (fst (wal_restart s)) (snd (wal_restart s)) es"
    using holds_log_restart [of n "fst s" "snd s" es "fst (wal_restart s)"] by (simp add: wal_restart_def)
next
  fix s es
  assume "holds_log n (fst s) (snd s) es" and "list_all entry_ok es"
  from Replay_holds [OF this] show "replay_call n s = Some es" by (simp add: replay_call_def)
next
  fix s
  obtain w' fs' where "Truncate all_ok n (fst s) (snd s) = (Inr (), w', fs')" and "holds_log n w' fs' []"
    using Truncate_holds by blast
  then show "holds_log n (fst (snd (Truncate all_ok n (fst s) (snd s)))) (snd (snd (Truncate all_ok n (fst s) (snd s)))) []"
    by simp
qed

section \<open>Sequence numbers\<close>

fun entries_from :: "uint64 \<Rightarrow> mutation list \<Rightarrow> WALEntry list" where
  "entries_from seq [] = []"
| "entries_from seq (m # ms) = mutation_entry (seq + 1) m # entries_from (seq + 1) ms"

lemma AppendCounter_seq:
  assumes "io_open_ok io"
  shows "w_seq (fst (snd (AppendCounter io now n counter op delta p ng c w fs))) = w_seq w + 1"
  using assms by (auto simp: AppendCounter_def openLocked_def Let_def split: option.split)

lemma AppendCounter_dir: "w_dir (fst (snd (AppendCounter io now n counter op delta p ng c w fs))) = w_dir w"
  by (auto simp: AppendCounter_def openLocked_def Let_def split: option.split)

lemma fold_append_call_dir: "w_dir (fst (fold (append_call n) ms s)) = w_dir (fst s)"
  by (induction ms arbitrary: s) (simp_all add: append_call_def AppendCounter_dir)

lemma logged_append_call:
  "logged (append_call n) (\<lambda>s m. mutation_entry (w_seq (fst s) + 1) m) ms s = entries_from (w_seq (fst s)) ms"
  by (induction ms arbitrary: s) (simp_all add: append_call_def AppendCounter_seq all_ok_def)

lemma entries_from_seq:
  "i < length ms \<Longrightarrow> we_Seq (entries_from seq ms ! i) = seq + 1 + of_nat i"
  by (induction ms arbitrary: seq i) (auto simp: mutation_entry_def nth_Cons' of_nat_diff Suc_leI)

lemma length_entries_from [simp]: "length (entries_from seq ms) = length ms"
  by (induction ms arbitrary: seq) auto

lemma next_seq_entries_from:
  "unat seq + length ms < 2 ^ 64 \<Longrightarrow> next_seq (entries_from seq ms) seq = seq + of_nat (length ms)"
proof (induction ms arbitrary: seq)
  case Nil
  then show ?case by (simp add: next_seq_def)
next
  case (Cons m ms)
  from Cons.prems have u: "unat (seq + 1) = unat seq + 1"
    by (simp add: unat_word_ariths)
  then have "seq < seq + 1" by (simp add: word_less_nat_alt)
  with Cons.IH [of "seq + 1"] Cons.prems u show ?case
    by (simp add: next_seq_def mutation_entry_def algebra_simps)
qed

definition sample_mutation :: mutation where
  "sample_mutation = \<lparr>mu_now = 7, mu_counter = ''likes'', mu_op = ''increment'', mu_delta = 5,
     mu_positive = fmempty, mu_negative = fmempty, mu_clock = fmempty\<rparr>"

lemma sample_entry_ok:
  "entry_ok (mutation_entry seq sample_mutation)" "2 < length (entry_text (mutation_entry seq sample_mutation))"
proof -
  let ?e = "mutation_entry seq sample_mutation"
  have "entry_utf8 ?e"
    by (simp add: entry_utf8_def mutation_entry_def sample_mutation_def valid_utf8_ascii keys_ok_def)
  moreover have "int (length (entry_text ?e)) < 4194304"
    using int_json_length(1) [of 5] int_json_length(1) [of "we_Ts ?e"] int_json_length(2) [of seq]
      escape_ascii_length [of "''increment''"] escape_ascii_length [of "''likes''"] escape_ascii_length [of "''counter''"]
      escape_ascii_length [of "''seq''"] escape_ascii_length [of "''op''"] escape_ascii_length [of "''delta''"] escape_ascii_length [of "''ts''"]
    by (simp add: entry_text_def entry_members_def omit_if_def mutation_entry_def sample_mutation_def quoted_def)
  ultimately show "entry_ok ?e" by (simp add: entry_ok_def)
  show "2 < length (entry_text ?e)"
    by (simp add: entry_text_def entry_members_def quoted_def)
qed

section \<open>Properties\<close>

text \<open>C13: what is logged is replayed: starting from a directory without a log, after any sequence of
  appends and a crash, a new store on the same directory replays exactly the appended entries in
  order, numbered 1, 2, 3, ..., and goes on numbering after the last of them; after a truncation it
  replays exactly the entries appended since. It needs UTF-8 names and lines below the scanner's limit.\<close>

theorem wal_replay_after_crash:
  assumes "NewWALStore all_ok dir = Inr w" and "fmlookup fs (walPath w n) = None"
    and "list_all entry_ok (entries_from 0 ms)" and "list_all entry_ok (entries_from 0 ms')"
    and "length ms < 2 ^ 64"
  shows "case wal_restart (fold (append_call n) ms (w, fs)) of (w', fs') \<Rightarrow>
      Replay all_ok n w' fs' = ((None, entries_from 0 ms), w'\<lparr>w_seq := of_nat (length ms)\<rparr>) \<and>
      (\<forall>i < length ms. we_Seq (entries_from 0 ms ! i) = of_nat (Suc i)) \<and>
      replay_call n (wal_restart (fold (append_call n) ms' (snd (Truncate all_ok n w' fs')))) =
        Some (entries_from 0 ms')"
proof -
  let ?s = "fold (append_call n) ms (w, fs)"
  obtain w' fs' where s: "wal_restart ?s = (w', fs')" by (cases "wal_restart ?s")
  then have w': "w_seq w' = 0" by (auto simp: wal_restart_def)
  from assms(1,2) have "holds_log n w fs []" and "w_seq w = 0"
    by (auto simp: NewWALStore_def all_ok_def holds_log_def)
  with wal.run_holds [of n "(w, fs)" "[]" ms] assms(3)
  have "holds_log n (fst ?s) (snd ?s) (entries_from 0 ms)" by (simp add: logged_append_call)
  from wal.restart_holds [OF this] s have "holds_log n w' fs' (entries_from 0 ms)" by simp
  from Replay_holds [OF this assms(3)] next_seq_entries_from [of 0 ms] assms(5) w'
  have "Replay all_ok n w' fs' = ((None, entries_from 0 ms), w'\<lparr>w_seq := of_nat (length ms)\<rparr>)" by simp
  moreover from wal.replay_since_truncate [of n ms' "(w', fs')"] assms(4)
  have "replay_call n (wal_restart (fold (append_call n) ms' (snd (Truncate all_ok n w' fs')))) =
      Some (entries_from 0 ms')"
    by (simp add: logged_append_call Truncate_def all_ok_def)
  ultimately show ?thesis using s entries_from_seq [of _ ms 0] by simp
qed

theorem wal_replay_after_crash_witness:
  "case wal_restart (fold (append_call ''n1'') [sample_mutation] (\<lparr>w_dir = ''wal'', w_file = None, w_seq = 0\<rparr>, fmempty)) of
    (w', fs') \<Rightarrow> Replay all_ok ''n1'' w' fs' = ((None, [mutation_entry 1 sample_mutation]), w'\<lparr>w_seq := 1\<rparr>)"
proof -
  let ?w = "\<lparr>w_dir = ''wal'', w_file = None, w_seq = 0\<rparr>"
  have "NewWALStore all_ok ''wal'' = Inr ?w" by (simp add: NewWALStore_def all_ok_def)
  from wal_replay_after_crash [OF this, of fmempty "''n1''" "[sample_mutation]" "[]"] sample_entry_ok
  show ?thesis by (simp split: prod.splits)
qed

text \<open>C34: one torn line loses the whole log: when the write of an entry is cut short in the middle of its
  JSON text, wherever the cut is, the append reports the error, but after a restart \<open>Replay\<close>
  fails and returns none of the entries that had been logged successfully before.\<close>

theorem wal_torn_tail_loses_log:
  assumes "holds_log n w fs es" and "list_all entry_ok es" and "w_file w = None"
    and "io = all_ok\<lparr>io_write := Some k\<rparr>"
    and "entry_ok (mutation_entry (w_seq w + 1) m)"
    and "0 < k" and "k < length (entry_text (mutation_entry (w_seq w + 1) m))"
  shows "case AppendCounter io (mu_now m) n (mu_counter m) (mu_op m) (mu_delta m) (mu_positive m)
        (mu_negative m) (mu_clock m) w fs of
      (r, w', fs') \<Rightarrow> r = Inl Write_failed \<and>
        fst (Replay all_ok n (fst (wal_restart (w', fs'))) fs') = (Some Decode_failed, [])"
proof -
  let ?data = "entry_text (mutation_entry (w_seq w + 1) m)" let ?torn = "take k ?data"
  note u = assms(5) [unfolded entry_ok_def, THEN conjunct1]
  have torn: "newline \<notin> set ?torn" "?torn \<noteq> []" "int (length ?torn) < 4194304"
    using assms entry_text_line [OF u] by (auto simp: entry_ok_def dest: in_set_takeD)
  have "carriage_return \<notin> set ?torn" using entry_text_line(4) [OF u] by (auto dest: in_set_takeD)
  then have cr: "dropCR ?torn = ?torn" using torn(2) last_in_set unfolding dropCR_def by metis
  let ?w = "w\<lparr>w_file := Some (walPath w n), w_seq := w_seq w + 1\<rparr>"
  let ?fs = "fmupd (walPath w n) (log_text es @ ?torn) fs"
  from assms(1,3,4,7) have append: "AppendCounter io (mu_now m) n (mu_counter m) (mu_op m) (mu_delta m)
      (mu_positive m) (mu_negative m) (mu_clock m) w fs = (Inl Write_failed, ?w, ?fs)"
    by (auto simp: AppendCounter_def openLocked_def holds_log_def file_append_def all_ok_def log_text_def
        marshal_entry_def mutation_entry_def Let_def split: option.splits)
  have "raw_lines (log_text es @ ?torn) = map entry_text es @ [?torn]"
    using raw_lines_log_text [OF assms(2), of ?torn] raw_lines_tail [OF torn(1)] torn(2) by simp
  moreover have "replay_loop [?torn] (next_seq es 0) es = (Some Decode_failed, [], next_seq es 0)"
    using torn(2,3) cr unmarshal_entry_cut [OF u assms(7)] by (simp del: length_take)
  ultimately have "replay_loop (raw_lines (log_text es @ ?torn)) 0 [] = (Some Decode_failed, [], next_seq es 0)"
    using replay_loop_log [OF assms(2), of "[?torn]" 0 "[]"] by simp
  with append show ?thesis
    by (simp add: Replay_def wal_restart_def all_ok_def walPath_def)
qed

theorem wal_torn_tail_loses_log_witness:
  "case AppendCounter (all_ok\<lparr>io_write := Some 2\<rparr>)
      (mu_now sample_mutation) ''n1'' (mu_counter sample_mutation) (mu_op sample_mutation) (mu_delta sample_mutation) (mu_positive sample_mutation) (mu_negative sample_mutation) (mu_clock sample_mutation)
      \<lparr>w_dir = ''wal'', w_file = None, w_seq = 1\<rparr>
      (fmupd (walPath \<lparr>w_dir = ''wal'', w_file = None, w_seq = 1\<rparr> ''n1'') (log_text [mutation_entry 1 sample_mutation]) fmempty) of
    (r, w', fs') \<Rightarrow> r = Inl Write_failed \<and>
      fst (Replay all_ok ''n1'' (fst (wal_restart (w', fs'))) fs') = (Some Decode_failed, [])"
proof (rule wal_torn_tail_loses_log [where es = "[mutation_entry 1 sample_mutation]" and k = 2])
  show "2 < length (entry_text (mutation_entry (w_seq \<lparr>w_dir = ''wal'', w_file = None, w_seq = 1\<rparr> + 1) sample_mutation))"
    using sample_entry_ok by simp
qed (use sample_entry_ok in \<open>simp_all add: holds_log_def\<close>)

end
