(* ===== verification/Service.thy ===== *)
theory Service
  imports Delta Election Store Wal
begin

text \<open>
  \<open>internal/service/counter_service.go\<close>: the counter service of a node, the handlers of its RPCs and the
  persistence around them.

  The objects that the Go structs share by pointer (the counter, the clock, the member table, the
  write-ahead log) are fields of the one record \<open>CounterService\<close>; the other components that hold the
  same pointers work on these fields. What a handler sees of the outside world is its argument
  \<open>service_env\<close>: the time, and how file and Redis operations turn out. The content of
  the file system and of the Redis server are the fields \<open>sv_files\<close> and \<open>sv_store\<close>; \<open>nil\<close> pointers are
  \<open>None\<close>. Metrics, spans and logs have no effect on the state and are left out.
\<close>

section \<open>State\<close>

record service_env =
  ev_now :: go_time
  ev_io :: wal_io
  ev_set_ok :: bool

record CounterService =
  sv_nodeID :: string
  sv_port :: int
  sv_counter :: PNCounter
  sv_clock :: VectorClock
  sv_cluster :: "Membership option"
  sv_store :: "redis option"
  sv_wal :: "WALStore option"
  sv_onReset :: bool
  sv_lastSyncClock :: "int64 gomap gomap"
  sv_tags :: "string list gomap"
  sv_counterShards :: int
  sv_bully :: "Bully option"
  sv_priority :: int64
  sv_apiKey :: string
  sv_compression :: bool
  sv_files :: files

definition NewCounterService :: "string \<Rightarrow> int \<Rightarrow> files \<Rightarrow> CounterService" where
  "NewCounterService nodeID port fs =
     \<lparr>sv_nodeID = nodeID, sv_port = port, sv_counter = NewPNCounter nodeID, sv_clock = NewVectorClock nodeID,
      sv_cluster = None, sv_store = None, sv_wal = None, sv_onReset = False, sv_lastSyncClock = fmempty,
      sv_tags = fmempty, sv_counterShards = 1, sv_bully = None, sv_priority = 0, sv_apiKey = [],
      sv_compression = False, sv_files = fs\<rparr>"

definition normalizeName :: "string \<Rightarrow> string" where
  "normalizeName name = (if name = '''' then ''default'' else name)"

section \<open>Setters\<close>

definition SetCluster :: "Membership \<Rightarrow> CounterService \<Rightarrow> CounterService" where
  "SetCluster M s = s\<lparr>sv_cluster := Some M\<rparr>"

definition SetStore :: "redis \<Rightarrow> CounterService \<Rightarrow> CounterService" where
  "SetStore store s = s\<lparr>sv_store := Some store\<rparr>"

definition SetClientConfig :: "string \<Rightarrow> bool \<Rightarrow> CounterService \<Rightarrow> CounterService" where
  "SetClientConfig apiKey compression s = s\<lparr>sv_apiKey := apiKey, sv_compression := compression\<rparr>"

definition SetOnReset :: "CounterService \<Rightarrow> CounterService" where
  "SetOnReset s = s\<lparr>sv_onReset := True\<rparr>"

definition SetWAL :: "WALStore \<Rightarrow> CounterService \<Rightarrow> CounterService" where
  "SetWAL w s = s\<lparr>sv_wal := Some w\<rparr>"

definition SetBully :: "Bully \<Rightarrow> CounterService \<Rightarrow> CounterService" where
  "SetBully b s = s\<lparr>sv_bully := Some b\<rparr>"

definition SV_SetPriority :: "int64 \<Rightarrow> CounterService \<Rightarrow> CounterService" where
  "SV_SetPriority priority s = s\<lparr>sv_priority := priority\<rparr>"

definition SetShardCount :: "int \<Rightarrow> CounterService \<Rightarrow> CounterService" where
  "SetShardCount n s = (let n = (if n < 1 then 1 else n) in s\<lparr>sv_counterShards := n\<rparr>)"

section \<open>Persistence\<close>

definition walAppend ::
  "service_env \<Rightarrow> string \<Rightarrow> string \<Rightarrow> int64 \<Rightarrow> int64 gomap \<Rightarrow> int64 gomap \<Rightarrow> int64 gomap \<Rightarrow> CounterService \<Rightarrow> CounterService" where
  "walAppend ev op counter delta p n c s =
     (case sv_wal s of
        None \<Rightarrow> s
      | Some w \<Rightarrow>
          (case AppendCounter (ev_io ev) (ev_now ev) (sv_nodeID s) counter op delta
              p n c w (sv_files s) of
             (_, w, fs) \<Rightarrow> s\<lparr>sv_wal := Some w, sv_files := fs\<rparr>))"

definition persisted_state :: "CounterService \<Rightarrow> CounterState" where
  "persisted_state s =
     \<lparr>st_Positive = PN_Positive (sv_counter s), st_Negative = PN_Negative (sv_counter s),
      st_Clock = VC_State (sv_clock s), st_Tags = copy_map (sv_tags s)\<rparr>"

definition persist :: "service_env \<Rightarrow> CounterService \<Rightarrow> CounterService" where
  "persist ev s =
     (if sv_wal s \<noteq> None then s
      else (case sv_store s of
          None \<Rightarrow> s
        | Some store \<Rightarrow>
            (case RS_Save (ev_set_ok ev) (sv_nodeID s) (persisted_state s) store of
               (_, store) \<Rightarrow> s\<lparr>sv_store := Some store\<rparr>)))"

text \<open>\<open>remote := NewPNCounter(""); remote.SetPositive(p); remote.SetNegative(n); counter.Merge(remote)\<close>
  and \<open>clock.MergeMap(c)\<close>: the step that \<open>SyncState\<close>, \<open>Restore\<close>, \<open>ReplayWAL\<close> and the gossip engine share.\<close>

definition merge_remote :: "int64 gomap \<Rightarrow> int64 gomap \<Rightarrow> int64 gomap \<Rightarrow> CounterService \<Rightarrow> CounterService" where
  "merge_remote p n c s =
     (let remote = PN_SetNegative n (PN_SetPositive p (NewPNCounter ''''))
      in s\<lparr>sv_counter := PN_Merge (sv_counter s) remote, sv_clock := VC_MergeMap c (sv_clock s)\<rparr>)"

definition Restore :: "CounterState option \<Rightarrow> CounterService \<Rightarrow> CounterService" where
  "Restore state s =
     (case state of
        None \<Rightarrow> s
      | Some state \<Rightarrow>
          (let s = merge_remote (st_Positive state) (st_Negative state) (st_Clock state) s
           in if 0 < go_len (st_Tags state)
              then s\<lparr>sv_tags := go_range copy_body (st_Tags state) (sv_tags s)\<rparr> else s))"

fun replay_entry :: "WALEntry \<Rightarrow> CounterService \<Rightarrow> CounterService" where
  "replay_entry entry s =
     (if we_Op entry = ''increment''
      then s\<lparr>sv_counter := PN_IncrementName (we_Counter entry) (we_Delta entry) (sv_counter s),
             sv_clock := VC_IncrementName (we_Counter entry) (sv_clock s)\<rparr>
      else if we_Op entry = ''decrement''
      then s\<lparr>sv_counter := PN_DecrementName (we_Counter entry) (we_Delta entry) (sv_counter s),
             sv_clock := VC_IncrementName (we_Counter entry) (sv_clock s)\<rparr>
      else if we_Op entry = ''reset''
      then s\<lparr>sv_counter := PN_ResetName (we_Counter entry) (sv_counter s),
             sv_clock := VC_ResetName (we_Counter entry) (sv_clock s)\<rparr>
      else if we_Op entry = ''merge''
      then merge_remote (we_Positive entry) (we_Negative entry) (we_Clock entry) s
      else s)"

definition ReplayWAL :: "service_env \<Rightarrow> CounterService \<Rightarrow> wal_error option \<times> CounterService" where
  "ReplayWAL ev s =
     (case sv_wal s of
        None \<Rightarrow> (None, s)
      | Some w \<Rightarrow>
          (case Replay (ev_io ev) (sv_nodeID s) w (sv_files s) of
             ((Some e, entries), w) \<Rightarrow> (Some e, s\<lparr>sv_wal := Some w\<rparr>)
           | ((None, entries), w) \<Rightarrow> (None, fold replay_entry entries (s\<lparr>sv_wal := Some w\<rparr>))))"

text \<open>\<open>Snapshot\<close> in its three steps, since it holds no lock from one to the next: reading the state,
  saving it, truncating the log.\<close>

definition snapshot_save :: "service_env \<Rightarrow> CounterState \<Rightarrow> CounterService \<Rightarrow> bool \<times> CounterService" where
  "snapshot_save ev state s =
     (case sv_store s of
        None \<Rightarrow> (False, s)
      | Some store \<Rightarrow>
          (case RS_Save (ev_set_ok ev) (sv_nodeID s) state store of
             (Inl _, store) \<Rightarrow> (False, s\<lparr>sv_store := Some store\<rparr>)
           | (Inr _, store) \<Rightarrow> (True, s\<lparr>sv_store := Some store\<rparr>)))"

definition snapshot_truncate :: "service_env \<Rightarrow> CounterService \<Rightarrow> CounterService" where
  "snapshot_truncate ev s =
     (case sv_wal s of
        None \<Rightarrow> s
      | Some w \<Rightarrow>
          (case Truncate (ev_io ev) (sv_nodeID s) w (sv_files s) of
             (_, w, fs) \<Rightarrow> s\<lparr>sv_wal := Some w, sv_files := fs\<rparr>))"

definition Snapshot :: "service_env \<Rightarrow> CounterService \<Rightarrow> CounterService" where
  "Snapshot ev s =
     (if sv_store s = None then s
      else (case snapshot_save ev (persisted_state s) s of
          (False, s) \<Rightarrow> s | (True, s) \<Rightarrow> snapshot_truncate ev s))"

section \<open>Responses\<close>

definition node_info_of :: "Member \<Rightarrow> NodeInfo" where
  "node_info_of member =
     \<lparr>ni_NodeId = m_ID member, ni_Address = m_Address member, ni_CounterValue = m_CounterValue member,
      ni_Version = '''', ni_IsLeader = False, ni_LastSeen = unix_of_time (m_LastHeartbeat member),
      ni_LeaderId = [], ni_Priority = m_Priority member\<rparr>"

definition buildResponse :: "go_time \<Rightarrow> string \<Rightarrow> CounterService \<Rightarrow> CounterResponse" where
  "buildResponse now name s =
     \<lparr>cr_NodeId = sv_nodeID s, cr_CounterName = name, cr_CurrentValue = PN_ValueName name (sv_counter s),
      cr_Version = VC_String (sv_clock s), cr_LastUpdated = unix_of_time now,
      cr_ClusterNodes = (case sv_cluster s of None \<Rightarrow> [] | Some M \<Rightarrow> map node_info_of (GetMembers M))\<rparr>"

section \<open>Counter operations\<close>

definition req_delta :: "int32 \<Rightarrow> int64" where
  "req_delta d = (let delta = scast d in if delta = 0 then 1 else delta)"

definition Increment :: "service_env \<Rightarrow> IncrementRequest \<Rightarrow> CounterService \<Rightarrow> CounterResponse \<times> CounterService" where
  "Increment ev req s =
     (let name = normalizeName (ir_CounterName req);
          delta = req_delta (ir_Delta req);
          s = s\<lparr>sv_counter := PN_IncrementName name delta (sv_counter s)\<rparr>;
          s = s\<lparr>sv_clock := VC_IncrementName name (sv_clock s)\<rparr>;
          s = walAppend ev ''increment'' name delta fmempty fmempty fmempty s;
          s = persist ev s
      in (buildResponse (ev_now ev) name s, s))"

definition Decrement :: "service_env \<Rightarrow> DecrementRequest \<Rightarrow> CounterService \<Rightarrow> CounterResponse \<times> CounterService" where
  "Decrement ev req s =
     (let name = normalizeName (dr_CounterName req);
          delta = req_delta (dr_Delta req);
          s = s\<lparr>sv_counter := PN_DecrementName name delta (sv_counter s)\<rparr>;
          s = s\<lparr>sv_clock := VC_IncrementName name (sv_clock s)\<rparr>;
          s = walAppend ev ''decrement'' name delta fmempty fmempty fmempty s;
          s = persist ev s
      in (buildResponse (ev_now ev) name s, s))"

text \<open>The boolean result of \<open>Reset\<close> says whether the registered callback is called.\<close>

definition Reset :: "service_env \<Rightarrow> string \<Rightarrow> CounterService \<Rightarrow> CounterResponse \<times> bool \<times> CounterService" where
  "Reset ev req_CounterName s =
     (let name = normalizeName req_CounterName;
          s = s\<lparr>sv_counter := PN_ResetName name (sv_counter s)\<rparr>;
          s = s\<lparr>sv_clock := VC_ResetName name (sv_clock s)\<rparr>;
          s = s\<lparr>sv_lastSyncClock := fmempty\<rparr>;
          called = sv_onReset s;
          s = walAppend ev ''reset'' name 0 fmempty fmempty fmempty s;
          s = persist ev s
      in (buildResponse (ev_now ev) name s, called, s))"

definition GetValue :: "service_env \<Rightarrow> string \<Rightarrow> CounterService \<Rightarrow> CounterResponse" where
  "GetValue ev req_CounterName s = buildResponse (ev_now ev) (normalizeName req_CounterName) s"

section \<open>Tags, shards and the list of counters\<close>

text \<open>FNV-1a with 32 bits, as \<open>hash/fnv\<close> computes it over the bytes of the name.\<close>

definition fnv_step :: "char \<Rightarrow> uint32 \<Rightarrow> uint32" where
  "fnv_step b h = xor h (of_char b) * 16777619"

definition fnv32a :: "string \<Rightarrow> uint32" where
  "fnv32a data = fold fnv_step data 2166136261"

text \<open>A result of \<open>None\<close> is a panic: the integer division by zero that \<open>% uint32(n)\<close> raises.\<close>

definition Shard :: "string \<Rightarrow> CounterService \<Rightarrow> uint32 option" where
  "Shard name s =
     (let n = sv_counterShards s
      in if n \<le> 1 then Some 0
         else (let d = word_of_int n in if d = 0 then None else Some (fnv32a name mod d)))"

definition tags_of :: "string list gomap \<Rightarrow> string \<Rightarrow> string list" where
  "tags_of tags name = (case fmlookup tags name of None \<Rightarrow> [] | Some ts \<Rightarrow> ts)"

definition buildCounterInfo :: "string \<Rightarrow> CounterService \<Rightarrow> CounterInfo option" where
  "buildCounterInfo name s =
     (let tags = tags_of (sv_tags s) name
      in map_option (\<lambda>shard. \<lparr>ci_Name = name, ci_CurrentValue = PN_ValueName name (sv_counter s),
           ci_Shard = shard, ci_Tags = tags\<rparr>) (Shard name s))"

definition CreateCounter :: "string \<Rightarrow> string list \<Rightarrow> CounterService \<Rightarrow> CounterInfo option \<times> CounterService" where
  "CreateCounter req_Name req_Tags s =
     (let name = normalizeName req_Name;
          s = (if 0 < length req_Tags then s\<lparr>sv_tags := fmupd name req_Tags (sv_tags s)\<rparr> else s)
      in (buildCounterInfo name s, s))"

fun containsTag :: "string list \<Rightarrow> string \<Rightarrow> bool" where
  "containsTag [] tag = False"
| "containsTag (t # tags) tag = (if t = tag then True else containsTag tags tag)"

definition list_names :: "CounterService \<Rightarrow> bool gomap" where
  "list_names s =
     (let names = fold (\<lambda>n names. fmupd n True names) (PN_Names (sv_counter s)) fmempty;
          names = go_range (\<lambda>n _ names. fmupd n True names) (sv_tags s) names;
          names = (if PN_ValueName ''default'' (sv_counter s) \<noteq> 0 \<or> 0 < length (tags_of (sv_tags s) ''default'')
                   then fmupd ''default'' True names else names)
      in if go_len names = 0 then fmupd ''default'' True names else names)"

text \<open>\<open>sort.Slice\<close> by name; the names are distinct, so the result does not depend on the order in which
  Go iterates over the map \<open>names\<close>.\<close>

definition ListCounters :: "string \<Rightarrow> CounterService \<Rightarrow> CounterInfo list option" where
  "ListCounters req_Tag s =
     (let names = list_names s;
          tags = copy_map (sv_tags s);
          res = go_range (\<lambda>n _ res.
            if req_Tag \<noteq> '''' \<and> \<not> containsTag (tags_of tags n) req_Tag then res
            else (case res of None \<Rightarrow> None
                  | Some infos \<Rightarrow> map_option (\<lambda>info. infos @ [info]) (buildCounterInfo n s))) names (Some [])
      in map_option (sort_key ci_Name) res)"

section \<open>Cluster handlers\<close>

fun digits :: "nat \<Rightarrow> string" where
  "digits n = (if n < 10 then [char_of (48 + n)] else digits (n div 10) @ [char_of (48 + n mod 10)])"

definition decimal :: "int \<Rightarrow> string" where
  "decimal i = (if i < 0 then ''-'' @ digits (nat (- i)) else digits (nat i))"

definition GetNodeInfo :: "service_env \<Rightarrow> CounterService \<Rightarrow> NodeInfo" where
  "GetNodeInfo ev s =
     (let leaderID = (case sv_bully s of None \<Rightarrow> '''' | Some b \<Rightarrow> LeaderID b);
          isLeader = (case sv_bully s of None \<Rightarrow> False | Some b \<Rightarrow> IsLeader b)
      in \<lparr>ni_NodeId = sv_nodeID s, ni_Address = ''localhost:'' @ decimal (sv_port s),
          ni_CounterValue = PN_ValueName ''default'' (sv_counter s), ni_Version = VC_String (sv_clock s),
          ni_IsLeader = isLeader, ni_LastSeen = unix_of_time (ev_now ev), ni_LeaderId = leaderID,
          ni_Priority = sv_priority s\<rparr>)"

definition SV_Election :: "ElectionRequest \<Rightarrow> CounterService \<Rightarrow> ElectionResponse \<times> bool" where
  "SV_Election req s =
     (case sv_bully s of
        Some b \<Rightarrow> HandleElection req b
      | None \<Rightarrow> (\<lparr>es_NodeId = sv_nodeID s, es_Ok = True, es_Priority = sv_priority s\<rparr>, False))"

definition SV_Coordinator :: "service_env \<Rightarrow> CoordinatorRequest \<Rightarrow> CounterService \<Rightarrow> CoordinatorResponse \<times> CounterService" where
  "SV_Coordinator ev req s =
     (case sv_bully s of
        Some b \<Rightarrow> (case HandleCoordinator (ev_now ev) req b of (resp, b) \<Rightarrow> (resp, s\<lparr>sv_bully := Some b\<rparr>))
      | None \<Rightarrow> (\<lparr>cs_Success = True\<rparr>, s))"

definition pb_member_of :: "Member \<Rightarrow> pb_Member" where
  "pb_member_of member =
     \<lparr>pm_NodeId = m_ID member, pm_Address = m_Address member, pm_IsActive = m_IsActive member,
      pm_LastHeartbeat = unix_of_time (m_LastHeartbeat member), pm_CounterValue = m_CounterValue member,
      pm_Status = ToProto (m_Status member), pm_Priority = m_Priority member\<rparr>"

definition JoinCluster :: "service_env \<Rightarrow> JoinRequest \<Rightarrow> CounterService \<Rightarrow> MemberList \<times> CounterService" where
  "JoinCluster ev req s =
     (let s = (case sv_cluster s of
            None \<Rightarrow> s | Some M \<Rightarrow> s\<lparr>sv_cluster := Some (AddMember (ev_now ev) (jr_NodeId req) (jr_Address req) M)\<rparr>);
          members = (case sv_cluster s of None \<Rightarrow> [] | Some M \<Rightarrow> map pb_member_of (GetMembers M));
          members = (if length members = 0 \<and> jr_NodeId req \<noteq> ''''
            then members @ [\<lparr>pm_NodeId = jr_NodeId req, pm_Address = jr_Address req, pm_IsActive = True,
              pm_LastHeartbeat = unix_of_time (ev_now ev), pm_CounterValue = 0, pm_Status = MEMBER_ALIVE,
              pm_Priority = 0\<rparr>]
            else members)
      in (\<lparr>ml_Members = members, ml_Version = unix_of_time (ev_now ev)\<rparr>, s))"

text \<open>\<open>remote\<close> is the address of the connection, if the context carries one.\<close>

definition Heartbeat :: "string option \<Rightarrow> HeartbeatRequest \<Rightarrow> CounterService \<Rightarrow> HeartbeatResponse \<times> CounterService" where
  "Heartbeat remote req s =
     (let s = (case sv_cluster s of
            None \<Rightarrow> s
          | Some M \<Rightarrow>
              (let remoteAddress = (if hr_Address req = '''' then (case remote of None \<Rightarrow> '''' | Some a \<Rightarrow> a)
                                    else hr_Address req);
                   M = AddOrUpdateMember (hr_NodeId req) remoteAddress True (time_of_unix (hr_Timestamp req)) M;
                   M = (if 0 < sint (hr_Priority req) then SetPriority (hr_NodeId req) (hr_Priority req) M else M)
               in s\<lparr>sv_cluster := Some M\<rparr>));
          activeMembers = (case sv_cluster s of
             None \<Rightarrow> [] | Some M \<Rightarrow> map pb_member_of (filter m_IsActive (GetMembers M)));
          clusterSize = (case sv_cluster s of None \<Rightarrow> 0 | Some M \<Rightarrow> int (length activeMembers))
      in (\<lparr>hs_Success = True, hs_Message = ''heartbeat acknowledged'', hs_ClusterSize = clusterSize,
           hs_ActiveMembers = activeMembers\<rparr>, s))"

definition SwimPing :: "SwimPingRequest \<Rightarrow> CounterService \<Rightarrow> SwimPingResponse" where
  "SwimPing req s = \<lparr>sr_NodeId = sv_nodeID s, sr_Alive = True, sr_MessageId = sp_MessageId req\<rparr>"

text \<open>\<open>dial\<close> says whether the connection comes up, \<open>ping\<close> is the \<open>Alive\<close> field of the reply or an RPC error.\<close>

definition pingTarget :: "(string \<Rightarrow> bool) \<Rightarrow> (string \<Rightarrow> bool option) \<Rightarrow> string \<Rightarrow> bool" where
  "pingTarget dial ping address =
     (if \<not> dial address then False else (case ping address of None \<Rightarrow> False | Some alive \<Rightarrow> alive))"

definition SwimPingReq ::
  "(string \<Rightarrow> bool) \<Rightarrow> (string \<Rightarrow> bool option) \<Rightarrow> SwimPingRequest \<Rightarrow> CounterService \<Rightarrow> SwimPingResponse" where
  "SwimPingReq dial ping req s =
     (let alive = (case sv_cluster s of
            None \<Rightarrow> False
          | Some M \<Rightarrow>
              (case GetMember (sp_TargetNodeId req) M of
                 None \<Rightarrow> False
               | Some target \<Rightarrow>
                   if m_Status target = StatusAlive then pingTarget dial ping (m_Address target) else False))
      in \<lparr>sr_NodeId = sv_nodeID s, sr_Alive = alive, sr_MessageId = sp_MessageId req\<rparr>)"

section \<open>State synchronisation\<close>

definition membershipGossip :: "CounterService \<Rightarrow> MemberStatus gomap" where
  "membershipGossip s = (case sv_cluster s of None \<Rightarrow> fmempty | Some M \<Rightarrow> GossipMembership M)"

definition clock_at :: "int64 gomap gomap \<Rightarrow> string \<Rightarrow> int64 gomap" where
  "clock_at m k = (case fmlookup m k of None \<Rightarrow> fmempty | Some c \<Rightarrow> c)"

definition buildDeltaReply :: "go_time \<Rightarrow> StateUpdate \<Rightarrow> CounterService \<Rightarrow> StateUpdate \<times> CounterService" where
  "buildDeltaReply now update s =
     (let myClock = VC_State (sv_clock s);
          base = MergeClock (su_VectorClock update) (clock_at (sv_lastSyncClock s) (su_FromNodeId update));
          s = s\<lparr>sv_lastSyncClock := fmupd (su_FromNodeId update)
                 (MergeClock myClock (su_VectorClock update)) (sv_lastSyncClock s)\<rparr>
      in (case DeltaFrom (PN_Positive (sv_counter s)) (PN_Negative (sv_counter s)) myClock base of
            (deltaPos, deltaNeg, _) \<Rightarrow>
              (\<lparr>su_FromNodeId = sv_nodeID s, su_PositiveState = deltaPos, su_NegativeState = deltaNeg,
                su_VectorClock = myClock, su_Timestamp = unix_of_time now, su_Type = DELTA_UPDATE,
                su_LastSyncVersion = MaxClock base, su_Membership = membershipGossip s\<rparr>, s)))"

definition buildFullReply :: "go_time \<Rightarrow> CounterService \<Rightarrow> StateUpdate" where
  "buildFullReply now s =
     (let myClock = VC_State (sv_clock s)
      in \<lparr>su_FromNodeId = sv_nodeID s, su_PositiveState = PN_Positive (sv_counter s),
          su_NegativeState = PN_Negative (sv_counter s), su_VectorClock = myClock,
          su_Timestamp = unix_of_time now, su_Type = FULL_STATE, su_LastSyncVersion = MaxClock myClock,
          su_Membership = membershipGossip s\<rparr>)"

text \<open>One message of the stream: no reply to a heartbeat, one to every other update.\<close>

definition SyncState_recv :: "service_env \<Rightarrow> StateUpdate \<Rightarrow> CounterService \<Rightarrow> StateUpdate option \<times> CounterService" where
  "SyncState_recv ev update s =
     (if su_Type update = HEARTBEAT then (None, s)
      else
        (let s = merge_remote (su_PositiveState update) (su_NegativeState update) (su_VectorClock update) s;
             s = (case sv_cluster s of
                None \<Rightarrow> s
              | Some M \<Rightarrow> if 0 < go_len (su_Membership update)
                          then s\<lparr>sv_cluster := Some (ApplyMembership (su_Membership update) M)\<rparr> else s);
             s = walAppend ev ''merge'' '''' 0 (su_PositiveState update) (su_NegativeState update) (su_VectorClock update) s;
             s = persist ev s
         in if su_Type update = DELTA_UPDATE
            then (case buildDeltaReply (ev_now ev) update s of (ack, s) \<Rightarrow> (Some ack, s))
            else (Some (buildFullReply (ev_now ev) s), s)))"

text \<open>
  The whole stream: it ends cleanly when the context is done or the peer closes it, and with an error
  when receiving or sending fails. \<open>Recv\<close> carries the update and whether the reply can be sent.
\<close>

datatype stream_event = Ctx_done | Recv_EOF | Recv_error | Recv StateUpdate bool

datatype stream_result = Stream_closed | Stream_recv_error | Stream_send_error | Stream_open

fun SyncState :: "service_env \<Rightarrow> stream_event list \<Rightarrow> CounterService \<Rightarrow> stream_result \<times> StateUpdate list \<times> CounterService" where
  "SyncState ev [] s = (Stream_open, [], s)"
| "SyncState ev (Ctx_done # es) s = (Stream_closed, [], s)"
| "SyncState ev (Recv_EOF # es) s = (Stream_closed, [], s)"
| "SyncState ev (Recv_error # es) s = (Stream_recv_error, [], s)"
| "SyncState ev (Recv update can_send # es) s =
     (case SyncState_recv ev update s of
        (None, s) \<Rightarrow> SyncState ev es s
      | (Some ack, s) \<Rightarrow>
          if can_send then (case SyncState ev es s of (r, acks, s) \<Rightarrow> (r, ack # acks, s))
          else (Stream_send_error, [], s))"

declare digits.simps [simp del]

section \<open>What the handlers leave alone\<close>

lemma walAppend_frame [simp]:
  "sv_nodeID (walAppend ev op k d p n c s) = sv_nodeID s"
  "sv_counter (walAppend ev op k d p n c s) = sv_counter s"
  "sv_clock (walAppend ev op k d p n c s) = sv_clock s"
  "sv_cluster (walAppend ev op k d p n c s) = sv_cluster s"
  "sv_store (walAppend ev op k d p n c s) = sv_store s"
  "sv_tags (walAppend ev op k d p n c s) = sv_tags s"
  "sv_lastSyncClock (walAppend ev op k d p n c s) = sv_lastSyncClock s"
  "sv_counterShards (walAppend ev op k d p n c s) = sv_counterShards s"
  by (simp_all add: walAppend_def split: option.split prod.split)

lemma persist_frame [simp]:
  "sv_nodeID (persist ev s) = sv_nodeID s"
  "sv_counter (persist ev s) = sv_counter s"
  "sv_clock (persist ev s) = sv_clock s"
  "sv_cluster (persist ev s) = sv_cluster s"
  "sv_wal (persist ev s) = sv_wal s"
  "sv_files (persist ev s) = sv_files s"
  "sv_tags (persist ev s) = sv_tags s"
  "sv_lastSyncClock (persist ev s) = sv_lastSyncClock s"
  "sv_counterShards (persist ev s) = sv_counterShards s"
  by (simp_all add: persist_def split: option.split prod.split)

lemma merge_remote_eq:
  "merge_remote p n c s = s\<lparr>sv_counter := (sv_counter s)\<lparr>positive := merge_max (positive (sv_counter s)) p,
       negative := merge_max (negative (sv_counter s)) n\<rparr>,
     sv_clock := (sv_clock s)\<lparr>clock := merge_max (clock (sv_clock s)) c\<rparr>\<rparr>"
  by (simp add: merge_remote_def pn_defs vc_defs)

lemma normalizeName_canonical [simp]: "canonical_name (normalizeName name) = canonical_name name"
  by (simp add: normalizeName_def canonical_name_def)

lemma normalizeName_colon_free: "colon_free name \<Longrightarrow> colon_free (normalizeName name)"
  by (simp add: normalizeName_def)

lemma normalizeName_value [simp]: "PN_ValueName (normalizeName name) p = PN_ValueName name p"
  using canonical_belongs [OF normalizeName_canonical] by (simp add: PN_ValueName_def)

section \<open>Properties of the counter operations\<close>

lemma normalizeName_belongs [simp]: "keyBelongsTo (normalizeName name) = keyBelongsTo name"
  using canonical_belongs [OF normalizeName_canonical] .

lemma normalizeName_key [simp]: "counterKey (normalizeName name) nodeID = counterKey name nodeID"
  by (simp add: counterKey_def normalizeName_def)

text \<open>C12: on a node whose id has no colon, \<open>Increment\<close> and \<open>Decrement\<close> answer with the old value of the named counter plus or minus the
  requested delta (1 when the request leaves it 0), with the empty name standing for the default counter; \<open>Reset\<close> answers 0 and forgets
  what it sent to each peer; \<open>GetValue\<close> gives what \<open>Increment\<close> answered. The value of any counter changes by the delta if the key that
  the update writes belongs to its namespace, and not at all otherwise; between names without colons the namespaces are disjoint, and no
  counter but the named one changes (a counter named \<open>a:b\<close> is counted in \<open>a\<close> too). This holds whether or not logging and saving succeed.\<close>

theorem counter_operations_respond:
  assumes "colon_free (pn_nodeID (sv_counter s))"
  shows "cr_CurrentValue (fst (Increment ev inc s)) =
      PN_ValueName (ir_CounterName inc) (sv_counter s) + req_delta (ir_Delta inc) \<and>
    cr_CurrentValue (fst (Decrement ev decr s)) =
      PN_ValueName (dr_CounterName decr) (sv_counter s) - req_delta (dr_Delta decr) \<and>
    cr_CurrentValue (fst (Reset ev name s)) = 0 \<and>
    sv_lastSyncClock (snd (snd (Reset ev name s))) = fmempty \<and>
    GetValue ev (ir_CounterName inc) (snd (Increment ev inc s)) = fst (Increment ev inc s) \<and>
    PN_ValueName other (sv_counter (snd (Increment ev inc s))) = PN_ValueName other (sv_counter s) +
      (if keyBelongsTo other (counterKey (ir_CounterName inc) (pn_nodeID (sv_counter s))) then req_delta (ir_Delta inc) else 0) \<and>
    PN_ValueName other (sv_counter (snd (Decrement ev decr s))) = PN_ValueName other (sv_counter s) -
      (if keyBelongsTo other (counterKey (dr_CounterName decr) (pn_nodeID (sv_counter s))) then req_delta (dr_Delta decr) else 0) \<and>
    (colon_free other \<and> colon_free (ir_CounterName inc) \<and> canonical_name other \<noteq> canonical_name (ir_CounterName inc) \<longrightarrow>
       PN_ValueName other (sv_counter (snd (Increment ev inc s))) = PN_ValueName other (sv_counter s)) \<and>
    (colon_free other \<and> colon_free (dr_CounterName decr) \<and> canonical_name other \<noteq> canonical_name (dr_CounterName decr) \<longrightarrow>
       PN_ValueName other (sv_counter (snd (Decrement ev decr s))) = PN_ValueName other (sv_counter s)) \<and>
    (colon_free other \<and> colon_free name \<and> canonical_name other \<noteq> canonical_name name \<longrightarrow>
       PN_ValueName other (sv_counter (snd (snd (Reset ev name s)))) = PN_ValueName other (sv_counter s))"
  using assms own_key [OF assms, of "ir_CounterName inc"] own_key [OF assms, of "dr_CounterName decr"]
  by (simp add: Increment_def Decrement_def Reset_def GetValue_def Let_def buildResponse_def normalizeName_colon_free
      ValueName_update_any belongs_iff_owner owner_counterKey ValueName_ResetName_other
      ValueName_ResetName [of "normalizeName name", simplified])

definition sample_env :: service_env where
  "sample_env = \<lparr>ev_now = 7, ev_io = all_ok, ev_set_ok = True\<rparr>"

theorem counter_operations_respond_witness:
  "cr_CurrentValue (fst (Increment sample_env \<lparr>ir_Delta = 5, ir_ClientId = '''', ir_Timestamp = 0, ir_CounterName = ''likes''\<rparr>
     (NewCounterService ''n1'' 5000 fmempty))) = 5"
proof -
  have "req_delta 5 = 5" by code_simp
  moreover have "PN_ValueName ''likes'' (NewPNCounter ''n1'') = 0" by code_simp
  ultimately show ?thesis
    using counter_operations_respond [of "NewCounterService ''n1'' 5000 fmempty" sample_env
      "\<lparr>ir_Delta = 5, ir_ClientId = '''', ir_Timestamp = 0, ir_CounterName = ''likes''\<rparr>"]
    by (simp add: NewCounterService_def NewPNCounter_def)
qed

text \<open>Sharding: with any shard count that \<open>SetShardCount\<close> can store below 2^32, every counter gets a shard number below
  the count, the same on every node; the computation panics exactly when the count is a multiple of 2^32.\<close>

theorem Shard_bound:
  "(0 < sv_counterShards s \<and> sv_counterShards s < 2 ^ 32 \<longrightarrow>
      (\<exists>r. Shard name s = Some r \<and> uint r < sv_counterShards s)) \<and>
   (1 < sv_counterShards s \<longrightarrow> (Shard name s = None \<longleftrightarrow> 2 ^ 32 dvd sv_counterShards s)) \<and>
   (sv_counterShards s = sv_counterShards s' \<longrightarrow> Shard name s = Shard name s') \<and>
   0 < sv_counterShards (SetShardCount n s)"
proof -
  have zero: "(word_of_int n :: uint32) = 0 \<longleftrightarrow> 2 ^ 32 dvd n" for n :: int
    by (simp add: word_of_int_eq_0_iff)
  have "uint (fnv32a name mod word_of_int n) < n" if "1 < n" "n < 2 ^ 32" for n :: int
  proof -
    have "uint (word_of_int n :: uint32) = n" using that by (simp add: uint_word_of_int)
    with that show ?thesis by (simp add: uint_mod)
  qed
  moreover have "\<not> 2 ^ 32 dvd n" if "1 < n" "n < 2 ^ 32" for n :: int
    using that zdvd_imp_le [of "2 ^ 32" n] by auto
  ultimately show ?thesis by (auto simp: Shard_def SetShardCount_def Let_def zero)
qed

theorem Shard_bound_witness:
  "\<exists>r. Shard ''likes'' (SetShardCount 16 (NewCounterService ''n1'' 5000 fmempty)) = Some r \<and> uint r < 16"
  using Shard_bound [of "SetShardCount 16 (NewCounterService ''n1'' 5000 fmempty)" "''likes''"]
  by (simp add: SetShardCount_def)

section \<open>The list of counters\<close>

interpretation add_names: keywise_loop "\<lambda>n _ names. fmupd n True names" "\<lambda>n _ _. Some True"
  by unfold_locales simp

lemma fold_names_lookup:
  "fmlookup (fold (\<lambda>n names. fmupd n True names) xs m) k = (if k \<in> set xs then Some True else fmlookup m k)"
  by (induction xs arbitrary: m) auto

definition known_counter :: "CounterService \<Rightarrow> string \<Rightarrow> bool" where
  "known_counter s n \<longleftrightarrow>
     n \<in> set (PN_Names (sv_counter s)) \<or> n |\<in>| fmdom (sv_tags s) \<or>
     n = ''default'' \<and> PN_ValueName ''default'' (sv_counter s) \<noteq> 0"

lemma dom_list_names:
  "n |\<in>| fmdom (list_names s) \<longleftrightarrow> known_counter s n \<or> n = ''default'' \<and> (\<forall>k. \<not> known_counter s k)"
proof -
  define base where "base = go_range (\<lambda>n _ names. fmupd n True names) (sv_tags s)
    (fold (\<lambda>n names. fmupd n True names) (PN_Names (sv_counter s)) fmempty)"
  define state where "state \<longleftrightarrow> PN_ValueName ''default'' (sv_counter s) \<noteq> 0 \<or> 0 < length (tags_of (sv_tags s) ''default'')"
  define names where "names = (if state then fmupd ''default'' True base else base)"
  have base: "k |\<in>| fmdom base \<longleftrightarrow> k \<in> set (PN_Names (sv_counter s)) \<or> k |\<in>| fmdom (sv_tags s)" for k
    unfolding base_def fmlookup_dom_iff add_names.range_lookup fold_names_lookup
    by (auto split: option.splits)
  have "''default'' |\<in>| fmdom (sv_tags s)" if "0 < length (tags_of (sv_tags s) ''default'')"
    using that by (auto simp: tags_of_def fmlookup_dom_iff split: option.splits)
  then have names: "k |\<in>| fmdom names \<longleftrightarrow> known_counter s k" for k
    by (auto simp: names_def base known_counter_def state_def split: if_splits)
  have "list_names s = (if names = fmempty then fmupd ''default'' True names else names)"
    by (simp add: list_names_def Let_def base_def state_def names_def)
  moreover have "names = fmempty \<longleftrightarrow> (\<forall>k. \<not> known_counter s k)"
    by (metis fmdom_empty fmrestrict_fset_dom fempty_iff fmrestrict_fset_null fset_eqI names)
  ultimately show ?thesis using names by auto
qed

lemma fold_infos:
  assumes "\<And>n. buildCounterInfo n s = Some (info n)"
  shows "fold (\<lambda>(n, _) res. if skip n then res
      else (case res of None \<Rightarrow> None | Some infos \<Rightarrow> map_option (\<lambda>i. infos @ [i]) (buildCounterInfo n s)))
      xs (Some acc) = Some (acc @ map info (filter (\<lambda>n. \<not> skip n) (map fst xs)))"
  by (induction xs arbitrary: acc) (auto simp: assms)

lemma containsTag_iff [simp]: "containsTag tags tag \<longleftrightarrow> tag \<in> set tags"
  by (induction tags) auto

lemma Shard_defined: "Shard n s = None \<longleftrightarrow> Shard k s = None"
  by (simp add: Shard_def Let_def)

lemma ListCounters_ok:
  assumes "Shard '''' s \<noteq> None"
  shows "\<exists>infos. ListCounters tag s = Some infos \<and>
    sorted (map ci_Name infos) \<and> distinct (map ci_Name infos) \<and>
    ci_Name ` set infos =
      {n. (known_counter s n \<or> n = ''default'' \<and> (\<forall>k. \<not> known_counter s k)) \<and>
          (tag = '''' \<or> tag \<in> set (tags_of (sv_tags s) n))} \<and>
    (\<forall>i \<in> set infos. ci_CurrentValue i = PN_ValueName (ci_Name i) (sv_counter s) \<and>
       ci_Tags i = tags_of (sv_tags s) (ci_Name i) \<and> Some (ci_Shard i) = Shard (ci_Name i) s)"
proof -
  define info where "info n = \<lparr>ci_Name = n, ci_CurrentValue = PN_ValueName n (sv_counter s),
    ci_Shard = the (Shard n s), ci_Tags = tags_of (sv_tags s) n\<rparr>" for n
  have shard: "Shard n s = Some (the (Shard n s))" for n using assms Shard_defined [of n s "''''"] by force
  have info: "buildCounterInfo n s = Some (info n)" for n
    by (subst buildCounterInfo_def, subst shard) (simp add: info_def)
  define skip where "skip n \<longleftrightarrow> tag \<noteq> '''' \<and> tag \<notin> set (tags_of (sv_tags s) n)" for n
  define ns where "ns = filter (\<lambda>n. \<not> skip n) (sorted_list_of_fset (fmdom (list_names s)))"
  have names: "map ci_Name (map info ns) = ns" by (simp add: info_def comp_def)
  have ns: "sorted ns" "distinct ns" "set ns = {n. n |\<in>| fmdom (list_names s) \<and> \<not> skip n}"
    by (auto simp: ns_def sorted_list_of_fset.rep_eq sorted_filter [where f = id, simplified])
  have "ListCounters tag s = Some (sort_key ci_Name (map info ns))"
    using fold_infos [of s info skip, OF info, of "sorted_list_of_fmap (list_names s)" "[]"]
    by (simp add: ListCounters_def Let_def go_range_def ns_def skip_def)
  also have "sort_key ci_Name (map info ns) = map info ns"
    by (rule sort_key_id_if_sorted) (simp only: names ns)
  finally have "ListCounters tag s = Some (map info ns)" .
  moreover have "ci_Name ` set (map info ns) = set ns" using names by (metis set_map)
  moreover have "\<forall>i \<in> set (map info ns). ci_CurrentValue i = PN_ValueName (ci_Name i) (sv_counter s) \<and>
       ci_Tags i = tags_of (sv_tags s) (ci_Name i) \<and> Some (ci_Shard i) = Shard (ci_Name i) s"
    using shard by (auto simp: info_def)
  ultimately show ?thesis
    using ns by (intro exI [of _ "map info ns"]) (simp only: names, auto simp: dom_list_names skip_def)
qed

text \<open>\<open>ListCounters\<close> lists each counter that owns a key or has tags, and the default counter when its
  value is not zero or there is no other, filtered by the requested tag, once each and in the order of
  their names, with its current value and tags (whenever the shard computation does not panic).\<close>

theorem ListCounters_spec:
  assumes "Shard '''' s \<noteq> None"
  shows "\<exists>infos. ListCounters tag s = Some infos \<and>
    sorted (map ci_Name infos) \<and> distinct (map ci_Name infos) \<and>
    ci_Name ` set infos =
      {n. (known_counter s n \<or> n = ''default'' \<and> (\<forall>k. \<not> known_counter s k)) \<and>
          (tag = '''' \<or> tag \<in> set (tags_of (sv_tags s) n))} \<and>
    (\<forall>i \<in> set infos. ci_CurrentValue i = PN_ValueName (ci_Name i) (sv_counter s) \<and>
       ci_Tags i = tags_of (sv_tags s) (ci_Name i) \<and> Some (ci_Shard i) = Shard (ci_Name i) s)"
  using assms by (rule ListCounters_ok)

theorem ListCounters_spec_witness:
  "\<exists>infos. ListCounters '''' (NewCounterService ''n1'' 5000 fmempty) = Some infos \<and> sorted (map ci_Name infos)"
proof -
  have "Shard '''' (NewCounterService ''n1'' 5000 fmempty) \<noteq> None" by (simp add: Shard_def NewCounterService_def)
  from ListCounters_spec [OF this, of "''''"] show ?thesis by (elim exE conjE, intro exI conjI)
qed

section \<open>Heartbeats\<close>

lemma lookup_AddOrUpdateMember_alive:
  "\<exists>m. fmlookup (members (AddOrUpdateMember i addr True hb M)) i = Some m \<and> m_Address m = addr \<and>
     m_Status m = StatusAlive \<and> m_IsActive m \<and> m_SuspectCount m = 0 \<and> m_LastHeartbeat m = hb"
  by (simp add: AddOrUpdateMember_def AddOrUpdateMemberStatus_def Let_def setStatus_def split: option.split)

text \<open>A heartbeat makes its sender an active member at its advertised address, whatever
  its status was, even Dead or Left; the heartbeat's answer lists exactly the active members and their
  number, so the sender is in it.\<close>

theorem heartbeat_revives:
  assumes "sv_cluster s = Some M" and "hr_Address req \<noteq> ''''"
  shows "\<exists>M' m. sv_cluster (snd (Heartbeat remote req s)) = Some M' \<and>
    fmlookup (members M') (hr_NodeId req) = Some m \<and>
    m_Status m = StatusAlive \<and> m_IsActive m \<and> m_Address m = hr_Address req \<and>
    unix_of_time (m_LastHeartbeat m) = hr_Timestamp req \<and>
    (0 < sint (hr_Priority req) \<longrightarrow> m_Priority m = hr_Priority req) \<and>
    set (hs_ActiveMembers (fst (Heartbeat remote req s))) =
      pb_member_of ` {m. (\<exists>i. fmlookup (members M') i = Some m) \<and> m_IsActive m} \<and>
    pb_member_of m \<in> set (hs_ActiveMembers (fst (Heartbeat remote req s))) \<and>
    hs_ClusterSize (fst (Heartbeat remote req s)) = int (length (hs_ActiveMembers (fst (Heartbeat remote req s))))"
proof -
  define M1 where "M1 = AddOrUpdateMember (hr_NodeId req) (hr_Address req) True (time_of_unix (hr_Timestamp req)) M"
  define M' where "M' = (if 0 < sint (hr_Priority req) then SetPriority (hr_NodeId req) (hr_Priority req) M1 else M1)"
  obtain m1 where m1: "fmlookup (members M1) (hr_NodeId req) = Some m1" "m_Address m1 = hr_Address req"
    "m_Status m1 = StatusAlive" "m_IsActive m1" "m_LastHeartbeat m1 = time_of_unix (hr_Timestamp req)"
    using lookup_AddOrUpdateMember_alive unfolding M1_def by blast
  define m where "m = (if 0 < sint (hr_Priority req) then m1\<lparr>m_Priority := hr_Priority req\<rparr> else m1)"
  have m: "fmlookup (members M') (hr_NodeId req) = Some m"
    using m1(1) by (simp add: M'_def m_def SetPriority_def)
  have s': "snd (Heartbeat remote req s) = s\<lparr>sv_cluster := Some M'\<rparr>"
    using assms by (simp add: Heartbeat_def Let_def M'_def M1_def)
  have active: "hs_ActiveMembers (fst (Heartbeat remote req s)) = map pb_member_of (filter m_IsActive (GetMembers M'))"
    and size: "hs_ClusterSize (fst (Heartbeat remote req s)) = int (length (hs_ActiveMembers (fst (Heartbeat remote req s))))"
    using assms by (simp_all add: Heartbeat_def Let_def M'_def M1_def)
  have "set (filter m_IsActive (GetMembers M')) = {m. (\<exists>i. fmlookup (members M') i = Some m) \<and> m_IsActive m}"
    by (auto simp: set_GetMembers)
  then have set: "set (hs_ActiveMembers (fst (Heartbeat remote req s))) =
      pb_member_of ` {m. (\<exists>i. fmlookup (members M') i = Some m) \<and> m_IsActive m}"
    by (simp only: active set_map)
  have act: "m_IsActive m" using m1(4) by (simp add: m_def)
  show ?thesis
  proof (intro exI conjI)
    show "sv_cluster (snd (Heartbeat remote req s)) = Some M'" by (simp add: s')
    show "pb_member_of m \<in> set (hs_ActiveMembers (fst (Heartbeat remote req s)))"
      unfolding set using m act by (intro imageI CollectI conjI exI)
  qed (use m m1 set size in \<open>auto simp: m_def\<close>)
qed

theorem heartbeat_revives_witness:
  "\<exists>M' m. sv_cluster (snd (Heartbeat None \<lparr>hr_NodeId = ''b'', hr_CurrentValue = 0, hr_Timestamp = 9, hr_Address = ''h:1'', hr_Priority = 2, hr_LeaderId = ''''\<rparr>
      (SetCluster (MarkDead ''b'' (AddMember 5 ''b'' ''addr'' (NewMembership ''a''))) (NewCounterService ''a'' 5000 fmempty)))) = Some M' \<and>
    fmlookup (members M') ''b'' = Some m \<and> m_Status m = StatusAlive"
proof -
  let ?s = "SetCluster (MarkDead ''b'' (AddMember 5 ''b'' ''addr'' (NewMembership ''a''))) (NewCounterService ''a'' 5000 fmempty)"
  let ?r = "\<lparr>hr_NodeId = ''b'', hr_CurrentValue = 0, hr_Timestamp = 9, hr_Address = ''h:1'', hr_Priority = 2, hr_LeaderId = ''''\<rparr>"
  have "sv_cluster ?s = Some (MarkDead ''b'' (AddMember 5 ''b'' ''addr'' (NewMembership ''a'')))"
    by (simp add: SetCluster_def)
  from heartbeat_revives [OF this, of ?r None] show ?thesis
    by (simp del: set_map) (elim exE conjE, intro exI conjI)
qed

end
