(* ===== verification/Recovery.thy ===== *)
theory Recovery
  imports Service
begin

text \<open>
  Durability: the state a node rebuilds when it starts (\<open>cmd/server/main.go\<close>, with \<open>Restore\<close> and \<open>ReplayWAL\<close>
  of the service) against the state it had when it went down.
\<close>

section \<open>Startup\<close>

text \<open>
  The part of \<open>main\<close> that builds the service: \<open>store\<close> is the Redis key space when persistence is enabled
  and the server answers, \<open>get_ok\<close> whether the load succeeds, \<open>walDir\<close> the directory when the log is enabled.
\<close>

definition startup ::
  "service_env \<Rightarrow> bool \<Rightarrow> string \<Rightarrow> int \<Rightarrow> int \<Rightarrow> redis option \<Rightarrow> string option
   \<Rightarrow> files \<Rightarrow> CounterService" where
  "startup ev get_ok nodeID port shards store walDir fs =
     (let s = SetShardCount shards (NewCounterService nodeID port fs);
          s = (case store of
                 None \<Rightarrow> s
               | Some db \<Rightarrow>
                   (let s = SetStore db s
                    in (case RS_Load get_ok nodeID db of Inl _ \<Rightarrow> s | Inr persisted \<Rightarrow> Restore persisted s)))
      in (case walDir of
            None \<Rightarrow> s
          | Some dir \<Rightarrow>
              (case NewWALStore (ev_io ev) dir of Inl _ \<Rightarrow> s | Inr w \<Rightarrow> snd (ReplayWAL ev (SetWAL w s)))))"

section \<open>Operations and their log entries\<close>

datatype service_op =
  Op_Increment IncrementRequest | Op_Decrement DecrementRequest | Op_Reset string | Op_Sync StateUpdate

fun run_op :: "service_env \<times> service_op \<Rightarrow> CounterService \<Rightarrow> CounterService" where
  "run_op (ev, Op_Increment req) s = snd (Increment ev req s)"
| "run_op (ev, Op_Decrement req) s = snd (Decrement ev req s)"
| "run_op (ev, Op_Reset name) s = snd (snd (Reset ev name s))"
| "run_op (ev, Op_Sync update) s = snd (SyncState_recv ev update s)"

fun op_mutations :: "service_env \<times> service_op \<Rightarrow> mutation list" where
  "op_mutations (ev, Op_Increment req) =
     [\<lparr>mu_now = ev_now ev, mu_counter = normalizeName (ir_CounterName req), mu_op = ''increment'',
       mu_delta = req_delta (ir_Delta req), mu_positive = fmempty, mu_negative = fmempty, mu_clock = fmempty\<rparr>]"
| "op_mutations (ev, Op_Decrement req) =
     [\<lparr>mu_now = ev_now ev, mu_counter = normalizeName (dr_CounterName req), mu_op = ''decrement'',
       mu_delta = req_delta (dr_Delta req), mu_positive = fmempty, mu_negative = fmempty, mu_clock = fmempty\<rparr>]"
| "op_mutations (ev, Op_Reset name) =
     [\<lparr>mu_now = ev_now ev, mu_counter = normalizeName name, mu_op = ''reset'', mu_delta = 0,
       mu_positive = fmempty, mu_negative = fmempty, mu_clock = fmempty\<rparr>]"
| "op_mutations (ev, Op_Sync update) =
     (if su_Type update = HEARTBEAT then []
      else [\<lparr>mu_now = ev_now ev, mu_counter = '''', mu_op = ''merge'', mu_delta = 0,
             mu_positive = su_PositiveState update, mu_negative = su_NegativeState update,
             mu_clock = su_VectorClock update\<rparr>])"

text \<open>The replicated state of a service: what must survive a crash.\<close>

definition core :: "CounterService \<Rightarrow> PNCounter \<times> VectorClock" where
  "core s = (sv_counter s, sv_clock s)"

definition replay_core :: "mutation \<Rightarrow> PNCounter \<times> VectorClock \<Rightarrow> PNCounter \<times> VectorClock" where
  "replay_core m c =
     (let s = (NewCounterService '''' 0 fmempty)\<lparr>sv_counter := fst c, sv_clock := snd c\<rparr>
      in core (replay_entry (mutation_entry 0 m) s))"

lemma replay_entry_core: "core (replay_entry (mutation_entry q m) s) = replay_core m (core s)"
  by (simp add: core_def replay_core_def mutation_entry_def merge_remote_def Let_def)

lemma fold_replay_core:
  "core (fold replay_entry (entries_from q ms) s) = fold replay_core ms (core s)"
  by (induction ms arbitrary: q s) (simp_all add: replay_entry_core del: replay_entry.simps)

lemma sync_core:
  "core (snd (SyncState_recv ev update s)) =
     (if su_Type update = HEARTBEAT then core s
      else core (merge_remote (su_PositiveState update) (su_NegativeState update) (su_VectorClock update) s))"
  by (simp add: SyncState_recv_def Let_def buildDeltaReply_def core_def split: option.split prod.split)

lemma run_op_core: "core (run_op x s) = fold replay_core (op_mutations x) (core s)"
proof (cases x)
  case (Pair ev op)
  then show ?thesis
    by (cases op)
      (simp_all add: Increment_def Decrement_def Reset_def Let_def sync_core, simp_all add: core_def
        replay_core_def mutation_entry_def merge_remote_def Let_def)
qed

lemma run_ops_core: "core (fold run_op xs s) = fold replay_core (concat (map op_mutations xs)) (core s)"
  by (induction xs arbitrary: s) (simp_all add: run_op_core)

section \<open>Operations on a node with a log\<close>

text \<open>The operations of a run, all of them with a file system that works.\<close>

definition good_runs :: "(service_env \<times> service_op) list \<Rightarrow> bool" where
  "good_runs xs \<longleftrightarrow> list_all (\<lambda>(ev, op). ev_io ev = all_ok) xs"

text \<open>The durable part of a node, and what an operation does to it.\<close>

definition durable :: "CounterService \<Rightarrow> string \<times> WALStore option \<times> files \<times> redis option" where
  "durable s = (sv_nodeID s, sv_wal s, sv_files s, sv_store s)"

definition log_mutation :: "service_env \<Rightarrow> mutation \<Rightarrow> CounterService \<Rightarrow> CounterService" where
  "log_mutation ev m =
     walAppend ev (mu_op m) (mu_counter m) (mu_delta m) (mu_positive m) (mu_negative m) (mu_clock m)"

lemma durable_cong:
  assumes "durable s = durable s'"
  shows "durable (walAppend ev op k d p n c s) = durable (walAppend ev op k d p n c s')"
  using assms by (auto simp: durable_def walAppend_def split: option.split prod.split)

lemma durable_persist: "sv_wal s \<noteq> None \<Longrightarrow> durable (persist ev s) = durable s"
  by (auto simp: persist_def)

lemma durable_merge_remote [simp]: "durable (merge_remote p n c s) = durable s"
  by (simp add: durable_def merge_remote_def)

lemma durable_buildDeltaReply [simp]: "durable (snd (buildDeltaReply now u s)) = durable s"
  by (simp add: buildDeltaReply_def Let_def durable_def split: prod.split)

lemma walAppend_wal: "sv_wal s \<noteq> None \<Longrightarrow> sv_wal (walAppend ev op k d p n c s) \<noteq> None"
  by (auto simp: walAppend_def split: prod.split)

lemma sync_durable:
  assumes "sv_wal s \<noteq> None" and "su_Type u \<noteq> HEARTBEAT"
  shows "durable (snd (SyncState_recv ev u s)) =
    durable (walAppend ev ''merge'' '''' 0 (su_PositiveState u) (su_NegativeState u) (su_VectorClock u) s)"
proof -
  define s1 where "s1 = merge_remote (su_PositiveState u) (su_NegativeState u) (su_VectorClock u) s"
  define s2 where "s2 = (case sv_cluster s1 of None \<Rightarrow> s1
    | Some M \<Rightarrow> if 0 < go_len (su_Membership u) then s1\<lparr>sv_cluster := Some (ApplyMembership (su_Membership u) M)\<rparr> else s1)"
  define s3 where "s3 = walAppend ev ''merge'' '''' 0 (su_PositiveState u) (su_NegativeState u) (su_VectorClock u) s2"
  have d2: "durable s2 = durable s" unfolding s2_def by (simp add: durable_def s1_def merge_remote_def split: option.split)
  then have "sv_wal s3 \<noteq> None" using assms(1) unfolding s3_def by (intro walAppend_wal) (simp add: durable_def)
  then have "durable (persist ev s3) = durable s3" by (rule durable_persist)
  moreover have "durable (snd (SyncState_recv ev u s)) = durable (persist ev s3)"
  proof (cases "su_Type u = DELTA_UPDATE")
    case True
    with assms(2) have "snd (SyncState_recv ev u s) = snd (buildDeltaReply (ev_now ev) u (persist ev s3))"
      by (simp add: SyncState_recv_def Let_def s1_def [symmetric] s2_def [symmetric] s3_def [symmetric] case_prod_beta)
    then show ?thesis by simp
  next
    case False
    with assms(2) show ?thesis
      by (simp add: SyncState_recv_def Let_def s1_def [symmetric] s2_def [symmetric] s3_def [symmetric])
  qed
  ultimately show ?thesis using durable_cong [OF d2] by (simp add: s3_def)
qed

lemma run_op_durable:
  assumes "sv_wal s \<noteq> None"
  shows "durable (run_op (ev, op) s) = durable (fold (log_mutation ev) (op_mutations (ev, op)) s)"
proof (cases op)
  case (Op_Sync u)
  with sync_durable [OF assms] show ?thesis
    by (cases "su_Type u = HEARTBEAT") (simp_all add: log_mutation_def SyncState_recv_def)
qed (use assms in \<open>auto simp: Increment_def Decrement_def Reset_def Let_def log_mutation_def durable_persist walAppend_wal
       intro!: durable_cong, simp_all add: durable_def\<close>)

lemma log_mutation_append:
  assumes "durable s = (n, Some w, fs, st)" and "ev_io ev = all_ok"
    and "mu_now m = ev_now ev" and "append_call n m (w, fs) = (w', fs')"
  shows "durable (log_mutation ev m s) = (n, Some w', fs', st)"
  using assms by (auto simp: durable_def log_mutation_def walAppend_def append_call_def split: prod.split)

lemma op_mutations_now: "m \<in> set (op_mutations (ev, op)) \<Longrightarrow> mu_now m = ev_now ev"
  by (cases op) (auto split: if_splits)

lemma run_ops_log:
  assumes "durable s = (n, Some w, fs, st)" and "good_runs xs"
    and "fold (append_call n) (concat (map op_mutations xs)) (w, fs) = (w', fs')"
  shows "durable (fold run_op xs s) = (n, Some w', fs', st)"
  using assms
proof (induction xs arbitrary: s w fs)
  case Nil
  then show ?case by simp
next
  case (Cons x xs)
  obtain ev op where x: "x = (ev, op)" by (cases x)
  have log: "durable s = (n, Some w, fs, st) \<Longrightarrow> fold (append_call n) ms (w, fs) = (w1, fs1) \<Longrightarrow>
      set ms \<subseteq> set (op_mutations x) \<Longrightarrow> durable (fold (log_mutation ev) ms s) = (n, Some w1, fs1, st)" for ms s w fs w1 fs1
  proof (induction ms arbitrary: s w fs)
    case (Cons m ms)
    obtain w2 fs2 where 2: "append_call n m (w, fs) = (w2, fs2)" by (cases "append_call n m (w, fs)")
    have "durable (log_mutation ev m s) = (n, Some w2, fs2, st)"
      using log_mutation_append [OF Cons.prems(1) _ _ 2] \<open>good_runs (x # xs)\<close> Cons.prems(3) x
      by (auto simp: good_runs_def dest: op_mutations_now)
    from Cons.IH [OF this] Cons.prems(2,3) 2 show ?case by simp
  qed simp
  obtain w1 fs1 where 1: "fold (append_call n) (op_mutations x) (w, fs) = (w1, fs1)"
    by (cases "fold (append_call n) (op_mutations x) (w, fs)")
  have "sv_wal s \<noteq> None" using Cons.prems(1) by (simp add: durable_def)
  from run_op_durable [OF this, of ev op] log [OF Cons.prems(1) 1] x
  have "durable (run_op x s) = (n, Some w1, fs1, st)" by simp
  from Cons.IH [OF this] Cons.prems(2,3) 1 show ?case by (simp add: good_runs_def)
qed

section \<open>What startup rebuilds\<close>

definition service_ok :: "CounterService \<Rightarrow> bool" where
  "service_ok s \<longleftrightarrow> pn_nodeID (sv_counter s) = sv_nodeID s \<and> vc_nodeID (sv_clock s) = sv_nodeID s \<and>
     pn_positive_counts (sv_counter s) \<and> counts_positive (clock (sv_clock s))"

lemma merge_max_from_empty: "counts_positive m \<Longrightarrow> merge_max fmempty m = m"
  by (rule counts_positive_ext) (simp_all add: counts_positive_merge_max gget_merge_max_sint gget_nonneg)

lemma core_Restore_fresh:
  assumes "service_ok s" and "core r = (NewPNCounter (sv_nodeID s), NewVectorClock (sv_nodeID s))"
  shows "core (Restore (Some (persisted_state s)) r) = core s"
proof -
  have "core (Restore (Some (persisted_state s)) r) =
      ((sv_counter s)\<lparr>pn_nodeID := sv_nodeID s\<rparr>, (sv_clock s)\<lparr>vc_nodeID := sv_nodeID s\<rparr>)"
    using assms
    by (simp add: core_def Restore_def persisted_state_def merge_remote_eq Let_def merge_max_from_empty
        pn_positive_counts_def service_ok_def pn_defs vc_defs)
  with assms(1) show ?thesis by (simp add: core_def service_ok_def)
qed

lemma Restore_frame [simp]:
  "sv_nodeID (Restore st s) = sv_nodeID s" "sv_wal (Restore st s) = sv_wal s" "sv_files (Restore st s) = sv_files s"
  by (simp_all add: Restore_def merge_remote_def Let_def split: option.split)

lemma ReplayWAL_holds:
  assumes "sv_wal s = Some w" and "ev_io ev = all_ok"
    and "holds_log (sv_nodeID s) w (sv_files s) (entries_from q ms)"
    and "list_all entry_ok (entries_from q ms)"
  shows "fst (ReplayWAL ev s) = None \<and> core (snd (ReplayWAL ev s)) = fold replay_core ms (core s)"
  using assms Replay_holds [OF assms(3,4)] fold_replay_core [of q ms "s\<lparr>sv_wal := w'\<rparr>" for w']
  by (simp add: ReplayWAL_def core_def)

lemma startup_core:
  assumes "service_ok s" and "RS_Load True (sv_nodeID s) db = Inr (Some (persisted_state s))"
    and "ev_io ev = all_ok" and "holds_log (sv_nodeID s) \<lparr>w_dir = dir, w_file = None, w_seq = 0\<rparr> fs (entries_from q ms)"
    and "list_all entry_ok (entries_from q ms)"
  shows "core (startup ev True (sv_nodeID s) port shards (Some db) (Some dir) fs) = fold replay_core ms (core s)"
proof -
  let ?w = "\<lparr>w_dir = dir, w_file = None, w_seq = 0\<rparr>"
  let ?r0 = "SetStore db (SetShardCount shards (NewCounterService (sv_nodeID s) port fs))"
  let ?r1 = "SetWAL ?w (Restore (Some (persisted_state s)) ?r0)"
  have "core ?r1 = core s"
    using core_Restore_fresh [OF assms(1), of ?r0]
    by (simp add: core_def SetWAL_def SetStore_def SetShardCount_def NewCounterService_def Let_def)
  moreover have "core (snd (ReplayWAL ev ?r1)) = fold replay_core ms (core ?r1)"
    using assms(3-5) ReplayWAL_holds [of ?r1 ?w ev q ms]
    by (simp add: SetWAL_def SetStore_def SetShardCount_def NewCounterService_def Let_def)
  moreover have "startup ev True (sv_nodeID s) port shards (Some db) (Some dir) fs = snd (ReplayWAL ev ?r1)"
    using assms(2,3) by (simp add: startup_def NewWALStore_def all_ok_def Let_def)
  ultimately show ?thesis by simp
qed

lemma RS_Load_Save:
  "state_utf8 st \<Longrightarrow> marshal_state st = Some d \<Longrightarrow> RS_Load True n (fmupd (stateKey n) d db) = Inr (Some st)"
  by (simp add: RS_Load_def unmarshal_marshal_state)

lemma Snapshot_durable:
  assumes "sv_wal s = Some w" and "sv_store s = Some db" and "ev_io ev = all_ok" and "ev_set_ok ev"
    and "marshal_state (persisted_state s) = Some d"
  shows "\<exists>w1 fs1. durable (Snapshot ev s) = (sv_nodeID s, Some w1, fs1, Some (fmupd (stateKey (sv_nodeID s)) d db)) \<and>
    core (Snapshot ev s) = core s \<and> w_seq w1 = 0 \<and> w_dir w1 = w_dir w \<and> holds_log (sv_nodeID s) w1 fs1 []"
proof -
  obtain w1 fs1 where "Truncate all_ok (sv_nodeID s) w (sv_files s) = (Inr (), w1, fs1)" "w_seq w1 = 0"
    "w_dir w1 = w_dir w" "holds_log (sv_nodeID s) w1 fs1 []" using Truncate_holds by blast
  with assms show ?thesis
    by (simp add: Snapshot_def snapshot_save_def snapshot_truncate_def RS_Save_def durable_def core_def)
qed

lemma snapshot_run_recovers:
  assumes "service_ok s" and "sv_wal s = Some w" and "sv_store s = Some db"
    and "ev_io ev = all_ok" and "ev_set_ok ev" and "state_utf8 (persisted_state s)"
    and "good_runs xs" and "list_all entry_ok (entries_from 0 (concat (map op_mutations xs)))"
    and "ev_io ev' = all_ok" and "s' = fold run_op xs (Snapshot ev s)"
  shows "\<exists>w2. sv_wal s' = Some w2 \<and> holds_log (sv_nodeID s) w2 (sv_files s') (entries_from 0 (concat (map op_mutations xs)))"
    and "core (startup ev' True (sv_nodeID s) port shards (sv_store s') (Some (w_dir w)) (sv_files s')) = core s'"
proof -
  let ?n = "sv_nodeID s" and ?ms = "concat (map op_mutations xs)"
  obtain d where d: "marshal_state (persisted_state s) = Some d" by (simp add: marshal_state_def)
  obtain w1 fs1 where 1: "durable (Snapshot ev s) = (?n, Some w1, fs1, Some (fmupd (stateKey ?n) d db))"
    "core (Snapshot ev s) = core s" "w_seq w1 = 0" "w_dir w1 = w_dir w" "holds_log ?n w1 fs1 []"
    using Snapshot_durable [OF assms(2-5) d] by blast
  obtain w2 fs2 where 2: "fold (append_call ?n) ?ms (w1, fs1) = (w2, fs2)"
    by (cases "fold (append_call ?n) ?ms (w1, fs1)")
  have d2: "durable s' = (?n, Some w2, fs2, Some (fmupd (stateKey ?n) d db))"
    using run_ops_log [OF 1(1) assms(7) 2] assms(10) by simp
  have log: "holds_log ?n w2 fs2 (entries_from 0 ?ms)"
    using wal.run_holds [of ?n "(w1, fs1)" "[]" ?ms] 1 2 assms(8) by (simp add: logged_append_call)
  show "\<exists>w2. sv_wal s' = Some w2 \<and> holds_log ?n w2 (sv_files s') (entries_from 0 ?ms)" using d2 log by (simp add: durable_def)
  have dir: "w_dir w2 = w_dir w"
    using fold_append_call_dir [of ?n ?ms "(w1, fs1)"] 1 2 by simp
  have "holds_log ?n \<lparr>w_dir = w_dir w, w_file = None, w_seq = 0\<rparr> fs2 (entries_from 0 ?ms)"
    by (rule holds_log_restart [OF log]) (simp_all add: dir)
  from startup_core [OF assms(1) RS_Load_Save [OF assms(6) d] assms(9) this assms(8)] d2
  have "core (startup ev' True ?n port shards (sv_store s') (Some (w_dir w)) (sv_files s')) =
      fold replay_core ?ms (core s)"
    by (simp add: durable_def)
  also have "\<dots> = core s'" using run_ops_core [of xs "Snapshot ev s"] 1(2) assms(10) by simp
  finally show "core (startup ev' True ?n port shards (sv_store s') (Some (w_dir w)) (sv_files s')) = core s'" .
qed

section \<open>Properties\<close>

text \<open>C4: crash recovery: a node with a store and a log takes a snapshot, performs any sequence of
  increments, decrements, resets and merges of peer updates, and crashes at the end of it; the state that
  startup rebuilds from the snapshot and the log has the same counts and the same vector clock as the
  node had. It needs working files, UTF-8 names, log lines below the scanner's limit, and positive counts.\<close>

theorem crash_recovery:
  assumes "service_ok s" and "sv_wal s = Some w" and "sv_store s = Some db"
    and "ev_io ev = all_ok" and "ev_set_ok ev" and "state_utf8 (persisted_state s)"
    and "good_runs xs" and "list_all entry_ok (entries_from 0 (concat (map op_mutations xs)))"
    and "ev_io ev' = all_ok" and "s' = fold run_op xs (Snapshot ev s)"
  shows "core (startup ev' True (sv_nodeID s) port shards (sv_store s') (Some (w_dir w)) (sv_files s')) = core s'"
  using assms by (rule snapshot_run_recovers(2))

definition log_node :: CounterService where
  "log_node = SetWAL \<lparr>w_dir = ''wal'', w_file = None, w_seq = 0\<rparr> (SetStore fmempty (NewCounterService ''n1'' 5000 fmempty))"

definition log_run :: "(service_env \<times> service_op) list" where
  "log_run = [(sample_env, Op_Increment \<lparr>ir_Delta = 5, ir_ClientId = '''', ir_Timestamp = 0, ir_CounterName = ''likes''\<rparr>)]"

definition log_after :: CounterService where
  "log_after = fold run_op log_run (Snapshot sample_env log_node)"

lemma log_node_ok: "service_ok log_node \<and> state_utf8 (persisted_state log_node)"
  by (simp add: service_ok_def log_node_def SetWAL_def SetStore_def NewCounterService_def pn_positive_counts_def
      persisted_state_def state_utf8_def keys_ok_def pn_defs vc_defs)

lemma req_delta_5: "req_delta 5 = 5"
  by code_simp

lemma log_run_ok: "good_runs log_run" "list_all entry_ok (entries_from 0 (concat (map op_mutations log_run)))"
proof -
  show "good_runs log_run" by (simp add: good_runs_def log_run_def sample_env_def)
  have "concat (map op_mutations log_run) = [sample_mutation]"
    by (simp add: log_run_def sample_env_def req_delta_5 normalizeName_def sample_mutation_def)
  then show "list_all entry_ok (entries_from 0 (concat (map op_mutations log_run)))" by (simp add: sample_entry_ok)
qed

theorem crash_recovery_witness:
  "core (startup sample_env True ''n1'' 5000 1 (sv_store log_after) (Some ''wal'') (sv_files log_after)) = core log_after"
proof -
  let ?w = "\<lparr>w_dir = ''wal'', w_file = None, w_seq = 0\<rparr>"
  have n: "sv_nodeID log_node = ''n1''" "sv_wal log_node = Some ?w" "sv_store log_node = Some fmempty"
    by (simp_all add: log_node_def SetWAL_def SetStore_def NewCounterService_def)
  have env: "ev_io sample_env = all_ok" "ev_set_ok sample_env" by (simp_all add: sample_env_def)
  from crash_recovery [OF _ n(2,3) env _ log_run_ok env(1) log_after_def, of 5000 1] log_node_ok
  show ?thesis by (simp add: n)
qed

text \<open>C14: what is persisted is read back: for every log entry and every state with UTF-8 strings, decoding the JSON text that
  the encoder writes gives the value back, whatever characters its names contain; the text of an entry is a single
  line; and a text cut short anywhere is refused, so that a torn record is never mistaken for another one.\<close>

theorem json_roundtrip:
  assumes "entry_utf8 e" and "state_utf8 st" and "marshal_entry e = Some line" and "marshal_state st = Some data"
  shows "unmarshal_entry line = Some e \<and> newline \<notin> set line \<and> carriage_return \<notin> set line \<and>
    unmarshal_state data = Some st \<and>
    (\<forall>k < length line. unmarshal_entry (take k line) = None) \<and>
    (\<forall>k < length data. unmarshal_state (take k data) = None)"
proof -
  have line: "line = entry_text e" using assms(3) by (simp add: marshal_entry_def)
  have "\<forall>k < length line. unmarshal_entry (take k line) = None" using unmarshal_entry_cut [OF assms(1)] line by simp
  moreover have "\<forall>k < length data. unmarshal_state (take k data) = None"
    using unmarshal_state_cut [OF assms(2,4)] by blast
  ultimately show ?thesis
    using unmarshal_entry_text [OF assms(1)] entry_text_line(3,4) [OF assms(1)] unmarshal_marshal_state [OF assms(2,4)] line
    by simp
qed

definition sample_tagged :: CounterState where
  "sample_tagged = \<lparr>st_Positive = fmupd ''a&b:n1'' 5 fmempty, st_Negative = fmempty, st_Clock = fmempty,
     st_Tags = fmupd ''a&b'' [''x'', [CHR 0x0A]] fmempty\<rparr>"

theorem json_roundtrip_witness:
  "unmarshal_entry (the (marshal_entry (mutation_entry 1 sample_mutation))) = Some (mutation_entry 1 sample_mutation) \<and>
   unmarshal_state (the (marshal_state sample_tagged)) = Some sample_tagged"
proof -
  have e: "entry_utf8 (mutation_entry 1 sample_mutation)" using sample_entry_ok(1) by (simp add: entry_ok_def)
  have "sorted_list_of_fmap (st_Tags sample_tagged) = [(''a&b'', [''x'', [CHR 0x0A]])]"
    by (simp add: sample_tagged_def sorted_list_of_fmap_def sorted_list_of_fset_def)
  then have st: "state_utf8 sample_tagged"
    by (simp add: state_utf8_def valid_utf8_ascii sample_tagged_def keys_ok_upd)
  show ?thesis using json_roundtrip [OF e st] by (simp add: marshal_entry_def marshal_state_def)
qed

text \<open>C39: a crash between the two steps of a snapshot counts twice: when the state has been saved but
  the log not yet truncated, startup applies the logged increment again on top of the saved state that contains it.\<close>

theorem snapshot_crash_double_counts:
  assumes "service_ok s" and "sv_wal s = Some w" and "sv_store s = Some db"
    and "ev_set_ok ev" and "state_utf8 (persisted_state s)"
    and "holds_log (sv_nodeID s) w (sv_files s) [mutation_entry 1 m]"
    and "entry_ok (mutation_entry 1 m)" and "mu_op m = ''increment''"
    and "ev_io ev' = all_ok" and "colon_free (mu_counter m)" and "colon_free (sv_nodeID s)"
    and "snapshot_save ev (persisted_state s) s = (True, s')"
  shows "PN_ValueName (mu_counter m) (sv_counter (startup ev' True (sv_nodeID s) port shards (sv_store s')
      (Some (w_dir w)) (sv_files s'))) = PN_ValueName (mu_counter m) (sv_counter s) + mu_delta m"
proof -
  obtain d where d: "marshal_state (persisted_state s) = Some d" by (simp add: marshal_state_def)
  with assms(3,4,12) have s': "sv_store s' = Some (fmupd (stateKey (sv_nodeID s)) d db)" "sv_files s' = sv_files s"
    by (auto simp: snapshot_save_def RS_Save_def)
  have log: "holds_log (sv_nodeID s) \<lparr>w_dir = w_dir w, w_file = None, w_seq = 0\<rparr> (sv_files s) (entries_from 0 [m])"
    using holds_log_restart [OF assms(6), of "\<lparr>w_dir = w_dir w, w_file = None, w_seq = 0\<rparr>"] by simp
  have "core (startup ev' True (sv_nodeID s) port shards (sv_store s') (Some (w_dir w)) (sv_files s')) =
      replay_core m (core s)"
    using startup_core [OF assms(1) RS_Load_Save [OF assms(5) d] assms(9) log] assms(7)
    by (simp add: s')
  then have "sv_counter (startup ev' True (sv_nodeID s) port shards (sv_store s') (Some (w_dir w)) (sv_files s')) =
      PN_IncrementName (mu_counter m) (mu_delta m) (sv_counter s)"
    using assms(8) by (simp add: core_def replay_core_def mutation_entry_def Let_def)
  with assms(1,10,11) show ?thesis by (simp add: ValueName_IncrementName service_ok_def)
qed

definition logged_node :: CounterService where
  "logged_node = (NewCounterService ''n1'' 5000
      (fmupd (walPath \<lparr>w_dir = ''wal'', w_file = None, w_seq = 1\<rparr> ''n1'') (log_text [mutation_entry 1 sample_mutation]) fmempty))
     \<lparr>sv_wal := Some \<lparr>w_dir = ''wal'', w_file = None, w_seq = 1\<rparr>, sv_store := Some fmempty,
      sv_counter := PN_IncrementName ''likes'' 5 (NewPNCounter ''n1''),
      sv_clock := VC_IncrementName ''likes'' (NewVectorClock ''n1'')\<rparr>"

theorem snapshot_crash_double_counts_witness:
  "PN_ValueName ''likes'' (sv_counter (startup sample_env True ''n1'' 5000 1
      (sv_store (snd (snapshot_save sample_env (persisted_state logged_node) logged_node))) (Some ''wal'')
      (sv_files (snd (snapshot_save sample_env (persisted_state logged_node) logged_node))))) =
   PN_ValueName ''likes'' (sv_counter logged_node) + 5"
proof -
  let ?w = "\<lparr>w_dir = ''wal'', w_file = None, w_seq = 1\<rparr>"
  have n: "sv_nodeID logged_node = ''n1''" "sv_wal logged_node = Some ?w" "sv_store logged_node = Some fmempty"
    by (simp_all add: logged_node_def NewCounterService_def)
  have env: "ev_io sample_env = all_ok" "ev_set_ok sample_env" by (simp_all add: sample_env_def)
  have "pn_positive_counts (PN_IncrementName ''likes'' 5 (NewPNCounter ''n1''))"
    and "counts_positive (clock (VC_IncrementName ''likes'' (NewVectorClock ''n1'')))"
    by code_simp+
  then have ok: "service_ok logged_node"
    by (simp add: service_ok_def logged_node_def NewCounterService_def pn_defs vc_defs)
  have utf8: "state_utf8 (persisted_state logged_node)"
    by (simp add: state_utf8_def persisted_state_def logged_node_def NewCounterService_def pn_defs vc_defs counterKey_def
        keys_ok_upd valid_utf8_ascii)
  have log: "holds_log (sv_nodeID logged_node) ?w (sv_files logged_node) [mutation_entry 1 sample_mutation]"
    by (simp add: holds_log_def logged_node_def NewCounterService_def)
  have save: "snapshot_save sample_env (persisted_state logged_node) logged_node =
      (True, snd (snapshot_save sample_env (persisted_state logged_node) logged_node))"
    by (simp add: snapshot_save_def n RS_Save_def env marshal_state_def)
  have m: "mu_op sample_mutation = ''increment''" "mu_counter sample_mutation = ''likes''" "mu_delta sample_mutation = 5"
    by (simp_all add: sample_mutation_def)
  from snapshot_crash_double_counts [OF ok n(2,3) env(2) utf8 log sample_entry_ok(1) m(1) env(1) _ _ save, of 5000 1]
  show ?thesis by (simp add: n m)
qed

end
