(* ===== verification/Circuit.thy ===== *)
theory Circuit
  imports Go_Prelude
begin

text \<open>
  \<open>internal/gossip/circuit.go\<close>: the circuit breaker the gossip engine keeps per peer. \<open>time.Time{}\<close> is the
  time 0, before every time of the clock. The failure counter is a Go \<open>int\<close> that counts single
  attempts; it stays far below its bound, and is an unbounded integer here.
\<close>

record CircuitBreaker =
  cb_failures :: int
  cb_openUntil :: go_time
  cb_maxFailures :: int
  cb_cooldown :: duration

definition newCircuitBreaker :: "int \<Rightarrow> duration \<Rightarrow> CircuitBreaker" where
  "newCircuitBreaker maxFailures cooldown =
     (let maxFailures = (if maxFailures \<le> 0 then 3 else maxFailures);
          cooldown = (if cooldown \<le> 0 then 30 * second else cooldown)
      in \<lparr>cb_failures = 0, cb_openUntil = 0, cb_maxFailures = maxFailures, cb_cooldown = cooldown\<rparr>)"

definition Allow :: "go_time \<Rightarrow> CircuitBreaker \<Rightarrow> bool" where
  "Allow now c = (if now < cb_openUntil c then False else True)"

definition Success :: "CircuitBreaker \<Rightarrow> CircuitBreaker" where
  "Success c = c\<lparr>cb_failures := 0, cb_openUntil := 0\<rparr>"

definition Failure :: "go_time \<Rightarrow> CircuitBreaker \<Rightarrow> CircuitBreaker" where
  "Failure now c =
     (let c = c\<lparr>cb_failures := cb_failures c + 1\<rparr>
      in if cb_maxFailures c \<le> cb_failures c then c\<lparr>cb_openUntil := now + cb_cooldown c\<rparr> else c)"

definition CB_State :: "go_time \<Rightarrow> CircuitBreaker \<Rightarrow> int \<times> bool" where
  "CB_State now c = (cb_failures c, now < cb_openUntil c)"

section \<open>Histories\<close>

text \<open>What a peer's attempts report to its breaker: a success, or a failure at some time.\<close>

datatype attempt = Succeeded | Failed go_time

fun record_attempt :: "attempt \<Rightarrow> CircuitBreaker \<Rightarrow> CircuitBreaker" where
  "record_attempt Succeeded c = Success c"
| "record_attempt (Failed t) c = Failure t c"

text \<open>The failures at the end of a history, and the time of the last one.\<close>

definition trailing_failures :: "attempt list \<Rightarrow> attempt list" where
  "trailing_failures hist = takeWhile (\<lambda>a. a \<noteq> Succeeded) (rev hist)"

lemma breaker_after:
  fixes hist maxFailures cooldown
  defines "c \<equiv> fold record_attempt hist (newCircuitBreaker maxFailures cooldown)"
  shows "cb_failures c = int (length (trailing_failures hist)) \<and>
    cb_maxFailures c = (if maxFailures \<le> 0 then 3 else maxFailures) \<and>
    cb_cooldown c = (if cooldown \<le> 0 then 30 * second else cooldown) \<and>
    cb_openUntil c =
      (if cb_failures c < cb_maxFailures c then 0
       else (case last hist of Failed t \<Rightarrow> t + cb_cooldown c | Succeeded \<Rightarrow> 0))"
  unfolding c_def
proof (induction hist rule: rev_induct)
  case Nil
  then show ?case by (simp add: newCircuitBreaker_def trailing_failures_def)
next
  case (snoc a hist)
  then show ?case
    by (cases a) (simp_all add: Success_def Failure_def Let_def trailing_failures_def)
qed

section \<open>Properties\<close>

text \<open>C33: after any history of attempts the breaker counts exactly the failures since the last success;
  it refuses an attempt exactly when there are at least \<open>maxFailures\<close> of them and the last one is less
  than the cooldown ago; so a success closes it at once and the cooldown reopens it (\<open>maxFailures\<close>
  defaults to 3 and the cooldown to 30 seconds when they are not positive).\<close>

theorem breaker_spec:
  assumes "0 \<le> now"
  shows "cb_failures (fold record_attempt hist (newCircuitBreaker maxFailures cooldown)) =
      int (length (trailing_failures hist)) \<and>
    (\<not> Allow now (fold record_attempt hist (newCircuitBreaker maxFailures cooldown)) \<longleftrightarrow>
       (if maxFailures \<le> 0 then 3 else maxFailures) \<le> int (length (trailing_failures hist)) \<and>
       (\<exists>t. last hist = Failed t \<and> now < t + (if cooldown \<le> 0 then 30 * second else cooldown)))"
  using breaker_after [of hist maxFailures cooldown] assms
  by (auto simp: Allow_def split: attempt.splits)

theorem breaker_spec_witness:
  "\<not> Allow 100 (fold record_attempt [Succeeded, Failed 90, Failed 95] (newCircuitBreaker 2 10)) \<and>
   Allow 105 (fold record_attempt [Succeeded, Failed 90, Failed 95] (newCircuitBreaker 2 10)) \<and>
   Allow 100 (fold record_attempt [Failed 90, Failed 95, Succeeded] (newCircuitBreaker 2 10))"
  using breaker_spec [of 100 "[Succeeded, Failed 90, Failed 95]" 2 10]
    breaker_spec [of 105 "[Succeeded, Failed 90, Failed 95]" 2 10]
    breaker_spec [of 100 "[Failed 90, Failed 95, Succeeded]" 2 10]
  by (simp add: trailing_failures_def)

end
