(* ===== verification/Gossip.thy ===== *)
theory Gossip
  imports Recovery Circuit
begin

text \<open>
  \<open>internal/gossip/engine.go\<close>: the gossip engine. The counter, the clock, the member table and the log it
  shares with the service are the fields of the service record; an operation that touches them works on
  the pair of engine and service. A connection is known by its peer's address only.

  One exchange with a peer sees the network through a \<open>peer_net\<close>: whether the dial and the opening of the stream
  for attempt \<open>i\<close> succeed, whether the send of attempt \<open>i\<close> succeeds, and what is received. Other handlers of
  the node may run while the exchange is under way; \<open>others\<close> is what they do to the service.
  Metrics, spans, logs and the sleeps between attempts are left out.
\<close>

section \<open>State\<close>

record GossipEngine =
  ge_nodeID :: string
  ge_interval :: duration
  ge_connections :: "unit gomap"
  ge_syncing :: "bool gomap"
  ge_lastSync :: "int64 gomap gomap"
  ge_breakers :: "CircuitBreaker gomap"
  ge_hasWAL :: bool
  ge_apiKey :: string
  ge_compression :: bool
  ge_round :: int
  ge_fullSyncInterval :: int
  ge_maxRetries :: nat
  ge_backoffBase :: duration
  ge_backoffMax :: duration
  ge_circuitFailures :: int
  ge_circuitCooldown :: duration

definition NewGossipEngine :: "string \<Rightarrow> duration \<Rightarrow> GossipEngine" where
  "NewGossipEngine nodeID interval =
     (let interval = (if interval \<le> 0 then 5 * second else interval)
      in \<lparr>ge_nodeID = nodeID, ge_interval = interval, ge_connections = fmempty, ge_syncing = fmempty,
          ge_lastSync = fmempty, ge_breakers = fmempty, ge_hasWAL = False, ge_apiKey = [], ge_compression = False,
          ge_round = 0, ge_fullSyncInterval = 10, ge_maxRetries = 3, ge_backoffBase = 250 * millisecond,
          ge_backoffMax = 2 * second, ge_circuitFailures = 3, ge_circuitCooldown = 30 * second\<rparr>)"

definition breaker :: "string \<Rightarrow> GossipEngine \<Rightarrow> CircuitBreaker \<times> GossipEngine" where
  "breaker address g =
     (case fmlookup (ge_breakers g) address of
        Some b \<Rightarrow> (b, g)
      | None \<Rightarrow>
          (let b = newCircuitBreaker (ge_circuitFailures g) (ge_circuitCooldown g)
           in (b, g\<lparr>ge_breakers := fmupd address b (ge_breakers g)\<rparr>)))"

section \<open>Configuration\<close>

definition GE_SetWAL :: "bool \<Rightarrow> GossipEngine \<Rightarrow> GossipEngine" where
  "GE_SetWAL has_wal g = g\<lparr>ge_hasWAL := has_wal\<rparr>"

definition SetCircuitBreakerConfig :: "int \<Rightarrow> duration \<Rightarrow> GossipEngine \<Rightarrow> GossipEngine" where
  "SetCircuitBreakerConfig failures cooldown g =
     (let g = (if 0 < failures then g\<lparr>ge_circuitFailures := failures\<rparr> else g)
      in g\<lparr>ge_circuitCooldown := cooldown\<rparr>)"

definition SetFullSyncInterval :: "int \<Rightarrow> GossipEngine \<Rightarrow> GossipEngine" where
  "SetFullSyncInterval rounds g = (if 0 < rounds then g\<lparr>ge_fullSyncInterval := rounds\<rparr> else g)"

definition GE_SetClientConfig :: "string \<Rightarrow> bool \<Rightarrow> GossipEngine \<Rightarrow> GossipEngine" where
  "GE_SetClientConfig apiKey compression g = g\<lparr>ge_apiKey := apiKey, ge_compression := compression\<rparr>"

definition InvalidateBaselines :: "GossipEngine \<Rightarrow> GossipEngine" where
  "InvalidateBaselines g = g\<lparr>ge_lastSync := fmempty\<rparr>"

text \<open>The product is computed in the 64 bits of a \<open>time.Duration\<close>.\<close>

definition backoff :: "GossipEngine \<Rightarrow> nat \<Rightarrow> duration" where
  "backoff g attempt =
     (let d = sint (word_of_int (ge_backoffBase g) * push_bit attempt (1 :: int64))
      in if ge_backoffMax g < d then ge_backoffMax g else d)"

section \<open>Connections\<close>

text \<open>What the network does during one exchange: whether the \<open>i\<close>-th dial, stream, send and receive succeed, and the time at which the
  exchange has failed, if it does.\<close>

record peer_net =
  net_dial :: "nat \<Rightarrow> bool"
  net_stream :: "nat \<Rightarrow> bool"
  net_send :: "nat \<Rightarrow> bool"
  net_recv :: "nat \<Rightarrow> StateUpdate option"
  net_failed_at :: go_time

definition getOrCreateStream :: "bool \<Rightarrow> bool \<Rightarrow> string \<Rightarrow> GossipEngine \<Rightarrow> bool \<times> GossipEngine" where
  "getOrCreateStream dial_ok stream_ok address g =
     (case fmlookup (ge_connections g) address of
        Some _ \<Rightarrow> (stream_ok, g)
      | None \<Rightarrow>
          if \<not> dial_ok then (False, g)
          else (stream_ok, g\<lparr>ge_connections := fmupd address () (ge_connections g)\<rparr>))"

definition evictConn :: "string \<Rightarrow> GossipEngine \<Rightarrow> GossipEngine" where
  "evictConn address g =
     (case fmlookup (ge_connections g) address of
        Some _ \<Rightarrow> g\<lparr>ge_connections := fmdrop address (ge_connections g)\<rparr> | None \<Rightarrow> g)"

section \<open>One exchange with a peer\<close>

text \<open>The retry loop: \<open>left\<close> attempts remain, \<open>has_stream\<close> says whether \<open>stream\<close> is not \<open>nil\<close>.\<close>

fun sync_loop ::
  "peer_net \<Rightarrow> string \<Rightarrow> nat \<Rightarrow> nat \<Rightarrow> bool \<Rightarrow> GossipEngine \<Rightarrow> StateUpdate option \<times> GossipEngine" where
  "sync_loop net address attempt 0 has_stream g = (None, g)"
| "sync_loop net address attempt (Suc left) has_stream g =
     (case (if has_stream then (True, g)
            else getOrCreateStream (net_dial net (attempt + 1)) (net_stream net (attempt + 1)) address g) of
        (False, g) \<Rightarrow> sync_loop net address (attempt + 1) left False g
      | (True, g) \<Rightarrow>
          if \<not> net_send net attempt
          then sync_loop net address (attempt + 1) left False (evictConn address g)
          else (case net_recv net attempt of
              Some response \<Rightarrow> (Some response, g)
            | None \<Rightarrow> sync_loop net address (attempt + 1) left False (evictConn address g)))"

definition mergeRemoteState :: "service_env \<Rightarrow> StateUpdate \<Rightarrow> GossipEngine \<Rightarrow> CounterService \<Rightarrow> CounterService" where
  "mergeRemoteState ev update g s =
     (let s = merge_remote (su_PositiveState update) (su_NegativeState update) (su_VectorClock update) s;
          s = (case sv_cluster s of
                 None \<Rightarrow> s
               | Some M \<Rightarrow> if 0 < go_len (su_Membership update)
                           then s\<lparr>sv_cluster := Some (ApplyMembership (su_Membership update) M)\<rparr> else s)
      in if ge_hasWAL g
         then walAppend ev ''merge'' '''' 0 (su_PositiveState update) (su_NegativeState update) (su_VectorClock update) s
         else s)"

text \<open>The update for a peer, given the baseline: \<open>None\<close> when there is nothing new to send.\<close>

definition build_update :: "go_time \<Rightarrow> bool \<Rightarrow> int64 gomap \<Rightarrow> GossipEngine \<Rightarrow> CounterService \<Rightarrow> StateUpdate option" where
  "build_update now fullSync base g s =
     (let myPos = PN_Positive (sv_counter s);
          myNeg = PN_Negative (sv_counter s);
          myClock = VC_State (sv_clock s)
      in if fullSync
         then Some \<lparr>su_FromNodeId = ge_nodeID g, su_PositiveState = myPos, su_NegativeState = myNeg,
                su_VectorClock = myClock, su_Timestamp = unix_of_time now, su_Type = FULL_STATE,
                su_LastSyncVersion = MaxClock myClock, su_Membership = membershipGossip s\<rparr>
         else (case DeltaFrom myPos myNeg myClock base of
             (deltaPos, deltaNeg, deltaClock) \<Rightarrow>
               if go_len deltaClock = 0 then None
               else Some \<lparr>su_FromNodeId = ge_nodeID g, su_PositiveState = deltaPos, su_NegativeState = deltaNeg,
                      su_VectorClock = myClock, su_Timestamp = unix_of_time now, su_Type = DELTA_UPDATE,
                      su_LastSyncVersion = MaxClock base, su_Membership = membershipGossip s\<rparr>))"

text \<open>How an exchange ends.\<close>

datatype sync_result = Breaker_open | Nothing_new | No_stream | Round_failed | Synced

text \<open>The second half of \<open>gossipToPeer\<close>: deliver the update, then account for the outcome.\<close>

definition deliver ::
  "service_env \<Rightarrow> peer_net \<Rightarrow> (CounterService \<Rightarrow> CounterService) \<Rightarrow> string \<Rightarrow> CircuitBreaker \<Rightarrow> int64 gomap
   \<Rightarrow> GossipEngine \<Rightarrow> CounterService \<Rightarrow> sync_result \<times> GossipEngine \<times> CounterService" where
  "deliver ev net others address b myClock g s =
     (case getOrCreateStream (net_dial net 0) (net_stream net 0) address g of
        (False, g) \<Rightarrow> (No_stream, g, others s)
      | (True, g) \<Rightarrow>
          (case sync_loop net address 0 (ge_maxRetries g) True g of
             (None, g) \<Rightarrow>
               (Round_failed, g\<lparr>ge_breakers := fmupd address (Failure (net_failed_at net) b) (ge_breakers g)\<rparr>, others s)
           | (Some response, g) \<Rightarrow>
               (let g = g\<lparr>ge_breakers := fmupd address (Success b) (ge_breakers g)\<rparr>;
                    s = mergeRemoteState ev response g (others s);
                    g = g\<lparr>ge_lastSync := fmupd address
                            (MergeClock myClock (su_VectorClock response)) (ge_lastSync g)\<rparr>
                in (Synced, g, s))))"

definition gossipToPeer ::
  "service_env \<Rightarrow> (StateUpdate \<Rightarrow> peer_net) \<Rightarrow> (CounterService \<Rightarrow> CounterService) \<Rightarrow> string
   \<Rightarrow> GossipEngine \<Rightarrow> CounterService \<Rightarrow> sync_result \<times> GossipEngine \<times> CounterService" where
  "gossipToPeer ev net others address g s =
     (case breaker address g of (b, g) \<Rightarrow>
        if \<not> Allow (ev_now ev) b then (Breaker_open, g, s)
        else
          (let myClock = VC_State (sv_clock s);
               base = clock_at (ge_lastSync g) address;
               g = g\<lparr>ge_round := ge_round g + 1\<rparr>;
               staleBaseline = ClockNewerThan base myClock;
               fullSync = (ge_round g mod ge_fullSyncInterval g = 0 \<or> staleBaseline)
           in (case build_update (ev_now ev) fullSync base g s of
                 None \<Rightarrow> (Nothing_new, g, s)
               | Some update \<Rightarrow> deliver ev (net update) others address b myClock g s)))"

section \<open>Rounds\<close>

text \<open>The loop that launches one goroutine per peer; the result lists the addresses launched.\<close>

definition launch_body :: "Member \<Rightarrow> GossipEngine \<times> string list \<Rightarrow> GossipEngine \<times> string list" where
  "launch_body peer acc =
     (case acc of (g, launched) \<Rightarrow>
        if fmlookup (ge_syncing g) (m_Address peer) = Some True then (g, launched)
        else (g\<lparr>ge_syncing := fmupd (m_Address peer) True (ge_syncing g)\<rparr>, launched @ [m_Address peer]))"

definition gossip :: "(Member list \<Rightarrow> Member list) \<Rightarrow> Membership \<Rightarrow> GossipEngine \<Rightarrow> GossipEngine \<times> string list" where
  "gossip shuffle M g =
     (let peers = GetRandomPeers shuffle 3 M
      in if length peers = 0 then (g, []) else fold launch_body peers (g, []))"

definition ForceSync :: "Membership \<Rightarrow> GossipEngine \<Rightarrow> int \<times> GossipEngine \<times> string list" where
  "ForceSync M g =
     (let peers = GetAlivePeers M
      in if length peers = 0 then (0, g, [])
         else (case fold launch_body peers (g, []) of (g, launched) \<Rightarrow> (int (length launched), g, launched)))"

text \<open>The deferred function of a goroutine.\<close>

definition round_done :: "string \<Rightarrow> GossipEngine \<Rightarrow> GossipEngine" where
  "round_done address g = g\<lparr>ge_syncing := fmdrop address (ge_syncing g)\<rparr>"

section \<open>The replicated state of a node\<close>

text \<open>The maps that gossip exchanges, and their merge, as one state: (positive, negative), clock.\<close>

type_synonym crdt_state = "(int64 gomap \<times> int64 gomap) \<times> int64 gomap"

definition state_of :: "CounterService \<Rightarrow> crdt_state" where
  "state_of s = ((positive (sv_counter s), negative (sv_counter s)), clock (sv_clock s))"

definition update_state :: "StateUpdate \<Rightarrow> crdt_state" where
  "update_state u = ((su_PositiveState u, su_NegativeState u), su_VectorClock u)"

definition crdt_ok :: "crdt_state \<Rightarrow> bool" where
  "crdt_ok s \<longleftrightarrow> (counts_positive (fst (fst s)) \<and> counts_positive (snd (fst s))) \<and> counts_positive (snd s)"

definition crdt_merge :: "crdt_state \<Rightarrow> crdt_state \<Rightarrow> crdt_state" where
  "crdt_merge s t =
     ((merge_max (fst (fst s)) (fst (fst t)), merge_max (snd (fst s)) (snd (fst t))), merge_max (snd s) (snd t))"

interpretation counts: join_state_pair counts_positive merge_max counts_positive merge_max
  by unfold_locales

interpretation node: join_state_pair
  "\<lambda>s. counts_positive (fst s) \<and> counts_positive (snd s)"
  "\<lambda>s t. (merge_max (fst s) (fst t), merge_max (snd s) (snd t))" counts_positive merge_max
  by unfold_locales

interpretation crdt: join_state crdt_ok crdt_merge
proof -
  have "crdt_ok = (\<lambda>s. (counts_positive (fst (fst s)) \<and> counts_positive (snd (fst s))) \<and> counts_positive (snd s))"
    and "crdt_merge = (\<lambda>s t. ((merge_max (fst (fst s)) (fst (fst t)), merge_max (snd (fst s)) (snd (fst t))),
      merge_max (snd s) (snd t)))"
    by (simp_all add: fun_eq_iff crdt_ok_def crdt_merge_def)
  then show "join_state crdt_ok crdt_merge" using node.pair.join_state_axioms by simp
qed

text \<open>The part of a state that gossip passes on, and that converges whatever the counts are.\<close>

definition shown_state :: "crdt_state \<Rightarrow> crdt_state" where
  "shown_state s = ((above_zero (fst (fst s)), above_zero (snd (fst s))), above_zero (snd s))"

interpretation crdt_shown: join_image crdt_ok crdt_merge shown_state crdt_merge
  by unfold_locales (simp_all add: shown_state_def crdt_ok_def crdt_merge_def shown.img_merge)

lemma crdt_merge_again: "crdt_merge (crdt_merge b a) a = crdt_merge b a"
proof -
  have "merge_max (merge_max m m') m' = merge_max m m'" for m m'
    by (rule fmap_ext) (auto simp: fmlookup_merge_max gget_merge_max split: option.split)
  then show ?thesis by (simp add: crdt_merge_def)
qed

lemma crdt_absorb: "crdt_ok a \<Longrightarrow> crdt_ok b \<Longrightarrow> crdt_merge a (crdt_merge b a) = crdt_merge b a"
  by (metis crdt.merge_assoc crdt.merge_comm crdt.merge_idem crdt.merge_invar)

lemma state_of_merge_remote [simp]: "state_of (merge_remote p n c s) = crdt_merge (state_of s) ((p, n), c)"
  by (simp add: state_of_def crdt_merge_def merge_remote_eq)

lemma state_of_core: "core s = core s' \<Longrightarrow> state_of s = state_of s'"
  by (simp add: core_def state_of_def)

lemma state_of_walAppend [simp]: "state_of (walAppend ev op k d p n c s) = state_of s"
  by (simp add: state_of_def)

lemma state_of_cluster [simp]: "state_of (s\<lparr>sv_cluster := M\<rparr>) = state_of s"
  by (simp add: state_of_def)

lemma state_of_recv:
  "su_Type u \<noteq> HEARTBEAT \<Longrightarrow>
   state_of (snd (SyncState_recv ev u s)) = crdt_merge (state_of s) (update_state u)"
  using sync_core [of ev u s]
    state_of_core [of "snd (SyncState_recv ev u s)" "merge_remote (su_PositiveState u) (su_NegativeState u) (su_VectorClock u) s"]
  by (simp add: update_state_def)

lemma state_of_mergeRemoteState [simp]:
  "state_of (mergeRemoteState ev u g s) = crdt_merge (state_of s) (update_state u)"
  by (simp add: mergeRemoteState_def update_state_def Let_def split: option.split)

lemma full_reply:
  assumes "su_Type u = FULL_STATE"
  shows "\<exists>r. fst (SyncState_recv ev u s) = Some r \<and> su_Type r = FULL_STATE \<and>
    update_state r = state_of (snd (SyncState_recv ev u s))"
  using assms
  by (simp add: SyncState_recv_def Let_def buildFullReply_def update_state_def state_of_def pn_defs vc_defs)

text \<open>The answer to a delta update, and the baseline it leaves behind.\<close>

lemma recv_stage:
  assumes "su_Type u \<noteq> HEARTBEAT"
  shows "\<exists>s3. sv_counter s3 = sv_counter (merge_remote (su_PositiveState u) (su_NegativeState u) (su_VectorClock u) s) \<and>
    sv_clock s3 = sv_clock (merge_remote (su_PositiveState u) (su_NegativeState u) (su_VectorClock u) s) \<and>
    sv_lastSyncClock s3 = sv_lastSyncClock s \<and>
    SyncState_recv ev u s =
      (if su_Type u = DELTA_UPDATE then (case buildDeltaReply (ev_now ev) u s3 of (ack, s) \<Rightarrow> (Some ack, s))
       else (Some (buildFullReply (ev_now ev) s3), s3))"
proof -
  define s1 where "s1 = merge_remote (su_PositiveState u) (su_NegativeState u) (su_VectorClock u) s"
  define s2 where "s2 = (case sv_cluster s1 of None \<Rightarrow> s1
    | Some M \<Rightarrow> if 0 < go_len (su_Membership u) then s1\<lparr>sv_cluster := Some (ApplyMembership (su_Membership u) M)\<rparr> else s1)"
  define s3 where "s3 = persist ev (walAppend ev ''merge'' '''' 0 (su_PositiveState u) (su_NegativeState u) (su_VectorClock u) s2)"
  have s2: "sv_counter s2 = sv_counter s1" "sv_clock s2 = sv_clock s1" "sv_lastSyncClock s2 = sv_lastSyncClock s"
    unfolding s2_def by (simp_all add: s1_def merge_remote_def Let_def split: option.split)
  show ?thesis
    using assms s2
    by (intro exI [of _ s3])
      (simp add: SyncState_recv_def Let_def s1_def [symmetric] s2_def [symmetric] s3_def [symmetric], simp add: s3_def)
qed

lemma buildDeltaReply_eq:
  assumes "base = merge_max (su_VectorClock u) (clock_at (sv_lastSyncClock s) (su_FromNodeId u))"
  shows "fst (buildDeltaReply now u s) =
    \<lparr>su_FromNodeId = sv_nodeID s, su_PositiveState = fmfilter (newer_key (clock (sv_clock s)) base) (positive (sv_counter s)),
     su_NegativeState = fmfilter (newer_key (clock (sv_clock s)) base) (negative (sv_counter s)),
     su_VectorClock = clock (sv_clock s), su_Timestamp = unix_of_time now, su_Type = DELTA_UPDATE,
     su_LastSyncVersion = MaxClock base, su_Membership = membershipGossip s\<rparr>"
proof -
  have keep: "sv_counter (s\<lparr>sv_lastSyncClock := c\<rparr>) = sv_counter s" "membershipGossip (s\<lparr>sv_lastSyncClock := c\<rparr>) = membershipGossip s"
    for c by (simp_all add: membershipGossip_def)
  show ?thesis
    unfolding buildDeltaReply_def Let_def keep using assms
    by (simp add: DeltaFrom_filter VC_State_def PN_Positive_def PN_Negative_def)
qed

lemma delta_answer:
  assumes "su_Type u = DELTA_UPDATE"
    and "base = merge_max (su_VectorClock u) (clock_at (sv_lastSyncClock s) (su_FromNodeId u))"
  shows "\<exists>r. fst (SyncState_recv ev u s) = Some r \<and> su_Type r = DELTA_UPDATE \<and>
    su_VectorClock r = merge_max (clock (sv_clock s)) (su_VectorClock u) \<and>
    su_PositiveState r = fmfilter (newer_key (su_VectorClock r) base) (merge_max (positive (sv_counter s)) (su_PositiveState u)) \<and>
    su_NegativeState r = fmfilter (newer_key (su_VectorClock r) base) (merge_max (negative (sv_counter s)) (su_NegativeState u))"
proof -
  obtain s3 where s3: "sv_counter s3 = sv_counter (merge_remote (su_PositiveState u) (su_NegativeState u) (su_VectorClock u) s)"
    "sv_clock s3 = sv_clock (merge_remote (su_PositiveState u) (su_NegativeState u) (su_VectorClock u) s)"
    "sv_lastSyncClock s3 = sv_lastSyncClock s"
    "SyncState_recv ev u s = (case buildDeltaReply (ev_now ev) u s3 of (ack, s) \<Rightarrow> (Some ack, s))"
    using recv_stage [of u s ev] assms(1) by auto
  then have "fst (SyncState_recv ev u s) = Some (fst (buildDeltaReply (ev_now ev) u s3))" by (simp add: case_prod_beta)
  moreover have "positive (sv_counter s3) = merge_max (positive (sv_counter s)) (su_PositiveState u)"
    and "negative (sv_counter s3) = merge_max (negative (sv_counter s)) (su_NegativeState u)"
    and "clock (sv_clock s3) = merge_max (clock (sv_clock s)) (su_VectorClock u)"
    using s3(1,2) by (simp_all add: merge_remote_eq)
  ultimately show ?thesis using assms(2) s3(3) by (simp add: buildDeltaReply_eq cong del: fmfilter_cong)
qed

lemma delta_baseline:
  assumes "su_Type u = DELTA_UPDATE"
  shows "clock_at (sv_lastSyncClock (snd (SyncState_recv ev u s))) (su_FromNodeId u) =
    merge_max (clock (sv_clock (snd (SyncState_recv ev u s)))) (su_VectorClock u)"
proof -
  obtain s3 where "SyncState_recv ev u s = (case buildDeltaReply (ev_now ev) u s3 of (ack, s) \<Rightarrow> (Some ack, s))"
    using recv_stage [of u s ev] assms by auto
  then show ?thesis by (simp add: buildDeltaReply_def Let_def DeltaFrom_filter clock_at_def vc_defs)
qed

lemma value_of_state: "state_of s = state_of s' \<Longrightarrow> PN_ValueName name (sv_counter s) = PN_ValueName name (sv_counter s')"
  by (simp add: state_of_def PN_ValueName_def)

section \<open>The retry loop\<close>

lemma sync_loop_recv:
  "sync_loop net a i n st g = (Some r, g') \<Longrightarrow> \<exists>j. net_recv net j = Some r"
  by (induction net a i n st g rule: sync_loop.induct)
    (auto split: prod.splits bool.splits if_splits option.splits)

lemma getOrCreateStream_keeps:
  "getOrCreateStream d st a g = (ok, g') \<Longrightarrow>
   ge_breakers g' = ge_breakers g \<and> ge_lastSync g' = ge_lastSync g \<and> ge_maxRetries g' = ge_maxRetries g \<and>
   ge_hasWAL g' = ge_hasWAL g"
  by (auto simp: getOrCreateStream_def split: option.splits if_splits)

lemma evictConn_frame [simp]:
  "ge_breakers (evictConn a g) = ge_breakers g" "ge_lastSync (evictConn a g) = ge_lastSync g"
  by (simp_all add: evictConn_def split: option.split)

lemma sync_loop_frame:
  "ge_breakers (snd (sync_loop net a i n st g)) = ge_breakers g \<and>
   ge_lastSync (snd (sync_loop net a i n st g)) = ge_lastSync g"
proof (induction net a i n st g rule: sync_loop.induct)
  case (2 net a i n st g)
  obtain ok g1 where 1: "(if st then (True, g) else getOrCreateStream (net_dial net (i + 1)) (net_stream net (i + 1)) a g) = (ok, g1)"
    by fastforce
  then have "ge_breakers g1 = ge_breakers g" "ge_lastSync g1 = ge_lastSync g"
    by (auto dest: getOrCreateStream_keeps split: if_splits)
  with 2 [OF 1 [symmetric]] show ?case
    unfolding sync_loop.simps 1 by (cases ok) (simp_all split: option.split)
qed simp

section \<open>Outcomes of an exchange\<close>

lemma breaker_keeps:
  "breaker a g = (b, g') \<Longrightarrow> ge_round g' = ge_round g \<and> ge_fullSyncInterval g' = ge_fullSyncInterval g \<and>
     ge_lastSync g' = ge_lastSync g \<and> ge_nodeID g' = ge_nodeID g \<and> fmlookup (ge_breakers g') a = Some b"
  by (auto simp: breaker_def Let_def split: option.splits)

lemma build_update_cong: "ge_nodeID g = ge_nodeID g' \<Longrightarrow> build_update now full base g s = build_update now full base g' s"
  by (simp add: build_update_def Let_def split: prod.split)

definition full_round :: "string \<Rightarrow> GossipEngine \<Rightarrow> CounterService \<Rightarrow> bool" where
  "full_round address g s \<longleftrightarrow> (ge_round g + 1) mod ge_fullSyncInterval g = 0 \<or>
     ClockNewerThan (clock_at (ge_lastSync g) address) (clock (sv_clock s))"

lemma gossipToPeer_eq:
  assumes "breaker address g = (b, g1)" and "Allow (ev_now ev) b"
  shows "gossipToPeer ev net others address g s =
    (case build_update (ev_now ev) (full_round address g s) (clock_at (ge_lastSync g) address) g s of
       None \<Rightarrow> (Nothing_new, g1\<lparr>ge_round := ge_round g + 1\<rparr>, s)
     | Some u \<Rightarrow> deliver ev (net u) others address b (clock (sv_clock s)) (g1\<lparr>ge_round := ge_round g + 1\<rparr>) s)"
proof -
  let ?g2 = "g1\<lparr>ge_round := ge_round g + 1\<rparr>"
  note keeps = breaker_keeps [OF assms(1)]
  from keeps have bu: "build_update now full base ?g2 s = build_update now full base g s" for now full base
    by (intro build_update_cong) simp
  show ?thesis
    using assms keeps by (simp add: gossipToPeer_def Let_def bu full_round_def VC_State_def cong: option.case_cong)
qed

lemma deliver_Synced:
  assumes "deliver ev net others address b c g s = (Synced, g', s')"
  shows "\<exists>r g1. (\<exists>j. net_recv net j = Some r) \<and> s' = mergeRemoteState ev r g1 (others s) \<and>
    clock_at (ge_lastSync g') address = merge_max c (su_VectorClock r) \<and>
    fmlookup (ge_breakers g') address = Some (Success b)"
proof -
  obtain g1 where g1: "getOrCreateStream (net_dial net 0) (net_stream net 0) address g = (True, g1)"
    using assms by (auto simp: deliver_def split: prod.splits bool.splits)
  obtain r g2 where "sync_loop net address 0 (ge_maxRetries g1) True g1 = (Some r, g2)"
    using assms g1 by (auto simp: deliver_def split: prod.splits option.splits)
  with assms g1 sync_loop_recv [OF this] show ?thesis
    by (auto simp: deliver_def Let_def clock_at_def)
qed

text \<open>What a synchronised exchange did: it sent the update of the round and merged what it received.\<close>

lemma gossipToPeer_Synced:
  assumes "gossipToPeer ev net others address g s = (Synced, g', s')"
  shows "\<exists>u r g1. build_update (ev_now ev) (full_round address g s) (clock_at (ge_lastSync g) address) g s = Some u \<and>
    (\<exists>j. net_recv (net u) j = Some r) \<and> s' = mergeRemoteState ev r g1 (others s) \<and>
    clock_at (ge_lastSync g') address = merge_max (clock (sv_clock s)) (su_VectorClock r)"
proof -
  obtain b g1 where b: "breaker address g = (b, g1)" by (cases "breaker address g")
  have allow: "Allow (ev_now ev) b" using assms b by (auto simp: gossipToPeer_def split: if_splits)
  from assms obtain u where u: "build_update (ev_now ev) (full_round address g s) (clock_at (ge_lastSync g) address) g s = Some u"
    and d: "deliver ev (net u) others address b (clock (sv_clock s)) (g1\<lparr>ge_round := ge_round g + 1\<rparr>) s = (Synced, g', s')"
    unfolding gossipToPeer_eq [OF b allow] by (auto split: option.splits)
  from deliver_Synced [OF d] u show ?thesis by blast
qed

section \<open>Properties of the exchanges\<close>

text \<open>The peer after it has handled the same update \<open>k\<close> times, as it does when answers get lost and the sender tries again.\<close>

fun handled :: "(nat \<Rightarrow> service_env) \<Rightarrow> StateUpdate \<Rightarrow> nat \<Rightarrow> CounterService \<Rightarrow> CounterService" where
  "handled ev u 0 B = B"
| "handled ev u (Suc k) B = snd (SyncState_recv (ev k) u (handled ev u k B))"

lemma handled_state:
  assumes "su_Type u \<noteq> HEARTBEAT"
  shows "state_of (handled ev u (Suc k) B) = crdt_merge (state_of B) (update_state u)"
  by (induction k) (simp_all add: state_of_recv [OF assms] crdt_merge_again)

lemma full_round_result:
  assumes "full_round address g A" and u: "build_update (ev_now ev) True (clock_at (ge_lastSync g) address) g A = Some u"
    and recv: "\<And>i r. net_recv (net u) i = Some r \<Longrightarrow> \<exists>k. fst (SyncState_recv (evB k) u (handled evB u k B)) = Some r"
    and synced: "gossipToPeer ev net others address g A = (Synced, g', A')"
  shows "state_of (handled evB u (Suc k) B) = crdt_merge (state_of B) (state_of A)"
    and "state_of A' = crdt_merge (state_of (others A)) (crdt_merge (state_of B) (state_of A))"
proof -
  have t: "su_Type u = FULL_STATE" "update_state u = state_of A"
    using u by (auto simp: build_update_def Let_def update_state_def state_of_def pn_defs vc_defs)
  show B: "state_of (handled evB u (Suc k) B) = crdt_merge (state_of B) (state_of A)" for k
    using handled_state [of u evB k B] t by simp
  obtain r g1 j where r: "net_recv (net u) j = Some r" "A' = mergeRemoteState ev r g1 (others A)"
    using gossipToPeer_Synced [OF synced] assms(1) u by auto
  obtain m where "fst (SyncState_recv (evB m) u (handled evB u m B)) = Some r" using recv [OF r(1)] by blast
  then have "update_state r = state_of (handled evB u (Suc m) B)" using full_reply [OF t(1), of "evB m" "handled evB u m B"] by auto
  with r(2) B show "state_of A' = crdt_merge (state_of (others A)) (crdt_merge (state_of B) (state_of A))" by simp
qed

lemma full_round_states:
  assumes "crdt_ok (state_of A)" and "crdt_ok (state_of B)" and "full_round address g A"
    and "build_update (ev_now ev) True (clock_at (ge_lastSync g) address) g A = Some u"
    and "\<And>i r. net_recv (net u) i = Some r \<Longrightarrow> fst (SyncState_recv evB u B) = Some r"
    and "gossipToPeer ev net id address g A = (Synced, g', A')"
  shows "state_of A' = crdt_merge (state_of B) (state_of A)"
    and "state_of (snd (SyncState_recv evB u B)) = crdt_merge (state_of B) (state_of A)"
proof -
  have recv: "\<exists>k. fst (SyncState_recv evB u (handled (\<lambda>_. evB) u k B)) = Some r" if "net_recv (net u) i = Some r" for i r
    using assms(5) [OF that] by (intro exI [of _ 0]) simp
  note result = full_round_result [OF assms(3,4) recv assms(6)]
  show "state_of (snd (SyncState_recv evB u B)) = crdt_merge (state_of B) (state_of A)" using result(1) [where k = 0] by simp
  show "state_of A' = crdt_merge (state_of B) (state_of A)" using result(2) crdt_absorb [OF assms(1,2)] by simp
qed

text \<open>C11: a full synchronisation round brings two nodes together: when a gossip round that sends the full state ends successfully,
  having received one of the peer's answers to it (the peer may have handled the update several times, with its earlier answers
  lost), the peer holds the merge of both states, and the node holds the merge of that with what other goroutines have made
  of its own state meanwhile. If they left it alone, the two nodes agree on every count and clock entry above zero; if moreover all
  counts and clock entries were positive, which holds when no request carried a negative delta and nothing overflowed, both hold
  the same state and report the same value for every counter.\<close>

theorem full_sync_makes_equal:
  assumes "full_round address g A"
    and "build_update (ev_now ev) True (clock_at (ge_lastSync g) address) g A = Some u"
    and "\<And>i r. net_recv (net u) i = Some r \<Longrightarrow> \<exists>k. fst (SyncState_recv (evB k) u (handled evB u k B)) = Some r"
    and "gossipToPeer ev net others address g A = (Synced, g', A')"
    and "B' = handled evB u (Suc k) B"
  shows "state_of B' = crdt_merge (state_of B) (state_of A) \<and>
    state_of A' = crdt_merge (state_of (others A)) (crdt_merge (state_of B) (state_of A)) \<and>
    (state_of (others A) = state_of A \<longrightarrow>
      shown_state (state_of A') = shown_state (state_of B') \<and>
      (crdt_ok (state_of A) \<and> crdt_ok (state_of B) \<longrightarrow>
        state_of A' = state_of B' \<and> PN_ValueName name (sv_counter A') = PN_ValueName name (sv_counter B')))"
proof -
  have A: "state_of A' = crdt_merge (state_of (others A)) (crdt_merge (state_of B) (state_of A))"
    by (rule full_round_result(2) [OF assms(1,2) _ assms(4), of evB B]) (rule assms(3))
  have B: "state_of B' = crdt_merge (state_of B) (state_of A)"
    unfolding assms(5) by (rule full_round_result(1) [OF assms(1,2) _ assms(4)]) (rule assms(3))
  have "state_of A' = state_of B' \<and> PN_ValueName name (sv_counter A') = PN_ValueName name (sv_counter B')"
    if "state_of (others A) = state_of A" "crdt_ok (state_of A)" "crdt_ok (state_of B)"
    using A B that value_of_state [of A' B'] by (simp add: crdt_absorb)
  with A B show ?thesis by (simp add: crdt_shown.img_absorb)
qed

text \<open>C37: retrying a lost answer loses values: when a peer has answered a delta update and the sender, whose answer
  got lost, sends the same update again, the second answer carries no counts at all, but still the full vector clock.\<close>

theorem delta_retry_answer_is_empty:
  assumes "su_Type u = DELTA_UPDATE" and "B1 = snd (SyncState_recv ev u B)"
  shows "\<exists>r. fst (SyncState_recv ev' u B1) = Some r \<and> su_PositiveState r = fmempty \<and> su_NegativeState r = fmempty \<and>
    su_VectorClock r = clock (sv_clock B1)"
proof -
  have c1: "clock (sv_clock B1) = merge_max (clock (sv_clock B)) (su_VectorClock u)"
    using state_of_recv [of u ev B] assms by (simp add: state_of_def crdt_merge_def update_state_def)
  have c2: "merge_max (clock (sv_clock B1)) (su_VectorClock u) = clock (sv_clock B1)"
    unfolding c1 by (rule fmap_ext) (auto simp: fmlookup_merge_max gget_merge_max split: option.split)
  have l1: "clock_at (sv_lastSyncClock B1) (su_FromNodeId u) = merge_max (clock (sv_clock B1)) (su_VectorClock u)"
    using assms by (simp add: delta_baseline)
  define base where "base = merge_max (su_VectorClock u) (clock_at (sv_lastSyncClock B1) (su_FromNodeId u))"
  obtain r where r: "fst (SyncState_recv ev' u B1) = Some r" "su_VectorClock r = clock (sv_clock B1)"
    "su_PositiveState r = fmfilter (newer_key (su_VectorClock r) base) (merge_max (positive (sv_counter B1)) (su_PositiveState u))"
    "su_NegativeState r = fmfilter (newer_key (su_VectorClock r) base) (merge_max (negative (sv_counter B1)) (su_NegativeState u))"
    using delta_answer [OF assms(1) base_def, of ev'] c2 by auto
  have "\<not> newer_key (clock (sv_clock B1)) (merge_max (su_VectorClock u) (clock (sv_clock B1))) k" for k
    by (auto simp: newer_key_def gget_merge_max split: option.split)
  then have "\<not> newer_key (su_VectorClock r) base k" for k by (simp add: r(2) base_def l1 c2)
  then show ?thesis using r by (auto intro!: fmap_ext)
qed

section \<open>Clusters of nodes\<close>

text \<open>One full exchange in a cluster: node \<open>i\<close> sends its full state to node \<open>j\<close>, which handles it and
  answers, and node \<open>i\<close> merges the answer. \<open>ev\<close> gives each node's environment, \<open>eng\<close> its engine.\<close>

definition full_exchange ::
  "(nat \<Rightarrow> service_env) \<Rightarrow> (nat \<Rightarrow> GossipEngine) \<Rightarrow> nat \<times> nat \<Rightarrow> (nat \<Rightarrow> CounterService) \<Rightarrow> nat \<Rightarrow> CounterService" where
  "full_exchange ev eng e st =
     (case e of (i, j) \<Rightarrow>
        (case build_update (ev_now (ev i)) True fmempty (eng i) (st i) of
           None \<Rightarrow> st
         | Some u \<Rightarrow>
             (case SyncState_recv (ev j) u (st j) of
                (None, B) \<Rightarrow> st(j := B)
              | (Some r, B) \<Rightarrow> st(i := mergeRemoteState (ev i) r (eng i) (st i), j := B))))"

lemma full_update:
  "\<exists>u. build_update now True base g s = Some u \<and> su_Type u = FULL_STATE \<and> update_state u = state_of s"
  by (simp add: build_update_def Let_def update_state_def state_of_def pn_defs vc_defs)

lemma full_exchange_result:
  "state_of (full_exchange ev eng (i, j) st n) =
    (if n = j then crdt_merge (state_of (st j)) (state_of (st i))
     else if n = i then crdt_merge (state_of (st i)) (crdt_merge (state_of (st j)) (state_of (st i))) else state_of (st n))"
proof -
  obtain u where u: "build_update (ev_now (ev i)) True fmempty (eng i) (st i) = Some u" "su_Type u = FULL_STATE"
    "update_state u = state_of (st i)" using full_update by blast
  obtain r B where r: "SyncState_recv (ev j) u (st j) = (Some r, B)" "update_state r = state_of B"
    using full_reply [OF u(2), of "ev j" "st j"] by (metis prod.collapse)
  have "state_of B = crdt_merge (state_of (st j)) (state_of (st i))"
    using state_of_recv [of u "ev j" "st j"] u r by simp
  then show ?thesis by (simp add: full_exchange_def u r)
qed

lemma full_exchange_state:
  assumes "crdt_ok (state_of (st (fst e)))" and "crdt_ok (state_of (st (snd e)))"
  shows "(\<lambda>n. state_of (full_exchange ev eng e st n)) = exchange crdt_merge e (\<lambda>n. state_of (st n))"
  using assms crdt_absorb [of "state_of (st (fst e))" "state_of (st (snd e))"]
  by (cases e) (auto simp: fun_eq_iff full_exchange_result exchange_def Let_def)

lemma full_exchange_shown:
  "(\<lambda>n. shown_state (state_of (full_exchange ev eng e st n))) = exchange crdt_merge e (\<lambda>n. shown_state (state_of (st n)))"
  by (cases e) (auto simp: fun_eq_iff full_exchange_result exchange_def Let_def crdt_absorb crdt_shown.img_invar crdt_shown.img_merge)

lemma full_schedule_shown:
  "(\<lambda>n. shown_state (state_of (fold (full_exchange ev eng) es st n))) =
    fold (exchange crdt_merge) es (\<lambda>n. shown_state (state_of (st n)))"
  by (induction es arbitrary: st) (simp_all add: full_exchange_shown)

lemma exchange_ok:
  "\<forall>n. crdt_ok (st n) \<Longrightarrow> crdt_ok (exchange crdt_merge e st n)"
  by (simp add: exchange_def Let_def crdt.merge_invar split: prod.split)

lemma full_schedule_state:
  assumes "\<forall>n. crdt_ok (state_of (st n))"
  shows "(\<lambda>n. state_of (fold (full_exchange ev eng) es st n)) = fold (exchange crdt_merge) es (\<lambda>n. state_of (st n))"
  using assms
proof (induction es arbitrary: st)
  case Nil
  then show ?case by simp
next
  case (Cons e es)
  note step = full_exchange_state [OF Cons.prems [rule_format] Cons.prems [rule_format], of ev eng e]
  have "\<forall>n. crdt_ok (state_of (full_exchange ev eng e st n))"
    using exchange_ok [of "\<lambda>n. state_of (st n)" e] Cons.prems fun_cong [OF step] by simp
  from Cons.IH [OF this] step show ?case by simp
qed

text \<open>C3: eventual convergence of the cluster: after any schedule of full exchanges between pairs of nodes, two nodes to which the
  information of the same nodes has spread agree on every count and every clock entry above zero, whatever the order and repetitions of the
  exchanges and whatever the states they started from. If at the start all counts and clock entries are positive, which holds when no
  request carried a negative delta and nothing overflowed, the two nodes hold the same state and report the same value for
  every counter.\<close>

theorem gossip_converges:
  assumes "fold know es (\<lambda>n. {n}) i = fold know es (\<lambda>n. {n}) j"
  shows "shown_state (state_of (fold (full_exchange ev eng) es st i)) = shown_state (state_of (fold (full_exchange ev eng) es st j)) \<and>
    ((\<forall>n. crdt_ok (state_of (st n))) \<longrightarrow>
      state_of (fold (full_exchange ev eng) es st i) = state_of (fold (full_exchange ev eng) es st j) \<and>
      PN_ValueName name (sv_counter (fold (full_exchange ev eng) es st i)) =
        PN_ValueName name (sv_counter (fold (full_exchange ev eng) es st j)))"
proof -
  note shown = fun_cong [OF full_schedule_shown [of ev eng es st]]
  have "shown_state (state_of (fold (full_exchange ev eng) es st i)) = shown_state (state_of (fold (full_exchange ev eng) es st j))"
    using crdt.schedule_converges [of "\<lambda>n. shown_state (state_of (st n))", OF _ assms] by (simp add: shown crdt_shown.img_invar)
  moreover have "state_of (fold (full_exchange ev eng) es st i) = state_of (fold (full_exchange ev eng) es st j)"
    if ok: "\<forall>n. crdt_ok (state_of (st n))"
    using crdt.schedule_converges [of "\<lambda>n. state_of (st n)", OF ok assms]
    by (simp add: fun_cong [OF full_schedule_state [OF ok, of ev eng es]])
  ultimately show ?thesis using value_of_state by blast
qed

definition sample_cluster :: "nat \<Rightarrow> CounterService" where
  "sample_cluster n = (let s = NewCounterService (if n = 0 then ''a'' else ''b'') 5000 fmempty
     in snd (Increment sample_env \<lparr>ir_Delta = 5, ir_ClientId = '''', ir_Timestamp = 0, ir_CounterName = ''likes''\<rparr> s))"

lemma sample_cluster_ok: "\<forall>n. crdt_ok (state_of (sample_cluster n))"
proof -
  have "crdt_ok (state_of (sample_cluster 0))" and "crdt_ok (state_of (sample_cluster 1))"
    by (simp_all add: sample_cluster_def sample_env_def, code_simp+)
  moreover have "sample_cluster n = sample_cluster 1" if "n \<noteq> 0" for n
    using that by (simp add: sample_cluster_def)
  ultimately show ?thesis by metis
qed

theorem gossip_converges_witness:
  "PN_ValueName ''likes'' (sv_counter (fold (full_exchange (\<lambda>_. sample_env) (\<lambda>_. NewGossipEngine ''a'' 0)) [(0, 1), (1, 0)] sample_cluster 0)) =
   PN_ValueName ''likes'' (sv_counter (fold (full_exchange (\<lambda>_. sample_env) (\<lambda>_. NewGossipEngine ''a'' 0)) [(0, 1), (1, 0)] sample_cluster 1))"
proof -
  have "fold know [(0, 1), (1, 0)] (\<lambda>n. {n}) 0 = fold know [(0, 1), (1, 0)] (\<lambda>n. {n}) (1 :: nat)"
    by (auto simp: know_def)
  from gossip_converges [OF this] sample_cluster_ok show ?thesis by blast
qed

section \<open>Delivery, failures and rounds\<close>

text \<open>The retries as the network sees them. The first attempt uses the stream opened before the loop; a later one, after the connection
  was evicted, needs a dial that succeeded since, and its stream. The second component says whether a connection is cached when
  the attempt has no stream.\<close>

fun redial :: "peer_net \<Rightarrow> nat \<Rightarrow> bool \<times> bool" where
  "redial net 0 = (True, False)"
| "redial net (Suc k) =
     (case redial net k of (opened, cached) \<Rightarrow>
        (let cached = ((\<not> opened \<and> cached) \<or> net_dial net (k + 2)) in (cached \<and> net_stream net (k + 2), cached)))"

definition answered :: "peer_net \<Rightarrow> nat \<Rightarrow> StateUpdate option" where
  "answered net k = (if fst (redial net k) \<and> net_send net k then net_recv net k else None)"

definition first_answer :: "peer_net \<Rightarrow> nat list \<Rightarrow> StateUpdate option" where
  "first_answer net ks = (case find (\<lambda>k. answered net k \<noteq> None) ks of None \<Rightarrow> None | Some k \<Rightarrow> answered net k)"

lemma first_answer_simps [simp]:
  "first_answer net [] = None"
  "first_answer net (k # ks) = (case answered net k of Some r \<Rightarrow> Some r | None \<Rightarrow> first_answer net ks)"
  by (simp_all add: first_answer_def split: option.split)

text \<open>What the loop has when it enters attempt \<open>i\<close>.\<close>

definition entered :: "peer_net \<Rightarrow> string \<Rightarrow> nat \<Rightarrow> bool \<Rightarrow> GossipEngine \<Rightarrow> bool" where
  "entered net a i st g \<longleftrightarrow>
     (case i of 0 \<Rightarrow> st
      | Suc k \<Rightarrow> \<not> st \<and> (a \<in> fset (fmdom (ge_connections g)) \<longleftrightarrow> \<not> fst (redial net k) \<and> snd (redial net k)))"

lemma evicted [simp]: "a \<notin> fset (fmdom (ge_connections (evictConn a g)))"
  by (auto simp: evictConn_def fmlookup_dom_iff split: option.split)

lemma getOrCreateStream_dom:
  "fst (getOrCreateStream d st a g) \<longleftrightarrow> (a \<in> fset (fmdom (ge_connections g)) \<or> d) \<and> st"
  "a \<in> fset (fmdom (ge_connections (snd (getOrCreateStream d st a g)))) \<longleftrightarrow> a \<in> fset (fmdom (ge_connections g)) \<or> d"
  by (auto simp: getOrCreateStream_def fmlookup_dom_iff split: option.split)

lemma entered_stream:
  assumes "entered net a i st g"
    and "(if st then (True, g) else getOrCreateStream (net_dial net (i + 1)) (net_stream net (i + 1)) a g) = (ok, g1)"
  shows "ok = fst (redial net i)" and "\<not> ok \<Longrightarrow> entered net a (i + 1) False g1"
    and "ok \<Longrightarrow> entered net a (i + 1) False (evictConn a g1)"
proof -
  obtain o1 c1 where r: "redial net i = (o1, c1)" by fastforce
  have "ok = o1 \<and> (\<not> ok \<longrightarrow> (a \<in> fset (fmdom (ge_connections g1)) \<longleftrightarrow> c1))"
  proof (cases i)
    case 0
    with assms r show ?thesis by (auto simp: entered_def)
  next
    case (Suc k)
    with assms have "\<not> st" by (simp add: entered_def)
    with assms(2) have "ok = fst (getOrCreateStream (net_dial net (i + 1)) (net_stream net (i + 1)) a g)"
      "g1 = snd (getOrCreateStream (net_dial net (i + 1)) (net_stream net (i + 1)) a g)" by simp_all
    with assms(1) r Suc show ?thesis
      by (auto simp: getOrCreateStream_dom entered_def Let_def split: prod.splits)
  qed
  with r show "ok = fst (redial net i)" and "\<not> ok \<Longrightarrow> entered net a (i + 1) False g1"
    and "ok \<Longrightarrow> entered net a (i + 1) False (evictConn a g1)"
    by (simp_all add: entered_def)
qed

lemma sync_loop_answer:
  "entered net a i st g \<Longrightarrow> fst (sync_loop net a i n st g) = first_answer net [i..<i + n]"
proof (induction net a i n st g rule: sync_loop.induct)
  case (2 net a i n st g)
  obtain ok g1 where 1: "(if st then (True, g) else getOrCreateStream (net_dial net (i + 1)) (net_stream net (i + 1)) a g) = (ok, g1)"
    by fastforce
  note e = entered_stream [OF "2.prems" 1]
  have up: "[i..<i + Suc n] = i # [i + 1..<(i + 1) + n]" by (simp add: upt_conv_Cons)
  show ?case
  proof (cases ok)
    case False
    with "2.IH" [OF 1 [symmetric]] e show ?thesis unfolding sync_loop.simps 1 up by (simp add: answered_def del: upt_Suc)
  next
    case True
    with "2.IH" [OF 1 [symmetric]] e show ?thesis unfolding sync_loop.simps 1 up by (simp add: answered_def del: upt_Suc split: option.split)
  qed
qed simp

lemma fmupd_same: "fmlookup m a = Some b \<Longrightarrow> fmupd a b m = m"
  by (rule fmap_ext) auto

lemma fmupd_twice: "fmupd a c (fmupd a b m) = fmupd a c m"
  by (rule fmap_ext) simp

lemma breaker_frame:
  assumes "breaker a g = (b, g1)"
  shows "ge_breakers g1 = fmupd a b (ge_breakers g)" "ge_lastSync g1 = ge_lastSync g" "ge_connections g1 = ge_connections g"
    "ge_maxRetries g1 = ge_maxRetries g" "fmlookup (ge_breakers g1) a = Some b"
  using assms by (auto simp: breaker_def Let_def fmupd_same split: option.splits)

lemma deliver_result:
  assumes "deliver ev net others a b c g s = (res, g', s')"
    and stream0_def: "stream0 \<longleftrightarrow> (a \<in> fset (fmdom (ge_connections g)) \<or> net_dial net 0) \<and> net_stream net 0"
  shows "\<not> stream0 \<Longrightarrow> res = No_stream \<and> s' = others s \<and> ge_lastSync g' = ge_lastSync g \<and> ge_breakers g' = ge_breakers g"
    and "stream0 \<Longrightarrow> first_answer net [0..<ge_maxRetries g] = None \<Longrightarrow>
      res = Round_failed \<and> s' = others s \<and> ge_lastSync g' = ge_lastSync g \<and>
      ge_breakers g' = fmupd a (Failure (net_failed_at net) b) (ge_breakers g)"
    and "stream0 \<Longrightarrow> first_answer net [0..<ge_maxRetries g] = Some r \<Longrightarrow>
      res = Synced \<and> state_of s' = crdt_merge (state_of (others s)) (update_state r) \<and>
      ge_lastSync g' = fmupd a (MergeClock c (su_VectorClock r)) (ge_lastSync g) \<and>
      ge_breakers g' = fmupd a (Success b) (ge_breakers g)"
proof -
  obtain ok g1 where 1: "getOrCreateStream (net_dial net 0) (net_stream net 0) a g = (ok, g1)" by fastforce
  obtain resp g2 where 2: "sync_loop net a 0 (ge_maxRetries g1) True g1 = (resp, g2)" by fastforce
  have ok: "ok = stream0" using getOrCreateStream_dom(1) [of "net_dial net 0" "net_stream net 0" a g] 1 stream0_def by simp
  have "resp = first_answer net [0..<ge_maxRetries g]"
    using sync_loop_answer [of net a 0 True g1 "ge_maxRetries g1"] 2 getOrCreateStream_keeps [OF 1] by (simp add: entered_def)
  with assms(1) ok 1 2 sync_loop_frame [of net a 0 "ge_maxRetries g1" True g1] getOrCreateStream_keeps [OF 1]
  show "\<not> stream0 \<Longrightarrow> res = No_stream \<and> s' = others s \<and> ge_lastSync g' = ge_lastSync g \<and> ge_breakers g' = ge_breakers g"
    and "stream0 \<Longrightarrow> first_answer net [0..<ge_maxRetries g] = None \<Longrightarrow>
      res = Round_failed \<and> s' = others s \<and> ge_lastSync g' = ge_lastSync g \<and>
      ge_breakers g' = fmupd a (Failure (net_failed_at net) b) (ge_breakers g)"
    and "stream0 \<Longrightarrow> first_answer net [0..<ge_maxRetries g] = Some r \<Longrightarrow>
      res = Synced \<and> state_of s' = crdt_merge (state_of (others s)) (update_state r) \<and>
      ge_lastSync g' = fmupd a (MergeClock c (su_VectorClock r)) (ge_lastSync g) \<and>
      ge_breakers g' = fmupd a (Success b) (ge_breakers g)"
    by (auto simp: deliver_def Let_def)
qed

lemma deliver_success:
  assumes "net_dial net 0" "net_stream net 0" "net_send net 0" "net_recv net 0 = Some r" and "0 < ge_maxRetries g"
  shows "\<exists>g' s'. deliver ev net others a b c g s = (Synced, g', s') \<and> state_of s' = crdt_merge (state_of (others s)) (update_state r)"
proof -
  obtain res g' s' where d: "deliver ev net others a b c g s = (res, g', s')" by (metis prod_cases3)
  have "first_answer net [0..<ge_maxRetries g] = Some r" using assms by (simp add: upt_conv_Cons answered_def del: upt_Suc)
  from deliver_result(3) [OF d refl _ this] assms d show ?thesis by simp
qed

text \<open>C38: what a gossip round does, for every behaviour of the network: with the breaker open, or with nothing new to send, it
  changes neither the state nor the baselines. When the first stream cannot be opened (no cached connection and the dial fails, or the stream fails) the
  baselines and the breaker stay as they are, so that the failure is not recorded. Otherwise the attempts up to \<open>maxRetries\<close> are made, each
  after the first on a fresh connection if the dial succeeds: if one of them gets an answer, the first answer is merged, the
  breaker closes and the baseline of the peer, and no other, becomes the merge of both clocks; if none does, the breaker records one failure and
  neither the state nor a baseline changes. What other goroutines do to the service meanwhile is \<open>others\<close>.\<close>

theorem gossipToPeer_outcomes:
  assumes "breaker address g = (b, g1)" and "gossipToPeer ev net others address g s = (res, g', s')"
    and "upd = build_update (ev_now ev) (full_round address g s) (clock_at (ge_lastSync g) address) g s"
    and "stream0 = (\<lambda>n. (address \<in> fset (fmdom (ge_connections g)) \<or> net_dial n 0) \<and> net_stream n 0)"
  shows "(\<not> Allow (ev_now ev) b \<longrightarrow>
      res = Breaker_open \<and> s' = s \<and> ge_lastSync g' = ge_lastSync g \<and> ge_breakers g' = fmupd address b (ge_breakers g)) \<and>
    (Allow (ev_now ev) b \<and> upd = None \<longrightarrow>
      res = Nothing_new \<and> s' = s \<and> ge_lastSync g' = ge_lastSync g \<and> ge_breakers g' = fmupd address b (ge_breakers g)) \<and>
    (\<forall>u. Allow (ev_now ev) b \<and> upd = Some u \<and> \<not> stream0 (net u) \<longrightarrow>
      res = No_stream \<and> s' = others s \<and> ge_lastSync g' = ge_lastSync g \<and> ge_breakers g' = fmupd address b (ge_breakers g)) \<and>
    (\<forall>u. Allow (ev_now ev) b \<and> upd = Some u \<and> stream0 (net u) \<and> first_answer (net u) [0..<ge_maxRetries g] = None \<longrightarrow>
      res = Round_failed \<and> s' = others s \<and> ge_lastSync g' = ge_lastSync g \<and>
      ge_breakers g' = fmupd address (Failure (net_failed_at (net u)) b) (ge_breakers g)) \<and>
    (\<forall>u r. Allow (ev_now ev) b \<and> upd = Some u \<and> stream0 (net u) \<and> first_answer (net u) [0..<ge_maxRetries g] = Some r \<longrightarrow>
      res = Synced \<and> state_of s' = crdt_merge (state_of (others s)) (update_state r) \<and>
      ge_lastSync g' = fmupd address (MergeClock (clock (sv_clock s)) (su_VectorClock r)) (ge_lastSync g) \<and>
      ge_breakers g' = fmupd address (Success b) (ge_breakers g))"
proof -
  note keeps = breaker_frame [OF assms(1)]
  let ?g = "g1\<lparr>ge_round := ge_round g + 1\<rparr>"
  have closed: "res = Breaker_open \<and> g' = g1 \<and> s' = s" if "\<not> Allow (ev_now ev) b"
    using assms(1,2) that by (simp add: gossipToPeer_def)
  have nothing_new: "res = Nothing_new \<and> g' = ?g \<and> s' = s" if "Allow (ev_now ev) b" "upd = None"
    using assms(2) that unfolding gossipToPeer_eq [OF assms(1) that(1)] assms(3) [symmetric] by simp
  have sent: "deliver ev (net u) others address b (clock (sv_clock s)) ?g s = (res, g', s')"
    if "Allow (ev_now ev) b" "upd = Some u" for u
    using assms(2) that unfolding gossipToPeer_eq [OF assms(1) that(1)] assms(3) [symmetric] by simp
  note result = deliver_result [OF sent]
  show ?thesis
    using closed nothing_new result keeps unfolding assms(4) by (auto simp: fmupd_twice)
qed

section \<open>A concrete exchange\<close>

definition sample_engine :: GossipEngine where
  "sample_engine = SetFullSyncInterval 1 (NewGossipEngine ''a'' 0)"

definition sample_breaker :: CircuitBreaker where
  "sample_breaker = newCircuitBreaker 3 (30 * second)"

definition sample_net :: "StateUpdate \<Rightarrow> peer_net" where
  "sample_net u = \<lparr>net_dial = \<lambda>_. True, net_stream = \<lambda>_. True, net_send = \<lambda>_. True,
     net_recv = \<lambda>_. fst (SyncState_recv sample_env u (sample_cluster 2)), net_failed_at = 9\<rparr>"

definition sample_update :: StateUpdate where
  "sample_update = the (build_update 7 True fmempty sample_engine (sample_cluster 0))"

lemma sample_engine_simps:
  "breaker ''x'' sample_engine = (sample_breaker, sample_engine\<lparr>ge_breakers := fmupd ''x'' sample_breaker fmempty\<rparr>)"
  "Allow 7 sample_breaker" "full_round ''x'' sample_engine s" "ge_lastSync sample_engine = fmempty"
  "ge_maxRetries sample_engine = 3" "ev_now sample_env = 7" "clock_at fmempty a = fmempty"
  by (simp_all add: sample_engine_def NewGossipEngine_def SetFullSyncInterval_def breaker_def newCircuitBreaker_def Allow_def
      full_round_def sample_env_def clock_at_def Let_def sample_breaker_def)

lemma sample_update_eq: "build_update 7 True fmempty sample_engine (sample_cluster 0) = Some sample_update"
  using full_update [of 7 fmempty sample_engine "sample_cluster 0"] by (auto simp: sample_update_def)

lemma sample_reply: "\<exists>r. fst (SyncState_recv sample_env sample_update (sample_cluster 2)) = Some r"
  using full_reply [of sample_update sample_env "sample_cluster 2"] full_update [of 7 fmempty sample_engine "sample_cluster 0"]
    sample_update_eq by auto

theorem gossipToPeer_outcomes_witness:
  "fst (gossipToPeer sample_env sample_net id ''x'' sample_engine (sample_cluster 0)) = Synced"
proof -
  obtain r where r: "fst (SyncState_recv sample_env sample_update (sample_cluster 2)) = Some r" using sample_reply by blast
  obtain res g' s' where e: "gossipToPeer sample_env sample_net id ''x'' sample_engine (sample_cluster 0) = (res, g', s')"
    by (metis prod_cases3)
  have "first_answer (sample_net sample_update) [0..<3] = Some r"
    by (simp add: upt_conv_Cons answered_def sample_net_def r)
  with gossipToPeer_outcomes [OF sample_engine_simps(1) e refl refl] show ?thesis
    by (simp add: sample_engine_simps sample_update_eq sample_net_def e)
qed

lemma sample_synced:
  "\<exists>g' A'. gossipToPeer sample_env sample_net id ''x'' sample_engine (sample_cluster 0) = (Synced, g', A')"
proof -
  obtain r where r: "fst (SyncState_recv sample_env sample_update (sample_cluster 2)) = Some r" using sample_reply by blast
  have "\<exists>g' s'. deliver sample_env (sample_net sample_update) id ''x'' b c g s = (Synced, g', s')"
    if "0 < ge_maxRetries g" for b c g s
    using that deliver_success [of "sample_net sample_update" r g sample_env id "''x''" b c s] by (auto simp: sample_net_def r)
  then show ?thesis
    using gossipToPeer_eq [OF sample_engine_simps(1), of sample_env sample_net id "sample_cluster 0"]
    by (simp add: sample_engine_simps sample_update_eq)
qed

theorem full_sync_makes_equal_witness:
  "\<exists>A'. state_of A' = crdt_merge (state_of (sample_cluster 2)) (state_of (sample_cluster 0)) \<and>
     PN_ValueName ''likes'' (sv_counter A') =
       PN_ValueName ''likes'' (sv_counter (snd (SyncState_recv sample_env sample_update (sample_cluster 2))))"
proof -
  obtain g' A' where e: "gossipToPeer sample_env sample_net id ''x'' sample_engine (sample_cluster 0) = (Synced, g', A')"
    using sample_synced by blast
  have u: "build_update (ev_now sample_env) True (clock_at (ge_lastSync sample_engine) ''x'') sample_engine (sample_cluster 0) = Some sample_update"
    by (simp add: sample_engine_simps sample_update_eq)
  have recv: "\<exists>k. fst (SyncState_recv sample_env sample_update (handled (\<lambda>_. sample_env) sample_update k (sample_cluster 2))) = Some r"
    if "net_recv (sample_net sample_update) i = Some r" for i r
    using that by (intro exI [of _ 0]) (simp add: sample_net_def)
  let ?B = "handled (\<lambda>_. sample_env) sample_update (Suc 0) (sample_cluster 2)"
    and ?M = "crdt_merge (state_of (sample_cluster 2)) (state_of (sample_cluster 0))"
  have "state_of ?B = ?M \<and> state_of A' = crdt_merge (state_of (id (sample_cluster 0))) ?M \<and>
    (state_of (id (sample_cluster 0)) = state_of (sample_cluster 0) \<longrightarrow>
      shown_state (state_of A') = shown_state (state_of ?B) \<and>
      (crdt_ok (state_of (sample_cluster 0)) \<and> crdt_ok (state_of (sample_cluster 2)) \<longrightarrow>
        state_of A' = state_of ?B \<and> PN_ValueName ''likes'' (sv_counter A') = PN_ValueName ''likes'' (sv_counter ?B)))"
    by (rule full_sync_makes_equal [OF sample_engine_simps(3) u _ e refl]) (rule recv)
  with sample_cluster_ok show ?thesis by auto
qed

theorem delta_retry_answer_is_empty_witness:
  "\<exists>r. fst (SyncState_recv sample_env (sample_update\<lparr>su_Type := DELTA_UPDATE\<rparr>)
        (snd (SyncState_recv sample_env (sample_update\<lparr>su_Type := DELTA_UPDATE\<rparr>) (sample_cluster 2)))) = Some r \<and>
     su_PositiveState r = fmempty"
  using delta_retry_answer_is_empty [OF _ refl, of "sample_update\<lparr>su_Type := DELTA_UPDATE\<rparr>"] by force

section \<open>Delta rounds\<close>

text \<open>Every count of \<open>m\<close> that the delta against \<open>base\<close> leaves out is already covered by \<open>m'\<close>.\<close>

definition covered :: "int64 gomap \<Rightarrow> int64 gomap \<Rightarrow> int64 gomap \<Rightarrow> int64 gomap \<Rightarrow> bool" where
  "covered clk base m m' \<longleftrightarrow> fmpred (\<lambda>k v. newer_key clk base k \<or> sint v \<le> sint (gget m' k)) m"

lemma merge_covered: "covered clk base m m' \<Longrightarrow> merge_max m' (fmfilter (newer_key clk base) m) = merge_max m' m"
  by (rule merge_filter_eq) (auto simp: covered_def)

lemma delta_update:
  assumes "build_update now False base g s = Some u"
  shows "su_Type u = DELTA_UPDATE \<and> su_FromNodeId u = ge_nodeID g \<and> su_VectorClock u = clock (sv_clock s) \<and>
    su_PositiveState u = fmfilter (newer_key (clock (sv_clock s)) base) (positive (sv_counter s)) \<and>
    su_NegativeState u = fmfilter (newer_key (clock (sv_clock s)) base) (negative (sv_counter s))"
  using assms
  by (auto simp: build_update_def Let_def DeltaFrom_filter VC_State_def PN_Positive_def PN_Negative_def
      split: if_splits cong del: fmfilter_cong)

lemma delta_round_states:
  assumes "crdt_ok (state_of A)" and "crdt_ok (state_of B)" and "\<not> full_round address g A"
    and "build_update (ev_now ev) False (clock_at (ge_lastSync g) address) g A = Some u"
    and "\<And>i r. net_recv (net u) i = Some r \<Longrightarrow> fst (SyncState_recv evB u B) = Some r"
    and "gossipToPeer ev net id address g A = (Synced, g', A')"
    and "B' = snd (SyncState_recv evB u B)"
    and "base = merge_max (clock (sv_clock A)) (clock_at (sv_lastSyncClock B) (ge_nodeID g))"
    and "covered (clock (sv_clock A)) (clock_at (ge_lastSync g) address) (positive (sv_counter A)) (positive (sv_counter B))"
    and "covered (clock (sv_clock A)) (clock_at (ge_lastSync g) address) (negative (sv_counter A)) (negative (sv_counter B))"
    and "covered (clock (sv_clock B')) base (positive (sv_counter B')) (positive (sv_counter A))"
    and "covered (clock (sv_clock B')) base (negative (sv_counter B')) (negative (sv_counter A))"
  shows "state_of B' = crdt_merge (state_of B) (state_of A)" and "state_of A' = crdt_merge (state_of B) (state_of A)"
proof -
  note u = delta_update [OF assms(4)]
  show B: "state_of B' = crdt_merge (state_of B) (state_of A)"
    using state_of_recv [of u evB B] u assms(7) merge_covered [OF assms(9)] merge_covered [OF assms(10)]
    by (simp add: crdt_merge_def update_state_def state_of_def cong del: fmfilter_cong)
  obtain r g1 j where r: "net_recv (net u) j = Some r" "A' = mergeRemoteState ev r g1 A"
    using gossipToPeer_Synced [OF assms(6)] assms(3,4) by auto
  have maps: "clock (sv_clock B') = merge_max (clock (sv_clock B)) (su_VectorClock u)"
    "positive (sv_counter B') = merge_max (positive (sv_counter B)) (su_PositiveState u)"
    "negative (sv_counter B') = merge_max (negative (sv_counter B)) (su_NegativeState u)"
    using state_of_recv [of u evB B] u assms(7) by (simp_all add: crdt_merge_def update_state_def state_of_def)
  have upd: "update_state r = ((fmfilter (newer_key (clock (sv_clock B')) base) (positive (sv_counter B')),
      fmfilter (newer_key (clock (sv_clock B')) base) (negative (sv_counter B'))), clock (sv_clock B'))"
    using delta_answer [of u base B evB] u assms(8) assms(5) [OF r(1)] maps
    by (auto simp: update_state_def cong del: fmfilter_cong)
  have "state_of A' = crdt_merge (state_of A) (update_state r)" using r(2) by simp
  also have "\<dots> = crdt_merge (state_of A) (state_of B')"
    by (simp only: upd crdt_merge_def state_of_def fst_conv snd_conv merge_covered [OF assms(11)] merge_covered [OF assms(12)])
  also have "\<dots> = crdt_merge (state_of B) (state_of A)"
    unfolding B using assms(1,2) by (rule crdt_absorb)
  finally show "state_of A' = crdt_merge (state_of B) (state_of A)" .
qed

text \<open>A delta round is as good as a full one when the baselines are right: if the receiver already holds every
  count that the sender's delta leaves out, and the sender every count that the answer leaves out, then after a
  successful delta round both nodes hold the merge of their states, as after a full round.\<close>

theorem delta_sync_makes_equal:
  assumes "crdt_ok (state_of A)" and "crdt_ok (state_of B)" and "\<not> full_round address g A"
    and "build_update (ev_now ev) False (clock_at (ge_lastSync g) address) g A = Some u"
    and "\<And>i r. net_recv (net u) i = Some r \<Longrightarrow> fst (SyncState_recv evB u B) = Some r"
    and "gossipToPeer ev net id address g A = (Synced, g', A')"
    and "B' = snd (SyncState_recv evB u B)"
    and "base = merge_max (clock (sv_clock A)) (clock_at (sv_lastSyncClock B) (ge_nodeID g))"
    and "covered (clock (sv_clock A)) (clock_at (ge_lastSync g) address) (positive (sv_counter A)) (positive (sv_counter B))"
    and "covered (clock (sv_clock A)) (clock_at (ge_lastSync g) address) (negative (sv_counter A)) (negative (sv_counter B))"
    and "covered (clock (sv_clock B')) base (positive (sv_counter B')) (positive (sv_counter A))"
    and "covered (clock (sv_clock B')) base (negative (sv_counter B')) (negative (sv_counter A))"
  shows "state_of B' = crdt_merge (state_of B) (state_of A) \<and> state_of A' = crdt_merge (state_of B) (state_of A)"
  by (rule conjI; rule delta_round_states [OF assms(1-4) _ assms(6-12)]; erule assms(5))

definition delta_engine :: GossipEngine where
  "delta_engine = NewGossipEngine ''a'' 0"

definition delta_sample :: StateUpdate where
  "delta_sample = the (build_update 7 False fmempty delta_engine (sample_cluster 0))"

lemma delta_engine_simps:
  "breaker ''x'' delta_engine = (sample_breaker, delta_engine\<lparr>ge_breakers := fmupd ''x'' sample_breaker fmempty\<rparr>)"
  "\<not> full_round ''x'' delta_engine s" "ge_lastSync delta_engine = fmempty" "ge_nodeID delta_engine = ''a''"
  "ge_maxRetries delta_engine = 3"
  by (simp_all add: delta_engine_def NewGossipEngine_def breaker_def newCircuitBreaker_def full_round_def
      clock_at_def Let_def sample_breaker_def ClockNewerThan_iff newer_key_def)

lemma delta_sample_eq: "build_update 7 False fmempty delta_engine (sample_cluster 0) = Some delta_sample"
proof -
  have "build_update 7 False fmempty delta_engine (sample_cluster 0) \<noteq> None" by code_simp
  then show ?thesis by (auto simp: delta_sample_def)
qed

lemma delta_reply: "\<exists>r. fst (SyncState_recv sample_env delta_sample (sample_cluster 2)) = Some r"
  using delta_answer [OF _ refl, of delta_sample] delta_update [OF delta_sample_eq] by blast

lemma delta_synced:
  "\<exists>g' A'. gossipToPeer sample_env sample_net id ''x'' delta_engine (sample_cluster 0) = (Synced, g', A')"
proof -
  obtain r where r: "fst (SyncState_recv sample_env delta_sample (sample_cluster 2)) = Some r" using delta_reply by blast
  have "\<exists>g' s'. deliver sample_env (sample_net delta_sample) id ''x'' b c g s = (Synced, g', s')"
    if "0 < ge_maxRetries g" for b c g s
    using that deliver_success [of "sample_net delta_sample" r g sample_env id "''x''" b c s] by (auto simp: sample_net_def r)
  then show ?thesis
    using gossipToPeer_eq [OF delta_engine_simps(1), of sample_env sample_net id "sample_cluster 0"]
    by (simp add: sample_engine_simps delta_engine_simps delta_sample_eq)
qed

theorem delta_sync_makes_equal_witness:
  "\<exists>A'. state_of A' = crdt_merge (state_of (sample_cluster 2)) (state_of (sample_cluster 0))"
proof -
  obtain g' A' where e: "gossipToPeer sample_env sample_net id ''x'' delta_engine (sample_cluster 0) = (Synced, g', A')"
    using delta_synced by blast
  have u: "build_update (ev_now sample_env) False (clock_at (ge_lastSync delta_engine) ''x'') delta_engine (sample_cluster 0) = Some delta_sample"
    by (simp add: sample_engine_simps delta_engine_simps delta_sample_eq)
  have "state_of (snd (SyncState_recv sample_env delta_sample (sample_cluster 2))) =
      crdt_merge (state_of (sample_cluster 2)) (state_of (sample_cluster 0)) \<and>
      state_of A' = crdt_merge (state_of (sample_cluster 2)) (state_of (sample_cluster 0))"
  proof (rule delta_sync_makes_equal [OF _ _ delta_engine_simps(2) u _ e refl refl])
    show "crdt_ok (state_of (sample_cluster 0))" "crdt_ok (state_of (sample_cluster 2))"
      using sample_cluster_ok by blast+
    show "fst (SyncState_recv sample_env delta_sample (sample_cluster 2)) = Some r"
      if "net_recv (sample_net delta_sample) i = Some r" for i r using that by (simp add: sample_net_def)
  qed (simp_all only: delta_engine_simps sample_engine_simps, code_simp+)
  then show ?thesis by blast
qed

section \<open>Backoff and rounds in flight\<close>

text \<open>The sleep between attempts doubles from the base up to the maximum, as long as the product fits in
  the 64 bits of a duration, and never exceeds the maximum; with the default settings the
  retries wait 250, 500 and 1000 milliseconds.\<close>

theorem backoff_spec:
  "backoff g attempt \<le> ge_backoffMax g \<and>
   (0 \<le> ge_backoffBase g \<and> ge_backoffBase g * 2 ^ attempt < 2 ^ 63 \<longrightarrow>
      backoff g attempt = min (ge_backoffBase g * 2 ^ attempt) (ge_backoffMax g)) \<and>
   map (backoff (NewGossipEngine n i)) [0, 1, 2] = [250 * millisecond, 500 * millisecond, 1000 * millisecond]"
proof -
  have d: "sint (word_of_int b * push_bit a (1 :: int64)) = b * 2 ^ a" if "0 \<le> b" "b * 2 ^ a < 2 ^ 63" for a and b :: int
  proof -
    have "word_of_int b * push_bit a (1 :: int64) = word_of_int (b * 2 ^ a)" by (simp add: push_bit_eq_mult)
    moreover have "0 \<le> b * 2 ^ a" using that(1) by simp
    ultimately show ?thesis using sint_int64 [of "b * 2 ^ a"] that(2) by auto
  qed
  have "map (backoff (NewGossipEngine n i)) [0, 1, 2] = [250 * millisecond, 500 * millisecond, 1000 * millisecond]"
    using d [of "250 * millisecond" 0] d [of "250 * millisecond" 1] d [of "250 * millisecond" 2]
    by (simp add: backoff_def NewGossipEngine_def Let_def)
  moreover have "backoff g attempt = min (ge_backoffBase g * 2 ^ attempt) (ge_backoffMax g)"
    if "0 \<le> ge_backoffBase g" "ge_backoffBase g * 2 ^ attempt < 2 ^ 63"
    unfolding backoff_def Let_def d [OF that] by simp
  moreover have "backoff g attempt \<le> ge_backoffMax g" by (simp add: backoff_def Let_def)
  ultimately show ?thesis by blast
qed

theorem backoff_spec_witness: "backoff (NewGossipEngine ''a'' 0) 2 = 1000 * millisecond"
  using backoff_spec [of "NewGossipEngine ''a'' 0" 2] by (simp add: NewGossipEngine_def)

lemma launches:
  assumes "fold launch_body peers (g, launched) = (g', launched')"
  shows "\<exists>new. launched' = launched @ new \<and> distinct new \<and>
    set new = {a \<in> m_Address ` set peers. fmlookup (ge_syncing g) a \<noteq> Some True} \<and>
    (\<forall>a. fmlookup (ge_syncing g') a = (if a \<in> set new then Some True else fmlookup (ge_syncing g) a))"
  using assms
proof (induction peers arbitrary: g launched)
  case Nil
  then show ?case by simp
next
  case (Cons p peers)
  show ?case
  proof (cases "fmlookup (ge_syncing g) (m_Address p) = Some True")
    case True
    with Cons.IH [of g launched] Cons.prems obtain new where
      "launched' = launched @ new" "distinct new"
      "set new = {a \<in> m_Address ` set peers. fmlookup (ge_syncing g) a \<noteq> Some True}"
      "\<forall>a. fmlookup (ge_syncing g') a = (if a \<in> set new then Some True else fmlookup (ge_syncing g) a)"
      by (auto simp: launch_body_def)
    with True show ?thesis by (intro exI [of _ new]) auto
  next
    case False
    let ?g = "g\<lparr>ge_syncing := fmupd (m_Address p) True (ge_syncing g)\<rparr>"
    from False Cons.prems Cons.IH [of ?g "launched @ [m_Address p]"] obtain new where
      "launched' = launched @ m_Address p # new" "distinct new"
      "set new = {a \<in> m_Address ` set peers. fmlookup (ge_syncing ?g) a \<noteq> Some True}"
      "\<forall>a. fmlookup (ge_syncing g') a = (if a \<in> set new then Some True else fmlookup (ge_syncing ?g) a)"
      by (auto simp: launch_body_def)
    with False show ?thesis by (intro exI [of _ "m_Address p # new"]) auto
  qed
qed

text \<open>At most one round per peer is in flight: a round is launched exactly for the addresses without one.\<close>

lemma ForceSync_launches:
  assumes "ForceSync M g = (contacted, g', launched)"
  shows "distinct launched \<and> contacted = int (length launched) \<and>
    set launched = {a \<in> m_Address ` set (GetAlivePeers M). fmlookup (ge_syncing g) a \<noteq> Some True} \<and>
    (\<forall>a \<in> set launched. fmlookup (ge_syncing g') a = Some True)"
proof (cases "GetAlivePeers M = []")
  case True
  with assms show ?thesis by (simp add: ForceSync_def)
next
  case False
  with assms have "fold launch_body (GetAlivePeers M) (g, []) = (g', launched)" "contacted = int (length launched)"
    by (auto simp: ForceSync_def Let_def split: prod.splits)
  with launches [OF this(1)] show ?thesis by auto
qed

end
