(* ===== verification/Exactness.thy ===== *)
theory Exactness
  imports Gossip
begin

text \<open>
  What the counter is for: the value every node reports once it has heard of all updates is the sum of the deltas
  that clients have sent to any node. The abstract specification is that sum; the concrete system is a cluster of
  services that handle client requests and exchange full states, some of whose answers get lost.
\<close>

section \<open>The cluster\<close>

datatype cluster_event =
  Inc nat IncrementRequest | Dec nat DecrementRequest
  | Sync nat nat
  | Push nat nat

text \<open>\<open>Sync i j\<close> is a full exchange that node \<open>i\<close> starts; \<open>Push i j\<close> is one whose answer does not arrive.\<close>

definition full_push ::
  "(nat \<Rightarrow> service_env) \<Rightarrow> (nat \<Rightarrow> GossipEngine) \<Rightarrow> nat \<times> nat \<Rightarrow> (nat \<Rightarrow> CounterService) \<Rightarrow> nat \<Rightarrow> CounterService" where
  "full_push ev eng e st =
     (case e of (i, j) \<Rightarrow>
        (case build_update (ev_now (ev i)) True fmempty (eng i) (st i) of
           None \<Rightarrow> st | Some u \<Rightarrow> st(j := snd (SyncState_recv (ev j) u (st j)))))"

fun cluster_step ::
  "(nat \<Rightarrow> service_env) \<Rightarrow> (nat \<Rightarrow> GossipEngine) \<Rightarrow> cluster_event \<Rightarrow> (nat \<Rightarrow> CounterService) \<Rightarrow> nat \<Rightarrow> CounterService" where
  "cluster_step ev eng (Inc i req) st = st(i := snd (Increment (ev i) req (st i)))"
| "cluster_step ev eng (Dec i req) st = st(i := snd (Decrement (ev i) req (st i)))"
| "cluster_step ev eng (Sync i j) st = full_exchange ev eng (i, j) st"
| "cluster_step ev eng (Push i j) st = full_push ev eng (i, j) st"

section \<open>The specification\<close>

fun spec_delta :: "string \<Rightarrow> cluster_event \<Rightarrow> int" where
  "spec_delta name (Inc i req) =
     (if canonical_name (ir_CounterName req) = canonical_name name then sint (req_delta (ir_Delta req)) else 0)"
| "spec_delta name (Dec i req) =
     (if canonical_name (dr_CounterName req) = canonical_name name then - sint (req_delta (dr_Delta req)) else 0)"
| "spec_delta name _ = 0"

definition spec_value :: "cluster_event list \<Rightarrow> string \<Rightarrow> int" where
  "spec_value es name = sum_list (map (spec_delta name) es)"

text \<open>
  \<open>inform\<close> follows which nodes' updates have all reached a node: an update at \<open>i\<close> is news to everybody else, an
  exchange passes on what either side knows, a push what its sender knows.
\<close>

fun inform :: "cluster_event \<Rightarrow> (nat \<Rightarrow> nat set) \<Rightarrow> nat \<Rightarrow> nat set" where
  "inform (Inc i req) K = (\<lambda>n. if n = i then K n else K n - {i})"
| "inform (Dec i req) K = (\<lambda>n. if n = i then K n else K n - {i})"
| "inform (Sync i j) K = K(i := K i \<union> K j, j := K i \<union> K j)"
| "inform (Push i j) K = K(j := K i \<union> K j)"

text \<open>The events a cluster of \<open>n\<close> nodes sees: colon-free names and non-negative deltas.\<close>

fun event_ok :: "nat \<Rightarrow> cluster_event \<Rightarrow> bool" where
  "event_ok n (Inc i req) \<longleftrightarrow> i < n \<and> colon_free (ir_CounterName req) \<and> 0 \<le> sint (ir_Delta req)"
| "event_ok n (Dec i req) \<longleftrightarrow> i < n \<and> colon_free (dr_CounterName req) \<and> 0 \<le> sint (dr_Delta req)"
| "event_ok n (Sync i j) \<longleftrightarrow> i < n \<and> j < n"
| "event_ok n (Push i j) \<longleftrightarrow> i < n \<and> j < n"

section \<open>What each node has contributed\<close>

fun inc_at :: "nat \<Rightarrow> string \<Rightarrow> cluster_event \<Rightarrow> int" where
  "inc_at i name (Inc j req) =
     (if j = i \<and> canonical_name (ir_CounterName req) = name then sint (req_delta (ir_Delta req)) else 0)"
| "inc_at i name _ = 0"

fun dec_at :: "nat \<Rightarrow> string \<Rightarrow> cluster_event \<Rightarrow> int" where
  "dec_at i name (Dec j req) =
     (if j = i \<and> canonical_name (dr_CounterName req) = name then sint (req_delta (dr_Delta req)) else 0)"
| "dec_at i name _ = 0"

text \<open>One of the two maps of a replica, against the contributions \<open>f\<close> of the nodes: every entry belongs to a node and
  does not exceed what that node has contributed.\<close>

definition bounded_by :: "nat \<Rightarrow> (nat \<Rightarrow> string) \<Rightarrow> (nat \<Rightarrow> string \<Rightarrow> int) \<Rightarrow> int64 gomap \<Rightarrow> bool" where
  "bounded_by n ids f m \<longleftrightarrow> counts_positive m \<and>
     (\<forall>k \<in> fset (fmdom m). \<exists>i < n. \<exists>name. colon_free name \<and> name \<noteq> '''' \<and> k = counterKey name (ids i) \<and> sint (gget m k) \<le> f i name)"

text \<open>The replica holds everything that the nodes in \<open>K\<close> have contributed.\<close>

definition holds_all :: "(nat \<Rightarrow> string) \<Rightarrow> (nat \<Rightarrow> string \<Rightarrow> int) \<Rightarrow> nat set \<Rightarrow> int64 gomap \<Rightarrow> bool" where
  "holds_all ids f K m \<longleftrightarrow>
     (\<forall>i \<in> K. \<forall>name. colon_free name \<and> name \<noteq> '''' \<longrightarrow> f i name \<le> sint (gget m (counterKey name (ids i))))"

definition good_ids :: "nat \<Rightarrow> (nat \<Rightarrow> string) \<Rightarrow> bool" where
  "good_ids n ids \<longleftrightarrow> inj_on ids {..<n} \<and> (\<forall>i < n. colon_free (ids i))"

lemma counterKey_canonical: "counterKey (canonical_name name) nodeID = counterKey name nodeID"
  by (simp add: counterKey_def canonical_name_def)

lemma counterKey_inj:
  assumes "colon_free a" "colon_free b" "a \<noteq> ''''" "b \<noteq> ''''" "colon_free x" "colon_free y"
    and "counterKey a x = counterKey b y"
  shows "a = b \<and> x = y"
proof -
  have a: "canonical_name a = a" "canonical_name b = b" using assms(3,4) by (simp_all add: canonical_name_def)
  have "a = b" using owner_counterKey [of a x] owner_counterKey [of b y] assms a by metis
  with assms(7) show ?thesis by (auto simp: counterKey_def split: if_splits)
qed

lemma good_ids_key:
  assumes "good_ids n ids" "i < n" "j < n" "colon_free a" "colon_free b" "a \<noteq> ''''" "b \<noteq> ''''"
    and "counterKey a (ids i) = counterKey b (ids j)"
  shows "a = b \<and> i = j"
  using counterKey_inj [OF assms(4-7) _ _ assms(8)] assms(1-3) by (auto simp: good_ids_def inj_on_def)

lemma bounded_byD:
  assumes "bounded_by n ids f m" "good_ids n ids" "i < n" "colon_free name" "name \<noteq> ''''" "0 \<le> f i name"
  shows "sint (gget m (counterKey name (ids i))) \<le> f i name"
proof (cases "fmlookup m (counterKey name (ids i))")
  case (Some v)
  then have "counterKey name (ids i) \<in> fset (fmdom m)" by (rule fmdomI)
  with assms(1) obtain j name' where j: "j < n" "colon_free name'" "name' \<noteq> ''''"
    "counterKey name (ids i) = counterKey name' (ids j)" "sint (gget m (counterKey name (ids i))) \<le> f j name'"
    unfolding bounded_by_def by blast
  with good_ids_key [OF assms(2,3) j(1) assms(4) j(2) assms(5) j(3,4)] show ?thesis by simp
qed (simp add: assms(6))

lemma bounded_by_merge:
  assumes "bounded_by n ids f m" "bounded_by n ids f m'"
  shows "bounded_by n ids f (merge_max m m')"
proof -
  have pos: "counts_positive m" "counts_positive m'" using assms by (auto simp: bounded_by_def)
  have "\<exists>i < n. \<exists>name. colon_free name \<and> name \<noteq> '''' \<and> k = counterKey name (ids i) \<and> sint (gget (merge_max m m') k) \<le> f i name"
    if "k \<in> fset (fmdom (merge_max m m'))" for k
  proof -
    from that obtain v where v: "fmlookup (merge_max m m') k = Some v" by (auto simp: fmlookup_dom_iff)
    then consider "fmlookup m k = Some v" | "fmlookup m' k = Some v"
      by (auto simp: fmlookup_merge_max split: option.splits if_splits)
    then show ?thesis
    proof cases
      case 1
      then have "k \<in> fset (fmdom m)" by (rule fmdomI)
      with assms(1) 1 v show ?thesis unfolding bounded_by_def by (metis gget_Some)
    next
      case 2
      then have "k \<in> fset (fmdom m')" by (rule fmdomI)
      with assms(2) 2 v show ?thesis unfolding bounded_by_def by (metis gget_Some)
    qed
  qed
  with pos show ?thesis unfolding bounded_by_def by (blast intro: counts_positive_merge_max)
qed

lemma holds_all_merge:
  assumes "counts_positive m" "counts_positive m'" "holds_all ids f K m" "holds_all ids f K' m'"
  shows "holds_all ids f (K \<union> K') (merge_max m m')"
  using assms unfolding holds_all_def by (auto simp: gget_merge_max_sint le_max_iff_disj)

lemma holds_all_mono: "holds_all ids f K m \<Longrightarrow> K' \<subseteq> K \<Longrightarrow> holds_all ids f K' m"
  by (auto simp: holds_all_def)

lemma bounded_by_mono: "bounded_by n ids f m \<Longrightarrow> (\<And>i name. f i name \<le> f' i name) \<Longrightarrow> bounded_by n ids f' m"
  unfolding bounded_by_def by (meson order_trans)

section \<open>One update\<close>

definition add_at :: "(nat \<Rightarrow> string \<Rightarrow> int) \<Rightarrow> nat \<Rightarrow> string \<Rightarrow> int \<Rightarrow> nat \<Rightarrow> string \<Rightarrow> int" where
  "add_at f i name d = (\<lambda>j b. f j b + (if j = i \<and> b = name then d else 0))"

lemma sint_add_at:
  assumes "sint (gget m k) = x" "0 \<le> x" "0 < sint d" "x + sint d < 2 ^ 63"
  shows "sint (gget m k + d) = x + sint (d :: int64)"
  using assms by (subst sint_add_int64) auto

lemma update_bounded:
  assumes "bounded_by n ids f m" "i < n" "colon_free name" "name \<noteq> ''''" "0 \<le> f i name"
    and own: "sint (gget m (counterKey name (ids i))) = f i name"
    and d: "0 < sint d" "f i name + sint d < 2 ^ 63"
  shows "bounded_by n ids (add_at f i name (sint d)) (fmupd (counterKey name (ids i)) (gget m (counterKey name (ids i)) + d) m)"
    (is "bounded_by n ids ?f (fmupd ?k ?v m)")
proof -
  have v: "sint ?v = f i name + sint d" using own assms(5) d by (rule sint_add_at)
  have mono: "bounded_by n ids ?f m" using assms(1) d(1) by (rule_tac bounded_by_mono) (auto simp: add_at_def)
  have "counts_positive (fmupd ?k ?v m)"
    using assms(1,5) v d(1) by (auto simp: bounded_by_def counts_positive_def)
  moreover have "\<exists>j < n. \<exists>b. colon_free b \<and> b \<noteq> '''' \<and> k = counterKey b (ids j) \<and> sint (gget (fmupd ?k ?v m) k) \<le> ?f j b"
    if "k \<in> fset (fmdom (fmupd ?k ?v m))" for k
  proof (cases "k = ?k")
    case True
    with assms(2-4) v show ?thesis by (intro exI [of _ i] conjI exI [of _ name]) (auto simp: add_at_def)
  next
    case False
    with that have "k \<in> fset (fmdom m)" by simp
    with mono False show ?thesis unfolding bounded_by_def by simp
  qed
  ultimately show ?thesis unfolding bounded_by_def by blast
qed

lemma update_holds:
  assumes "holds_all ids f K m" "good_ids n ids" "K \<subseteq> {..<n}" "i < n" "colon_free name" "name \<noteq> ''''" "0 \<le> f i name"
    and own: "sint (gget m (counterKey name (ids i))) = f i name"
    and d: "0 < sint d" "f i name + sint d < 2 ^ 63"
  shows "holds_all ids (add_at f i name (sint d)) K (fmupd (counterKey name (ids i)) (gget m (counterKey name (ids i)) + d) m)"
  unfolding holds_all_def
proof (intro ballI allI impI)
  fix j b
  assume j: "j \<in> K" "colon_free b \<and> b \<noteq> ''''"
  with assms(3) have "j < n" by auto
  have v: "sint (gget m (counterKey name (ids i)) + d) = f i name + sint d" using own assms(7) d by (rule sint_add_at)
  show "add_at f i name (sint d) j b \<le>
      sint (gget (fmupd (counterKey name (ids i)) (gget m (counterKey name (ids i)) + d) m) (counterKey b (ids j)))"
  proof (cases "counterKey b (ids j) = counterKey name (ids i)")
    case True
    with good_ids_key [OF assms(2) \<open>j < n\<close> assms(4)] j assms(5,6) have "b = name \<and> j = i" by blast
    with v True show ?thesis by (simp add: add_at_def)
  next
    case False
    then have "\<not> (j = i \<and> b = name)" by blast
    with False j assms(1) show ?thesis by (auto simp: add_at_def holds_all_def)
  qed
qed

lemma holds_add_at: "holds_all ids f K m \<Longrightarrow> i \<notin> K \<Longrightarrow> holds_all ids (add_at f i name d) K m"
  by (auto simp: holds_all_def add_at_def)

section \<open>One replica\<close>

text \<open>A counter that holds all that the nodes in \<open>K\<close> have added and subtracted, and nothing more.\<close>

definition replica_ok ::
  "nat \<Rightarrow> (nat \<Rightarrow> string) \<Rightarrow> (nat \<Rightarrow> string \<Rightarrow> int) \<Rightarrow> (nat \<Rightarrow> string \<Rightarrow> int) \<Rightarrow> nat set \<Rightarrow> PNCounter \<Rightarrow> bool" where
  "replica_ok n ids fp fn K c \<longleftrightarrow>
     bounded_by n ids fp (positive c) \<and> holds_all ids fp K (positive c) \<and>
     bounded_by n ids fn (negative c) \<and> holds_all ids fn K (negative c)"

lemma bounded_by_counts: "bounded_by n ids f m \<Longrightarrow> counts_positive m"
  by (simp add: bounded_by_def)

lemma replica_merge:
  "replica_ok n ids fp fn K c \<Longrightarrow> replica_ok n ids fp fn K' c' \<Longrightarrow> replica_ok n ids fp fn (K \<union> K') (PN_Merge c c')"
  unfolding replica_ok_def PN_Merge_def
  by (simp add: bounded_by_merge) (metis bounded_by_counts holds_all_merge)

lemma replica_mono: "replica_ok n ids fp fn K c \<Longrightarrow> K' \<subseteq> K \<Longrightarrow> replica_ok n ids fp fn K' c"
  by (auto simp: replica_ok_def elim: holds_all_mono)

lemma replica_exact:
  assumes "bounded_by n ids f m" "holds_all ids f K m" "good_ids n ids" "i \<in> K" "i < n" "colon_free name" "name \<noteq> ''''" "0 \<le> f i name"
  shows "sint (gget m (counterKey name (ids i))) = f i name"
  using bounded_byD [OF assms(1,3,5-8)] assms(2,4,6,7) unfolding holds_all_def by (metis order_antisym)

text \<open>The value of a replica that has heard of everything.\<close>

lemma true_sum_exact:
  assumes m: "bounded_by n ids f m" "holds_all ids f {..<n} m" and ids: "good_ids n ids"
    and name: "colon_free name" "name \<noteq> ''''" and f: "\<And>i. 0 \<le> f i name"
  shows "true_sum (keyBelongsTo name) m = (\<Sum>i<n. f i name)"
proof -
  let ?key = "\<lambda>i. counterKey name (ids i)"
  have owner: "keyBelongsTo name (counterKey b (ids i)) \<longleftrightarrow> b = name" if "i < n" "colon_free b" "b \<noteq> ''''" for i b
    using that ids name by (simp add: belongs_iff_owner owner_counterKey good_ids_def canonical_name_def)
  have inj: "inj_on ?key {..<n}"
    using good_ids_key [OF ids _ _ name(1,1,2,2)] by (intro inj_onI) (metis lessThan_iff)
  have zero: "sint (gget m k) = 0" if "k \<notin> fset (fmdom m)" for k using that by (simp add: fmdom_notD)
  have "true_sum (keyBelongsTo name) m = (\<Sum>k \<in> ?key ` {..<n}. sint (gget m k))"
    unfolding true_sum_def
  proof (rule sum.mono_neutral_left)
    show "{k \<in> fset (fmdom m). keyBelongsTo name k} \<subseteq> ?key ` {..<n}"
    proof
      fix k
      assume "k \<in> {k \<in> fset (fmdom m). keyBelongsTo name k}"
      then have k: "k \<in> fset (fmdom m)" "keyBelongsTo name k" by simp_all
      with m(1) obtain i b where i: "i < n" "colon_free b" "b \<noteq> ''''" "k = counterKey b (ids i)"
        unfolding bounded_by_def by blast
      with owner [OF i(1-3)] k(2) show "k \<in> ?key ` {..<n}" by simp
    qed
    show "\<forall>k \<in> ?key ` {..<n} - {k \<in> fset (fmdom m). keyBelongsTo name k}. sint (gget m k) = 0"
      using owner name zero by auto
  qed simp
  also have "\<dots> = (\<Sum>i<n. sint (gget m (?key i)))"
    by (simp add: sum.reindex [OF inj])
  also have "\<dots> = (\<Sum>i<n. f i name)"
    using m ids name f by (intro sum.cong refl replica_exact) auto
  finally show ?thesis .
qed

section \<open>The whole run\<close>

definition incs :: "cluster_event list \<Rightarrow> nat \<Rightarrow> string \<Rightarrow> int" where
  "incs es i name = sum_list (map (inc_at i name) es)"

definition decs :: "cluster_event list \<Rightarrow> nat \<Rightarrow> string \<Rightarrow> int" where
  "decs es i name = sum_list (map (dec_at i name) es)"

text \<open>All deltas taken together, whatever their sign: the bound that rules out overflow.\<close>

fun gross_delta :: "cluster_event \<Rightarrow> int" where
  "gross_delta (Inc i req) = sint (req_delta (ir_Delta req))"
| "gross_delta (Dec i req) = sint (req_delta (dr_Delta req))"
| "gross_delta _ = 0"

definition gross :: "cluster_event list \<Rightarrow> int" where
  "gross es = sum_list (map gross_delta es)"

definition informed :: "cluster_event list \<Rightarrow> nat \<Rightarrow> nat set" where
  "informed es = fold inform es (\<lambda>_. UNIV)"

lemma req_delta_pos: "0 \<le> sint d \<Longrightarrow> 0 < sint (req_delta d)"
proof -
  assume d: "0 \<le> sint d"
  have "sint (scast d :: int64) = sint d" by (rule sint_up_scast) (simp add: is_up)
  moreover have "sint (scast d :: int64) \<noteq> 0" if "scast d \<noteq> (0 :: int64)" using that sint_eq_iff [of "scast d" 0] by simp
  ultimately show ?thesis using d by (cases "scast d = (0 :: int64)") (auto simp: req_delta_def Let_def)
qed

lemma event_deltas:
  assumes "event_ok n e"
  shows "0 \<le> inc_at i name e" "0 \<le> dec_at i name e" "0 \<le> gross_delta e"
    "inc_at i name e \<le> gross_delta e" "dec_at i name e \<le> gross_delta e"
  using assms by (cases e; auto dest!: req_delta_pos simp: less_imp_le)+

lemma sum_bounds:
  assumes "list_all (event_ok n) es"
  shows "0 \<le> incs es i name" "0 \<le> decs es i name" "0 \<le> gross es" "incs es i name \<le> gross es" "decs es i name \<le> gross es"
  using assms by (induction es) (auto simp: incs_def decs_def gross_def event_deltas intro: add_nonneg_nonneg add_mono)

lemma incs_snoc:
  "incs (es @ [Inc i req]) = add_at (incs es) i (canonical_name (ir_CounterName req)) (sint (req_delta (ir_Delta req)))"
  "incs (es @ [Dec i req']) = incs es" "incs (es @ [Sync i j]) = incs es" "incs (es @ [Push i j]) = incs es"
  by (auto simp: incs_def add_at_def fun_eq_iff)

lemma decs_snoc:
  "decs (es @ [Dec i req']) = add_at (decs es) i (canonical_name (dr_CounterName req')) (sint (req_delta (dr_Delta req')))"
  "decs (es @ [Inc i req]) = decs es" "decs (es @ [Sync i j]) = decs es" "decs (es @ [Push i j]) = decs es"
  by (auto simp: decs_def add_at_def fun_eq_iff)

lemma canonical_ok: "colon_free name \<Longrightarrow> colon_free (canonical_name name) \<and> canonical_name name \<noteq> ''''"
  by (simp add: canonical_name_def)

lemma Increment_counter: "sv_counter (snd (Increment ev req s)) = PN_IncrementName (canonical_name (ir_CounterName req)) (req_delta (ir_Delta req)) (sv_counter s)"
  by (simp add: Increment_def Let_def PN_IncrementName_def normalizeName_def canonical_name_def)

lemma Decrement_counter: "sv_counter (snd (Decrement ev req s)) = PN_DecrementName (canonical_name (dr_CounterName req)) (req_delta (dr_Delta req)) (sv_counter s)"
  by (simp add: Decrement_def Let_def PN_DecrementName_def normalizeName_def canonical_name_def)

lemma merge_remote_counter:
  "sv_counter (merge_remote p n c s) = PN_Merge (sv_counter s) \<lparr>positive = p, negative = n, pn_nodeID = x\<rparr>"
  by (simp add: merge_remote_eq PN_Merge_def)

lemma recv_counter:
  assumes "su_Type u \<noteq> HEARTBEAT"
  shows "sv_counter (snd (SyncState_recv ev u s)) =
    PN_Merge (sv_counter s) \<lparr>positive = su_PositiveState u, negative = su_NegativeState u, pn_nodeID = x\<rparr>"
  using sync_core [of ev u s] assms by (simp add: core_def merge_remote_counter [where x = x])

lemma mergeRemoteState_counter:
  "sv_counter (mergeRemoteState ev u g s) =
    PN_Merge (sv_counter s) \<lparr>positive = su_PositiveState u, negative = su_NegativeState u, pn_nodeID = x\<rparr>"
  by (simp add: mergeRemoteState_def Let_def merge_remote_counter [where x = x] split: option.split)

lemma Merge_counts: "PN_Merge c \<lparr>positive = positive c', negative = negative c', pn_nodeID = x\<rparr> = PN_Merge c c'"
  by (simp add: PN_Merge_def)

lemma Merge_nodeID [simp]: "pn_nodeID (PN_Merge c c') = pn_nodeID c"
  by (simp add: PN_Merge_def)

lemma full_update_counts:
  "\<exists>u. build_update now True base g s = Some u \<and> su_Type u = FULL_STATE \<and>
     su_PositiveState u = positive (sv_counter s) \<and> su_NegativeState u = negative (sv_counter s)"
  by (simp add: build_update_def Let_def PN_Positive_def PN_Negative_def)

lemma full_push_counters:
  "sv_counter (full_push ev eng (i, j) st m) =
     (if m = j then PN_Merge (sv_counter (st j)) (sv_counter (st i)) else sv_counter (st m))"
proof -
  obtain u where u: "build_update (ev_now (ev i)) True fmempty (eng i) (st i) = Some u" "su_Type u = FULL_STATE"
    "su_PositiveState u = positive (sv_counter (st i))" "su_NegativeState u = negative (sv_counter (st i))"
    using full_update_counts by blast
  show ?thesis
    using u recv_counter [of u "ev j" "st j" "''''"] by (simp add: full_push_def Merge_counts)
qed

lemma full_exchange_counters:
  "sv_counter (full_exchange ev eng (i, j) st m) =
     (let B = PN_Merge (sv_counter (st j)) (sv_counter (st i))
      in if m = j then B else if m = i then PN_Merge (sv_counter (st i)) B else sv_counter (st m))"
proof -
  obtain u where u: "build_update (ev_now (ev i)) True fmempty (eng i) (st i) = Some u" "su_Type u = FULL_STATE"
    "su_PositiveState u = positive (sv_counter (st i))" "su_NegativeState u = negative (sv_counter (st i))"
    using full_update_counts by blast
  obtain r B where r: "SyncState_recv (ev j) u (st j) = (Some r, B)" "update_state r = state_of B"
    using full_reply [OF u(2), of "ev j" "st j"] by (metis prod.collapse)
  have B: "sv_counter B = PN_Merge (sv_counter (st j)) (sv_counter (st i))"
    using u recv_counter [of u "ev j" "st j" "''''"] r(1) by (simp add: Merge_counts)
  have counts: "su_PositiveState r = positive (sv_counter B)" "su_NegativeState r = negative (sv_counter B)"
    using r(2) by (simp_all add: update_state_def state_of_def)
  show ?thesis
    using u(1) r(1) B by (simp add: full_exchange_def Let_def mergeRemoteState_counter [where x = "''''"] counts Merge_counts)
qed

section \<open>The invariant of the run\<close>

lemma replica_Increment:
  assumes "replica_ok n ids fp fn K c" "good_ids n ids" "pn_nodeID c = ids i" "i \<in> K" "K \<subseteq> {..<n}"
    and "colon_free name" "name \<noteq> ''''" "0 \<le> fp i name" "0 < sint d" "fp i name + sint d < 2 ^ 63"
  shows "replica_ok n ids (add_at fp i name (sint d)) fn K (PN_IncrementName name d c)"
proof -
  have i: "i < n" using assms(4,5) by auto
  have m: "bounded_by n ids fp (positive c)" "holds_all ids fp K (positive c)" using assms(1) by (auto simp: replica_ok_def)
  note own = replica_exact [OF m assms(2,4) i assms(6-8)]
  note update_bounded [OF m(1) i assms(6-8) own assms(9,10)]
    update_holds [OF m(2) assms(2,5) i assms(6-8) own assms(9,10)]
  with assms(1,3) show ?thesis by (simp add: replica_ok_def PN_IncrementName_def Let_def)
qed

lemma replica_Decrement:
  assumes "replica_ok n ids fp fn K c" "good_ids n ids" "pn_nodeID c = ids i" "i \<in> K" "K \<subseteq> {..<n}"
    and "colon_free name" "name \<noteq> ''''" "0 \<le> fn i name" "0 < sint d" "fn i name + sint d < 2 ^ 63"
  shows "replica_ok n ids fp (add_at fn i name (sint d)) K (PN_DecrementName name d c)"
proof -
  have i: "i < n" using assms(4,5) by auto
  have m: "bounded_by n ids fn (negative c)" "holds_all ids fn K (negative c)" using assms(1) by (auto simp: replica_ok_def)
  note own = replica_exact [OF m assms(2,4) i assms(6-8)]
  note update_bounded [OF m(1) i assms(6-8) own assms(9,10)]
    update_holds [OF m(2) assms(2,5) i assms(6-8) own assms(9,10)]
  with assms(1,3) show ?thesis by (simp add: replica_ok_def PN_DecrementName_def Let_def)
qed

lemma replica_news:
  assumes "replica_ok n ids fp fn K c" "K' \<subseteq> K" "i \<notin> K'" "0 \<le> d"
  shows "replica_ok n ids (add_at fp i name d) fn K' c" "replica_ok n ids fp (add_at fn i name d) K' c"
proof -
  have "bounded_by n ids (add_at f i name d) m" if "bounded_by n ids f m" for f m
    using that assms(4) by (rule_tac bounded_by_mono) (auto simp: add_at_def)
  with assms replica_mono [OF assms(1,2)] show "replica_ok n ids (add_at fp i name d) fn K' c"
    "replica_ok n ids fp (add_at fn i name d) K' c"
    by (auto simp: replica_ok_def intro: holds_add_at)
qed

definition cluster_ok :: "nat \<Rightarrow> (nat \<Rightarrow> string) \<Rightarrow> cluster_event list \<Rightarrow> (nat \<Rightarrow> CounterService) \<Rightarrow> bool" where
  "cluster_ok n ids es st \<longleftrightarrow>
     (\<forall>j < n. pn_nodeID (sv_counter (st j)) = ids j \<and>
        replica_ok n ids (incs es) (decs es) ((informed es j \<union> {j}) \<inter> {..<n}) (sv_counter (st j)))"

lemma informed_snoc: "informed (es @ [e]) = inform e (informed es)"
  by (simp add: informed_def)

lemma gross_snoc: "gross (es @ [e]) = gross es + gross_delta e"
  by (simp add: gross_def)

abbreviation known :: "nat \<Rightarrow> cluster_event list \<Rightarrow> nat \<Rightarrow> nat set" where
  "known n es j \<equiv> (informed es j \<union> {j}) \<inter> {..<n}"

lemma cluster_okD:
  "cluster_ok n ids es st \<Longrightarrow> j < n \<Longrightarrow> replica_ok n ids (incs es) (decs es) (known n es j) (sv_counter (st j))"
  "cluster_ok n ids es st \<Longrightarrow> j < n \<Longrightarrow> pn_nodeID (sv_counter (st j)) = ids j"
  by (auto simp: cluster_ok_def)

lemma cluster_Inc_ok:
  assumes inv: "cluster_ok n ids es st" and es: "list_all (event_ok n) es" and e: "event_ok n (Inc i req)"
    and ids: "good_ids n ids" and gross: "gross (es @ [Inc i req]) < 2 ^ 63"
  shows "cluster_ok n ids (es @ [Inc i req]) (cluster_step ev eng (Inc i req) st)"
  unfolding cluster_ok_def
proof (intro allI impI)
  fix j
  assume j: "j < n"
  let ?name = "canonical_name (ir_CounterName req)" and ?d = "req_delta (ir_Delta req)"
  have i: "i < n" and name: "colon_free ?name" "?name \<noteq> ''''" and d: "0 < sint ?d"
    using e req_delta_pos canonical_ok by auto
  have lt: "incs es i ?name + sint ?d < 2 ^ 63" using gross sum_bounds(4) [OF es, of i ?name] by (simp add: gross_snoc)
  note own = replica_Increment [OF cluster_okD(1) [OF inv i] ids cluster_okD(2) [OF inv i] _ _ name sum_bounds(1) [OF es] d lt]
  have news: "replica_ok n ids (add_at (incs es) i ?name (sint ?d)) (decs es) ((informed es j - {i} \<union> {j}) \<inter> {..<n}) (sv_counter (st j))"
    if "j \<noteq> i" using that d by (intro replica_news(1) [OF cluster_okD(1) [OF inv j]]) auto
  show "pn_nodeID (sv_counter (cluster_step ev eng (Inc i req) st j)) = ids j \<and>
    replica_ok n ids (incs (es @ [Inc i req])) (decs (es @ [Inc i req])) (known n (es @ [Inc i req]) j)
      (sv_counter (cluster_step ev eng (Inc i req) st j))"
    using own news i cluster_okD(2) [OF inv j]
    by (cases "j = i") (simp_all add: incs_snoc decs_snoc informed_snoc Increment_counter pn_defs)
qed

lemma cluster_Dec_ok:
  assumes inv: "cluster_ok n ids es st" and es: "list_all (event_ok n) es" and e: "event_ok n (Dec i req)"
    and ids: "good_ids n ids" and gross: "gross (es @ [Dec i req]) < 2 ^ 63"
  shows "cluster_ok n ids (es @ [Dec i req]) (cluster_step ev eng (Dec i req) st)"
  unfolding cluster_ok_def
proof (intro allI impI)
  fix j
  assume j: "j < n"
  let ?name = "canonical_name (dr_CounterName req)" and ?d = "req_delta (dr_Delta req)"
  have i: "i < n" and name: "colon_free ?name" "?name \<noteq> ''''" and d: "0 < sint ?d"
    using e req_delta_pos canonical_ok by auto
  have lt: "decs es i ?name + sint ?d < 2 ^ 63" using gross sum_bounds(5) [OF es, of i ?name] by (simp add: gross_snoc)
  note own = replica_Decrement [OF cluster_okD(1) [OF inv i] ids cluster_okD(2) [OF inv i] _ _ name sum_bounds(2) [OF es] d lt]
  have news: "replica_ok n ids (incs es) (add_at (decs es) i ?name (sint ?d)) ((informed es j - {i} \<union> {j}) \<inter> {..<n}) (sv_counter (st j))"
    if "j \<noteq> i" using that d by (intro replica_news(2) [OF cluster_okD(1) [OF inv j]]) auto
  show "pn_nodeID (sv_counter (cluster_step ev eng (Dec i req) st j)) = ids j \<and>
    replica_ok n ids (incs (es @ [Dec i req])) (decs (es @ [Dec i req])) (known n (es @ [Dec i req]) j)
      (sv_counter (cluster_step ev eng (Dec i req) st j))"
    using own news i cluster_okD(2) [OF inv j]
    by (cases "j = i") (simp_all add: incs_snoc decs_snoc informed_snoc Decrement_counter pn_defs)
qed

lemma cluster_Sync_ok:
  assumes inv: "cluster_ok n ids es st" and ab: "a < n" "b < n"
  shows "cluster_ok n ids (es @ [Sync a b]) (cluster_step ev eng (Sync a b) st)"
    and "cluster_ok n ids (es @ [Push a b]) (cluster_step ev eng (Push a b) st)"
proof -
  note ok = cluster_okD [OF inv]
  note B = replica_merge [OF ok(1) [OF ab(2)] ok(1) [OF ab(1)]]
  note A = replica_merge [OF ok(1) [OF ab(1)] B]
  have B': "replica_ok n ids (incs es) (decs es) ((informed es a \<union> informed es b \<union> {b}) \<inter> {..<n})
      (PN_Merge (sv_counter (st b)) (sv_counter (st a)))"
    by (rule replica_mono [OF B]) auto
  have A': "replica_ok n ids (incs es) (decs es) ((informed es a \<union> informed es b \<union> {a}) \<inter> {..<n})
      (PN_Merge (sv_counter (st a)) (PN_Merge (sv_counter (st b)) (sv_counter (st a))))"
    by (rule replica_mono [OF A]) auto
  show "cluster_ok n ids (es @ [Sync a b]) (cluster_step ev eng (Sync a b) st)"
    unfolding cluster_ok_def using ok ab A' B'
    by (auto simp: incs_snoc decs_snoc informed_snoc full_exchange_counters Let_def)
  show "cluster_ok n ids (es @ [Push a b]) (cluster_step ev eng (Push a b) st)"
    unfolding cluster_ok_def using ok ab B'
    by (auto simp: incs_snoc decs_snoc informed_snoc full_push_counters)
qed

lemma cluster_step_ok:
  assumes "cluster_ok n ids es st" "list_all (event_ok n) es" "event_ok n e" "good_ids n ids" "gross (es @ [e]) < 2 ^ 63"
  shows "cluster_ok n ids (es @ [e]) (cluster_step ev eng e st)"
  using assms cluster_Inc_ok cluster_Dec_ok cluster_Sync_ok by (cases e) (simp_all del: cluster_step.simps)

lemma cluster_run_ok:
  assumes "list_all (event_ok n) es" "good_ids n ids" "gross es < 2 ^ 63" "\<forall>j < n. sv_counter (st j) = NewPNCounter (ids j)"
  shows "cluster_ok n ids es (fold (cluster_step ev eng) es st)"
  using assms(1,3)
proof (induction es rule: rev_induct)
  case Nil
  show ?case using assms(4)
    by (simp add: cluster_ok_def replica_ok_def NewPNCounter_def bounded_by_def holds_all_def incs_def decs_def)
next
  case (snoc e es)
  then have es: "list_all (event_ok n) es" "event_ok n e" by simp_all
  have "gross es < 2 ^ 63" using snoc.prems(2) event_deltas(3) [OF es(2)] by (simp add: gross_snoc)
  with snoc.IH es have "cluster_ok n ids es (fold (cluster_step ev eng) es st)" by blast
  from cluster_step_ok [OF this es assms(2) snoc.prems(2)] show ?case by simp
qed

lemma spec_value_canonical: "spec_value es (canonical_name name) = spec_value es name"
proof -
  have "spec_delta (canonical_name name) e = spec_delta name e" for e
    by (cases e) (simp_all add: canonical_name_def)
  then have "spec_delta (canonical_name name) = spec_delta name" by (rule ext)
  then show ?thesis by (simp add: spec_value_def)
qed

lemma spec_value_contributions:
  assumes "list_all (event_ok n) es" "name \<noteq> ''''"
  shows "spec_value es name = (\<Sum>i<n. incs es i name) - (\<Sum>i<n. decs es i name)"
proof -
  have "spec_delta name e = (\<Sum>i<n. inc_at i name e) - (\<Sum>i<n. dec_at i name e)" if "event_ok n e" for e
    using that assms(2) by (cases e) (auto simp: canonical_name_def if_distrib cong: if_cong)
  with assms(1) show ?thesis
    by (induction es) (simp_all add: spec_value_def incs_def decs_def sum.distrib)
qed

lemma exact_value:
  assumes "list_all (event_ok n) es" and "good_ids n ids" and "gross es < 2 ^ 63"
    and "\<forall>j < n. sv_counter (st j) = NewPNCounter (ids j)"
    and "i < n" and "{..<n} \<subseteq> informed es i \<union> {i}" and "colon_free name"
  shows "sint (PN_ValueName name (sv_counter (fold (cluster_step ev eng) es st i))) = spec_value es name"
proof -
  let ?c = "sv_counter (fold (cluster_step ev eng) es st i)" and ?name = "canonical_name name"
  note bounds = sum_bounds [OF assms(1)]
  have all: "known n es i = {..<n}" using assms(6) by auto
  have "replica_ok n ids (incs es) (decs es) {..<n} ?c"
    using cluster_okD(1) [OF cluster_run_ok [OF assms(1-4)] assms(5)] all by simp
  then have sums: "true_sum (keyBelongsTo ?name) (positive ?c) = (\<Sum>i<n. incs es i ?name)"
    "true_sum (keyBelongsTo ?name) (negative ?c) = (\<Sum>i<n. decs es i ?name)"
    using canonical_ok [OF assms(7)] bounds assms(2) by (auto simp: replica_ok_def intro!: true_sum_exact)
  have same: "keyBelongsTo ?name = keyBelongsTo name" "spec_value es ?name = spec_value es name"
    using canonical_belongs [of ?name name] by (simp add: canonical_name_def) (rule spec_value_canonical)
  have val_eq: "PN_ValueName name ?c = word_of_int (spec_value es name)"
    using spec_value_contributions [OF assms(1), of ?name] canonical_ok [OF assms(7)] sums
    by (simp add: PN_ValueName_eq key_sum_true_sum same flip: same)
  have "\<bar>spec_value es name\<bar> \<le> gross es"
    using assms(1)
  proof (induction es)
    case (Cons e es)
    have "\<bar>spec_delta name e\<bar> \<le> gross_delta e" using Cons.prems by (cases e) (auto dest!: req_delta_pos)
    with Cons show ?case by (simp add: spec_value_def gross_def)
  qed (simp add: spec_value_def gross_def)
  then show ?thesis unfolding val_eq using assms(3) by (intro sint_int64) auto
qed

section \<open>Properties\<close>

text \<open>C1: no update is lost and none is counted twice: after any sequence of client requests, exchanges and exchanges whose answer
  is lost, a node that has heard, directly or through others, of every node's updates reports for every counter exactly
  the sum of the deltas that clients sent to the cluster, provided that counter names and node ids contain no
  colon, deltas are not negative, and all deltas together stay below 2^63.\<close>

theorem counter_exact:
  assumes "list_all (event_ok n) es" and "good_ids n ids" and "gross es < 2 ^ 63"
    and "\<forall>j < n. sv_counter (st j) = NewPNCounter (ids j)"
    and "i < n" and "{..<n} \<subseteq> informed es i \<union> {i}" and "colon_free name"
  shows "sint (PN_ValueName name (sv_counter (fold (cluster_step ev eng) es st i))) = spec_value es name"
  using assms by (rule exact_value)

definition exact_sample :: "cluster_event list" where
  "exact_sample =
     [Inc 0 \<lparr>ir_Delta = 5, ir_ClientId = '''', ir_Timestamp = 0, ir_CounterName = ''likes''\<rparr>, Sync 0 1,
      Dec 1 \<lparr>dr_Delta = 2, dr_ClientId = '''', dr_Timestamp = 0, dr_CounterName = ''likes''\<rparr>, Push 1 0]"

theorem counter_exact_witness:
  "sint (PN_ValueName ''likes'' (sv_counter (fold (cluster_step (\<lambda>_. sample_env) (\<lambda>_. sample_engine)) exact_sample
     (\<lambda>i. NewCounterService (if i = 0 then ''a'' else ''b'') 5000 fmempty) 0))) = 3"
proof -
  let ?ids = "\<lambda>i::nat. if i = 0 then ''a'' else ''b''"
  have es: "list_all (event_ok 2) exact_sample" "gross exact_sample < 2 ^ 63" "spec_value exact_sample ''likes'' = 3"
    by (simp_all add: exact_sample_def gross_def spec_value_def req_delta_def Let_def canonical_name_def)
  have ids: "good_ids 2 ?ids" by (auto simp: good_ids_def inj_on_def less_2_cases_iff)
  have inf: "{..<2} \<subseteq> informed exact_sample 0 \<union> {0}" by (simp add: informed_def exact_sample_def)
  show ?thesis
    using counter_exact [OF es(1) ids es(2) _ _ inf, of "\<lambda>i. NewCounterService (?ids i) 5000 fmempty" "''likes''"] es(3)
    by (simp add: NewCounterService_def)
qed

end
