(* ===== verification/Delta_Run.thy ===== *)
theory Delta_Run
  imports Exactness
begin

text \<open>
  Gossip the way the engine runs it: it decides for every round between the full state and a delta, by its round counter and
  by what it remembers of the peer (\<open>lastSync\<close> of the engine, \<open>lastSyncClock\<close> of the service that answers). The
  specification is the cluster of \<open>Exactness\<close>, in which every exchange is a full one; the theory shows that the states are
  the same. Rounds do not overlap, and a round either gets through at the first attempt or does not reach the peer.
\<close>

section \<open>Rounds\<close>

definition live_net :: "service_env \<Rightarrow> StateUpdate \<Rightarrow> CounterService \<Rightarrow> peer_net" where
  "live_net ev u B = \<lparr>net_dial = \<lambda>_. True, net_stream = \<lambda>_. True, net_send = \<lambda>_. True,
     net_recv = \<lambda>_. fst (SyncState_recv ev u B), net_failed_at = 0\<rparr>"

definition dead_net :: peer_net where
  "dead_net = \<lparr>net_dial = \<lambda>_. False, net_stream = \<lambda>_. False, net_send = \<lambda>_. False, net_recv = \<lambda>_. None, net_failed_at = 0\<rparr>"

text \<open>The update that \<open>gossipToPeer\<close> builds.\<close>

definition round_update :: "service_env \<Rightarrow> string \<Rightarrow> GossipEngine \<Rightarrow> CounterService \<Rightarrow> StateUpdate option" where
  "round_update ev address g s =
     build_update (ev_now ev) (full_round address g s) (clock_at (ge_lastSync g) address) g s"

text \<open>The two sides of a round: the peer handles the update before the sender merges the answer.\<close>

definition two_sides ::
  "service_env \<Rightarrow> service_env \<Rightarrow> string \<Rightarrow> GossipEngine \<Rightarrow> CounterService \<Rightarrow> CounterService
   \<Rightarrow> sync_result \<times> GossipEngine \<times> CounterService \<times> CounterService" where
  "two_sides evA evB address g A B =
     (case gossipToPeer evA (\<lambda>u. live_net evB u B) id address g A of
        (res, g', A') \<Rightarrow>
          (res, g', A',
           if res = Synced then (case round_update evA address g A of None \<Rightarrow> B | Some u \<Rightarrow> snd (SyncState_recv evB u B)) else B))"

datatype run_event = R_Inc nat IncrementRequest | R_Dec nat DecrementRequest | R_Round nat nat | R_Down nat nat

type_synonym gossip_cluster = "(nat \<Rightarrow> GossipEngine) \<times> (nat \<Rightarrow> CounterService)"

text \<open>One event, and the event of the specification that it stands for: a round in which the engine finds nothing new to send is an
  exchange of which only the receiver would learn, a round that the breaker suppresses or that does not get
  through is none.\<close>

fun run_step :: "(nat \<Rightarrow> service_env) \<Rightarrow> (nat \<Rightarrow> string) \<Rightarrow> run_event \<Rightarrow> gossip_cluster \<Rightarrow> cluster_event list \<times> gossip_cluster" where
  "run_step ev addr (R_Inc i req) (eng, st) = ([Inc i req], eng, st(i := snd (Increment (ev i) req (st i))))"
| "run_step ev addr (R_Dec i req) (eng, st) = ([Dec i req], eng, st(i := snd (Decrement (ev i) req (st i))))"
| "run_step ev addr (R_Round i j) (eng, st) =
     (case two_sides (ev i) (ev j) (addr j) (eng i) (st i) (st j) of
        (res, g, A, B) \<Rightarrow>
          (case res of Synced \<Rightarrow> [Sync i j] | Nothing_new \<Rightarrow> [Push i j] | _ \<Rightarrow> [], eng(i := g), st(i := A, j := B)))"
| "run_step ev addr (R_Down i j) (eng, st) =
     (case gossipToPeer (ev i) (\<lambda>_. dead_net) id (addr j) (eng i) (st i) of
        (res, g, A) \<Rightarrow> ([], eng(i := g), st(i := A)))"

fun run :: "(nat \<Rightarrow> service_env) \<Rightarrow> (nat \<Rightarrow> string) \<Rightarrow> run_event list \<Rightarrow> gossip_cluster \<Rightarrow> cluster_event list \<times> gossip_cluster" where
  "run ev addr [] c = ([], c)"
| "run ev addr (r # rs) c =
     (case run_step ev addr r c of (es, c) \<Rightarrow> (case run ev addr rs c of (es', c) \<Rightarrow> (es @ es', c)))"

fun run_event_ok :: "nat \<Rightarrow> run_event \<Rightarrow> bool" where
  "run_event_ok n (R_Inc i req) \<longleftrightarrow> event_ok n (Inc i req)"
| "run_event_ok n (R_Dec i req) \<longleftrightarrow> event_ok n (Dec i req)"
| "run_event_ok n (R_Round i j) \<longleftrightarrow> i < n \<and> j < n \<and> i \<noteq> j"
| "run_event_ok n (R_Down i j) \<longleftrightarrow> i < n \<and> j < n \<and> i \<noteq> j"

section \<open>Versions and counts\<close>

abbreviation ver :: "crdt_state \<Rightarrow> string \<Rightarrow> int" where
  "ver S k \<equiv> sint (gget (snd S) k)"

abbreviation pcount :: "crdt_state \<Rightarrow> string \<Rightarrow> int" where
  "pcount S k \<equiv> sint (gget (fst (fst S)) k)"

abbreviation ncount :: "crdt_state \<Rightarrow> string \<Rightarrow> int" where
  "ncount S k \<equiv> sint (gget (snd (fst S)) k)"

text \<open>\<open>T\<close> holds at least the counts of \<open>S\<close> wherever its version is not older.\<close>

definition tracks :: "crdt_state \<Rightarrow> crdt_state \<Rightarrow> bool" where
  "tracks S T \<longleftrightarrow> (\<forall>k. ver S k \<le> ver T k \<longrightarrow> pcount S k \<le> pcount T k \<and> ncount S k \<le> ncount T k)"

lemma tracks_refl [simp]: "tracks S S"
  by (simp add: tracks_def)

lemma merge_counts:
  assumes "crdt_ok S" and "crdt_ok T"
  shows "ver (crdt_merge S T) k = max (ver S k) (ver T k)" "pcount (crdt_merge S T) k = max (pcount S k) (pcount T k)"
    "ncount (crdt_merge S T) k = max (ncount S k) (ncount T k)"
  using assms by (simp_all add: crdt_ok_def crdt_merge_def gget_merge_max_sint)

lemma tracks_merge:
  assumes "crdt_ok S" and "crdt_ok T"
  shows "tracks S U \<Longrightarrow> tracks T U \<Longrightarrow> tracks (crdt_merge S T) U" "tracks U S \<Longrightarrow> tracks U T \<Longrightarrow> tracks U (crdt_merge S T)"
  using assms by (simp_all add: tracks_def merge_counts) (metis le_max_iff_disj)

lemma ver_nonneg: "crdt_ok S \<Longrightarrow> 0 \<le> ver S k"
  by (simp add: crdt_ok_def gget_nonneg)

lemma tracks_covered:
  assumes "tracks S T" and "crdt_ok T" and "\<And>k. sint (gget base k) \<le> ver T k"
  shows "covered (snd S) base (fst (fst S)) (fst (fst T)) \<and> covered (snd S) base (snd (fst S)) (snd (fst T))"
proof -
  have "pcount S k \<le> pcount T k \<and> ncount S k \<le> ncount T k" if "\<not> newer_key (snd S) base k" for k
  proof -
    have "ver S k \<le> ver T k"
      using that assms(3) [of k] ver_nonneg [OF assms(2), of k]
      by (auto simp: newer_key_def gget_def split: option.splits)
    with assms(1) show ?thesis by (simp add: tracks_def)
  qed
  then show ?thesis by (fastforce simp: covered_def fmpred_iff gget_def)
qed

lemma dominated_merge:
  assumes "crdt_ok S" and "crdt_ok T" and "tracks S T" and "\<And>k. ver S k \<le> ver T k"
  shows "crdt_merge T S = T"
proof -
  have "pcount S k \<le> pcount T k" "ncount S k \<le> ncount T k" for k using assms(3,4) by (auto simp: tracks_def)
  with assms show ?thesis
    by (cases T, cases "fst T") (auto simp: crdt_merge_def crdt_ok_def gget_merge_max_sint intro!: counts_positive_ext counts_positive_merge_max)
qed

section \<open>One round\<close>

lemma live_deliver:
  assumes "fst (SyncState_recv evB u B) = Some r" and "0 < ge_maxRetries g"
  shows "\<exists>g' g1. deliver ev (live_net evB u B) id address b c g s = (Synced, g', mergeRemoteState ev r g1 s) \<and>
    ge_lastSync g' = fmupd address (merge_max c (su_VectorClock r)) (ge_lastSync g) \<and>
    ge_nodeID g' = ge_nodeID g \<and> ge_maxRetries g' = ge_maxRetries g"
proof -
  obtain m where "ge_maxRetries g = Suc m" using assms(2) gr0_implies_Suc by blast
  with assms(1) show ?thesis
    by (cases "fmlookup (ge_connections g) address") (simp_all add: deliver_def live_net_def getOrCreateStream_def Let_def, blast+)
qed

lemma build_update_answer:
  assumes "build_update now full base g s = Some u"
  obtains r where "fst (SyncState_recv ev u B) = Some r"
proof (cases full)
  case True
  with assms have "su_Type u = FULL_STATE" by (auto simp: build_update_def Let_def)
  from full_reply [OF this, of ev B] that show ?thesis by blast
next
  case False
  with assms have "su_Type u = DELTA_UPDATE" by (auto dest: delta_update)
  from delta_answer [OF this refl, of ev B] that show ?thesis by blast
qed

lemma two_sides_cases:
  assumes "0 < ge_maxRetries g" and "two_sides evA evB address g A B = (res, g', A', B')"
  shows "ge_nodeID g' = ge_nodeID g \<and> ge_maxRetries g' = ge_maxRetries g \<and>
    ((res = Breaker_open \<or> res = Nothing_new \<and> round_update evA address g A = None) \<and> A' = A \<and> B' = B \<and> ge_lastSync g' = ge_lastSync g \<or>
     res = Synced \<and> (\<exists>u r. round_update evA address g A = Some u \<and> fst (SyncState_recv evB u B) = Some r \<and>
       B' = snd (SyncState_recv evB u B) \<and> gossipToPeer evA (\<lambda>u. live_net evB u B) id address g A = (Synced, g', A') \<and>
       (\<exists>g1. A' = mergeRemoteState evA r g1 A) \<and>
       ge_lastSync g' = fmupd address (merge_max (clock (sv_clock A)) (su_VectorClock r)) (ge_lastSync g)))"
proof -
  obtain b g1 where b: "breaker address g = (b, g1)" by fastforce
  have g1: "ge_nodeID g1 = ge_nodeID g" "ge_maxRetries g1 = ge_maxRetries g" "ge_lastSync g1 = ge_lastSync g"
    using b by (auto simp: breaker_def Let_def split: option.splits)
  show ?thesis
  proof (cases "Allow (ev_now evA) b")
    case False
    then have "gossipToPeer evA (\<lambda>u. live_net evB u B) id address g A = (Breaker_open, g1, A)"
      using b by (simp add: gossipToPeer_def)
    with assms(2) g1 show ?thesis by (auto simp: two_sides_def)
  next
    case True
    note eq = gossipToPeer_eq [OF b True, of "\<lambda>u. live_net evB u B" id A, folded round_update_def]
    show ?thesis
    proof (cases "round_update evA address g A")
      case None
      with eq assms(2) g1 show ?thesis by (auto simp: two_sides_def)
    next
      case (Some u)
      obtain r where r: "fst (SyncState_recv evB u B) = Some r"
        using Some [unfolded round_update_def] by (rule build_update_answer)
      let ?g = "g1\<lparr>ge_round := ge_round g + 1\<rparr>"
      obtain g2 g3 where d: "deliver evA (live_net evB u B) id address b (clock (sv_clock A)) ?g A = (Synced, g2, mergeRemoteState evA r g3 A)"
        "ge_lastSync g2 = fmupd address (merge_max (clock (sv_clock A)) (su_VectorClock r)) (ge_lastSync g)"
        "ge_nodeID g2 = ge_nodeID g" "ge_maxRetries g2 = ge_maxRetries g"
        using live_deliver [OF r, of ?g evA address b "clock (sv_clock A)" A] assms(1) g1 by auto
      with Some eq assms(2) r show ?thesis by (auto simp: two_sides_def)
    qed
  qed
qed

lemma down_round:
  assumes "gossipToPeer ev (\<lambda>_. dead_net) id address g A = (res, g', A')"
  shows "A' = A \<and> ge_lastSync g' = ge_lastSync g \<and> ge_nodeID g' = ge_nodeID g \<and> ge_maxRetries g' = ge_maxRetries g"
proof -
  obtain b g1 where b: "breaker address g = (b, g1)" by fastforce
  have g1: "ge_nodeID g1 = ge_nodeID g" "ge_maxRetries g1 = ge_maxRetries g" "ge_lastSync g1 = ge_lastSync g"
    using b by (auto simp: breaker_def Let_def split: option.splits)
  have "deliver ev dead_net id address b c h s = (No_stream, h, s)" for c h s
    by (simp add: deliver_def dead_net_def getOrCreateStream_def split: option.split)
  with assms b g1 show ?thesis by (auto simp: gossipToPeer_def Let_def split: if_splits option.splits)
qed

text \<open>What a round that got through did, when the baselines of both sides are right.\<close>

definition below :: "int64 gomap \<Rightarrow> crdt_state \<Rightarrow> bool" where
  "below base S \<longleftrightarrow> (\<forall>k. sint (gget base k) \<le> ver S k)"

lemma below_merge: "crdt_ok S \<Longrightarrow> crdt_ok T \<Longrightarrow> below base S \<or> below base T \<Longrightarrow> below base (crdt_merge S T)"
  by (auto simp: below_def merge_counts le_max_iff_disj)

lemma below_clock: "below (snd S) S"
  by (simp add: below_def)

lemma below_merge_max: "below c S \<Longrightarrow> below c' S \<Longrightarrow> below (merge_max c c') S"
  by (auto simp: below_def gget_merge_max split: option.split) (metis gget_Some)

lemma mergeRemoteState_keeps [simp]:
  "sv_lastSyncClock (mergeRemoteState ev r g s) = sv_lastSyncClock s"
  "pn_nodeID (sv_counter (mergeRemoteState ev r g s)) = pn_nodeID (sv_counter s)"
  "vc_nodeID (sv_clock (mergeRemoteState ev r g s)) = vc_nodeID (sv_clock s)"
  by (simp_all add: mergeRemoteState_def merge_remote_def Let_def pn_defs vc_defs split: option.split)

lemma recv_keeps:
  "pn_nodeID (sv_counter (snd (SyncState_recv ev u s))) = pn_nodeID (sv_counter s)"
  "vc_nodeID (sv_clock (snd (SyncState_recv ev u s))) = vc_nodeID (sv_clock s)"
  using sync_core [of ev u s] by (auto simp: core_def merge_remote_eq split: if_splits)

lemma recv_baselines:
  assumes "su_Type u = FULL_STATE \<or> su_Type u = DELTA_UPDATE"
  shows "clock_at (sv_lastSyncClock (snd (SyncState_recv ev u s))) i = clock_at (sv_lastSyncClock s) i \<or>
    su_Type u = DELTA_UPDATE \<and> i = su_FromNodeId u \<and>
    clock_at (sv_lastSyncClock (snd (SyncState_recv ev u s))) i =
      merge_max (clock (sv_clock (snd (SyncState_recv ev u s)))) (su_VectorClock u)"
proof -
  obtain s3 where s3: "sv_lastSyncClock s3 = sv_lastSyncClock s"
    "SyncState_recv ev u s = (if su_Type u = DELTA_UPDATE then (case buildDeltaReply (ev_now ev) u s3 of (ack, s) \<Rightarrow> (Some ack, s))
       else (Some (buildFullReply (ev_now ev) s3), s3))"
    using recv_stage [of u s ev] assms by auto
  show ?thesis
    using s3 by (auto simp: buildDeltaReply_def Let_def DeltaFrom_filter clock_at_def vc_defs)
qed

lemma round_states:
  assumes "crdt_ok (state_of A)" and "crdt_ok (state_of B)"
    and tr: "tracks (state_of A) (state_of B)" "tracks (state_of B) (state_of A)"
    and base: "below (clock_at (ge_lastSync g) address) (state_of B)" "below (clock_at (sv_lastSyncClock B) (ge_nodeID g)) (state_of A)"
    and u: "round_update evA address g A = Some u" and r: "fst (SyncState_recv evB u B) = Some r"
    and synced: "gossipToPeer evA (\<lambda>u. live_net evB u B) id address g A = (Synced, g', A')"
  defines "M \<equiv> crdt_merge (state_of B) (state_of A)" and "B' \<equiv> snd (SyncState_recv evB u B)"
  shows "state_of A' = M \<and> state_of B' = M \<and> su_VectorClock r = snd M \<and>
    (\<forall>i. clock_at (sv_lastSyncClock B') i = clock_at (sv_lastSyncClock B) i \<or>
      i = ge_nodeID g \<and> clock_at (sv_lastSyncClock B') i = merge_max (snd M) (clock (sv_clock A)))"
proof (cases "full_round address g A")
  case True
  note u' = u [unfolded round_update_def, simplified True]
  have full: "su_Type u = FULL_STATE" using u' by (auto simp: build_update_def Let_def)
  note states = full_round_states [OF assms(1,2) True u' _ synced, of evB]
  have A: "state_of A' = M" and B: "state_of B' = M"
    unfolding M_def B'_def by (rule states; simp add: live_net_def)+
  have "update_state r = state_of B'" using full_reply [OF full, of evB B] r by (auto simp: B'_def)
  then have "su_VectorClock r = snd M" using B by (metis update_state_def snd_conv)
  with A B recv_baselines [of u evB B] full show ?thesis by (auto simp: B'_def)
next
  case False
  note u' = u [unfolded round_update_def, simplified False]
  note d = delta_update [OF u']
  let ?base = "merge_max (clock (sv_clock A)) (clock_at (sv_lastSyncClock B) (ge_nodeID g))"
  have covA: "covered (clock (sv_clock A)) (clock_at (ge_lastSync g) address) (positive (sv_counter A)) (positive (sv_counter B))"
    "covered (clock (sv_clock A)) (clock_at (ge_lastSync g) address) (negative (sv_counter A)) (negative (sv_counter B))"
    using tracks_covered [OF tr(1) assms(2) base(1) [unfolded below_def, rule_format]] by (simp_all add: state_of_def)
  have B: "state_of B' = M"
    using state_of_recv [of u evB B] d merge_covered [OF covA(1)] merge_covered [OF covA(2)]
    by (simp add: B'_def M_def crdt_merge_def update_state_def state_of_def cong del: fmfilter_cong)
  have M: "tracks M (state_of A)" unfolding M_def using assms(1,2) tr(2) by (auto intro: tracks_merge)
  have "below ?base (state_of A)" using base(2) below_clock [of "state_of A"] by (intro below_merge_max) (simp_all add: state_of_def)
  note covB = tracks_covered [OF M assms(1) this [unfolded below_def, rule_format], folded B]
  have A: "state_of A' = M" unfolding M_def
    by (rule delta_round_states(2) [OF assms(1,2) False u' _ synced refl refl covA, of evB])
      (use covB in \<open>simp_all add: live_net_def B'_def state_of_def\<close>)
  have "su_VectorClock r = snd M"
    using delta_answer [of u _ B evB] d r by (auto simp: M_def crdt_merge_def state_of_def)
  moreover have "clock (sv_clock B') = snd M" using arg_cong [OF B, of snd] by (simp add: state_of_def)
  ultimately show ?thesis using A B recv_baselines [of u evB B] d by (auto simp: B'_def)
qed

section \<open>The invariant of a run\<close>

text \<open>\<open>G\<close> bounds all counts and versions. A node has the newest version of the keys it owns, and what is remembered of a peer
  does not exceed what the peer holds.\<close>

definition states_ok :: "nat \<Rightarrow> (nat \<Rightarrow> string) \<Rightarrow> int \<Rightarrow> (nat \<Rightarrow> crdt_state) \<Rightarrow> bool" where
  "states_ok n ids G S \<longleftrightarrow>
     (\<forall>i < n. crdt_ok (S i) \<and> (\<forall>k. ver (S i) k \<le> G \<and> pcount (S i) k \<le> G \<and> ncount (S i) k \<le> G)) \<and>
     (\<forall>i < n. \<forall>j < n. tracks (S i) (S j)) \<and>
     (\<forall>i < n. \<forall>j < n. \<forall>name. colon_free name \<and> name \<noteq> '''' \<longrightarrow>
        ver (S j) (counterKey name (ids i)) \<le> ver (S i) (counterKey name (ids i)))"

definition baselines_ok :: "nat \<Rightarrow> (nat \<Rightarrow> string) \<Rightarrow> (nat \<Rightarrow> string) \<Rightarrow> gossip_cluster \<Rightarrow> bool" where
  "baselines_ok n ids addr c \<longleftrightarrow>
     (\<forall>i < n. \<forall>j < n. below (clock_at (ge_lastSync (fst c i)) (addr j)) (state_of (snd c j)) \<and>
        below (clock_at (sv_lastSyncClock (snd c j)) (ids i)) (state_of (snd c i)))"

definition names_ok :: "nat \<Rightarrow> (nat \<Rightarrow> string) \<Rightarrow> gossip_cluster \<Rightarrow> bool" where
  "names_ok n ids c \<longleftrightarrow>
     (\<forall>i < n. pn_nodeID (sv_counter (snd c i)) = ids i \<and> vc_nodeID (sv_clock (snd c i)) = ids i \<and>
        ge_nodeID (fst c i) = ids i \<and> 0 < ge_maxRetries (fst c i))"

lemma below_mono: "below base S \<Longrightarrow> (\<And>k. ver S k \<le> ver S' k) \<Longrightarrow> below base S'"
  unfolding below_def by (meson order_trans)

text \<open>States only grow; a baseline is the old one or a new one that is right.\<close>

lemma baselines_step:
  assumes "baselines_ok n ids addr (eng, st)" and "\<And>j k. ver (state_of (st j)) k \<le> ver (state_of (st' j)) k"
    and "\<And>i j. i < n \<Longrightarrow> j < n \<Longrightarrow> clock_at (ge_lastSync (eng' i)) (addr j) = clock_at (ge_lastSync (eng i)) (addr j) \<or>
      below (clock_at (ge_lastSync (eng' i)) (addr j)) (state_of (st' j))"
    and "\<And>i j. i < n \<Longrightarrow> j < n \<Longrightarrow> clock_at (sv_lastSyncClock (st' j)) (ids i) = clock_at (sv_lastSyncClock (st j)) (ids i) \<or>
      below (clock_at (sv_lastSyncClock (st' j)) (ids i)) (state_of (st' i))"
  shows "baselines_ok n ids addr (eng', st')"
  unfolding baselines_ok_def fst_conv snd_conv
proof (intro allI impI conjI)
  fix i j
  assume ij: "i < n" "j < n"
  then have old: "below (clock_at (ge_lastSync (eng i)) (addr j)) (state_of (st j))"
    "below (clock_at (sv_lastSyncClock (st j)) (ids i)) (state_of (st i))"
    using assms(1) by (simp_all add: baselines_ok_def)
  show "below (clock_at (ge_lastSync (eng' i)) (addr j)) (state_of (st' j))"
    using assms(3) [OF ij] below_mono [OF old(1) assms(2)] by auto
  show "below (clock_at (sv_lastSyncClock (st' j)) (ids i)) (state_of (st' i))"
    using assms(4) [OF ij] below_mono [OF old(2) assms(2)] by auto
qed

section \<open>Updates\<close>

text \<open>The key \<open>k\<close> gets a newer version and no smaller count; nothing else changes.\<close>

definition advances :: "string \<Rightarrow> crdt_state \<Rightarrow> crdt_state \<Rightarrow> bool" where
  "advances k S S' \<longleftrightarrow> ver S k < ver S' k \<and> pcount S k \<le> pcount S' k \<and> ncount S k \<le> ncount S' k \<and>
     (\<forall>k'. k' \<noteq> k \<longrightarrow> ver S' k' = ver S k' \<and> pcount S' k' = pcount S k' \<and> ncount S' k' = ncount S k')"

lemma tracks_advance:
  assumes "advances k S S'" and "ver T k \<le> ver S k"
  shows "tracks S T \<Longrightarrow> tracks S' T" "tracks T S \<Longrightarrow> tracks T S'"
proof -
  have "ver S' k' \<le> ver T k' \<longrightarrow> pcount S' k' \<le> pcount T k' \<and> ncount S' k' \<le> ncount T k'" if "tracks S T" for k'
    using assms that by (cases "k' = k") (auto simp: tracks_def advances_def)
  then show "tracks S T \<Longrightarrow> tracks S' T" unfolding tracks_def by blast
  have "ver T k' \<le> ver S' k' \<longrightarrow> pcount T k' \<le> pcount S' k' \<and> ncount T k' \<le> ncount S' k'" if "tracks T S" for k'
    using assms that by (cases "k' = k") (auto simp: tracks_def advances_def intro: order_trans)
  then show "tracks T S \<Longrightarrow> tracks T S'" unfolding tracks_def by blast
qed

lemma advances_ver: "advances k S S' \<Longrightarrow> ver S k' \<le> ver S' k'"
  by (cases "k' = k") (auto simp: advances_def)

lemma update_states_ok:
  assumes ok: "states_ok n ids G S" and ids: "good_ids n ids" and i: "i < n" and name: "colon_free name" "name \<noteq> ''''"
    and adv: "advances (counterKey name (ids i)) (S i) S'" and "crdt_ok S'" and "G \<le> G'"
    and "\<And>k. ver S' k \<le> G' \<and> pcount S' k \<le> G' \<and> ncount S' k \<le> G'"
  shows "states_ok n ids G' (S(i := S'))"
  unfolding states_ok_def
proof (intro conjI allI impI)
  let ?k = "counterKey name (ids i)"
  fix j
  assume j: "j < n"
  show "crdt_ok ((S(i := S')) j)" using ok j assms(7) by (simp add: states_ok_def)
  fix k
  have "ver (S j) k \<le> G \<and> pcount (S j) k \<le> G \<and> ncount (S j) k \<le> G" using ok j by (simp add: states_ok_def)
  then show "ver ((S(i := S')) j) k \<le> G'" "pcount ((S(i := S')) j) k \<le> G'" "ncount ((S(i := S')) j) k \<le> G'"
    using assms(8) assms(9) [of k] by auto
next
  fix a b
  assume ab: "a < n" "b < n"
  have own: "ver (S c) (counterKey name (ids i)) \<le> ver (S i) (counterKey name (ids i))" if "c < n" for c
    using ok i that name by (simp add: states_ok_def)
  have tr: "tracks (S a) (S b)" "tracks (S i) (S b)" "tracks (S a) (S i)" using ok ab i by (simp_all add: states_ok_def)
  then show "tracks ((S(i := S')) a) ((S(i := S')) b)"
    using tracks_advance [OF adv own] ab by simp
next
  fix a b name'
  assume ab: "a < n" "b < n" and name': "colon_free name' \<and> name' \<noteq> ''''"
  have le: "ver (S b) (counterKey name' (ids a)) \<le> ver (S a) (counterKey name' (ids a))"
    using ok ab name' by (simp add: states_ok_def)
  have "ver S' (counterKey name' (ids a)) = ver (S i) (counterKey name' (ids a))" if "a \<noteq> i"
  proof -
    have "counterKey name' (ids a) \<noteq> counterKey name (ids i)"
      using good_ids_key [OF ids ab(1) i] name name' that by blast
    with adv show ?thesis by (simp add: advances_def)
  qed
  with le advances_ver [OF adv, of "counterKey name' (ids a)"]
  show "ver ((S(i := S')) b) (counterKey name' (ids a)) \<le> ver ((S(i := S')) a) (counterKey name' (ids a))"
    by (cases "a = i"; cases "b = i") auto
qed

lemma fmupd_gget: "gget (fmupd k v m) k' = (if k' = k then v else gget m k')"
  by (simp add: gget_def)

lemma counts_positive_upd: "counts_positive m \<Longrightarrow> 0 < sint v \<Longrightarrow> counts_positive (fmupd k v m)"
  by (auto simp: counts_positive_def)

text \<open>Adding a positive delta to one of the two counts of an own key, with a tick of its version.\<close>

lemma bump_count:
  assumes "counts_positive m" and "sint (gget m k) \<le> G" and "0 < sint d" and "G + sint d < 2 ^ 63"
  shows "sint (gget m k + d) = sint (gget m k) + sint d" "counts_positive (fmupd k (gget m k + d) m)"
proof -
  have nonneg: "0 \<le> sint (gget m k)" using assms(1) by (rule gget_nonneg)
  then show v: "sint (gget m k + d) = sint (gget m k) + sint d" using assms(2-4) by (intro sint_add_at) auto
  show "counts_positive (fmupd k (gget m k + d) m)"
    using assms(1) nonneg v assms(3) by (intro counts_positive_upd) auto
qed

lemma bump_state:
  fixes d :: int64
  assumes ok: "crdt_ok S" and bound: "\<And>k. ver S k \<le> G \<and> pcount S k \<le> G \<and> ncount S k \<le> G"
    and d: "0 < sint d" "G + sint d < 2 ^ 63"
    and S': "S' = ((fmupd k (gget (fst (fst S)) k + d) (fst (fst S)), snd (fst S)), fmupd k (gget (snd S) k + 1) (snd S)) \<or>
      S' = ((fst (fst S), fmupd k (gget (snd (fst S)) k + d) (snd (fst S))), fmupd k (gget (snd S) k + 1) (snd S))"
  shows "crdt_ok S' \<and> advances k S S' \<and> (\<forall>k'. ver S' k' \<le> G + sint d \<and> pcount S' k' \<le> G + sint d \<and> ncount S' k' \<le> G + sint d)"
proof -
  have cp: "counts_positive (fst (fst S))" "counts_positive (snd (fst S))" "counts_positive (snd S)"
    using ok by (simp_all add: crdt_ok_def)
  have one: "sint (1 :: int64) = 1" by simp
  note p = bump_count [OF cp(1) _ d, of k] bump_count [OF cp(2) _ d, of k]
  note c = bump_count [OF cp(3), of k G 1]
  have le: "sint (gget (fst (fst S)) k) \<le> G" "sint (gget (snd (fst S)) k) \<le> G" "sint (gget (snd S) k) \<le> G" using bound by auto
  have others: "ver S k' \<le> G + sint d" "pcount S k' \<le> G + sint d" "ncount S k' \<le> G + sint d" for k'
    using bound [of k'] d(1) by linarith+
  from S' show ?thesis
    using p(1,2) [OF le(1)] p(3,4) [OF le(2)] c [OF le(3)] one d le cp others
    by (elim disjE) (auto simp: crdt_ok_def advances_def fmupd_gget)
qed

lemma update_state_of:
  assumes "pn_nodeID (sv_counter s) = i" and "vc_nodeID (sv_clock s) = i"
  shows "state_of (snd (Increment ev req s)) =
      (let k = counterKey (canonical_name (ir_CounterName req)) i
       in ((fmupd k (gget (positive (sv_counter s)) k + req_delta (ir_Delta req)) (positive (sv_counter s)), negative (sv_counter s)),
          fmupd k (gget (clock (sv_clock s)) k + 1) (clock (sv_clock s))))"
    and "state_of (snd (Decrement ev req' s)) =
      (let k = counterKey (canonical_name (dr_CounterName req')) i
       in ((positive (sv_counter s), fmupd k (gget (negative (sv_counter s)) k + req_delta (dr_Delta req')) (negative (sv_counter s))),
          fmupd k (gget (clock (sv_clock s)) k + 1) (clock (sv_clock s))))"
  using assms
  by (simp_all add: state_of_def Increment_counter Decrement_counter Increment_def Decrement_def Let_def PN_IncrementName_def
      PN_DecrementName_def VC_IncrementName_def normalizeName_def canonical_name_def)

definition gossip_ok :: "nat \<Rightarrow> (nat \<Rightarrow> string) \<Rightarrow> (nat \<Rightarrow> string) \<Rightarrow> int \<Rightarrow> gossip_cluster \<Rightarrow> bool" where
  "gossip_ok n ids addr G c \<longleftrightarrow>
     states_ok n ids G (\<lambda>i. state_of (snd c i)) \<and> baselines_ok n ids addr c \<and> names_ok n ids c"

lemma Increment_keeps [simp]:
  "sv_lastSyncClock (snd (Increment ev req s)) = sv_lastSyncClock s"
  "pn_nodeID (sv_counter (snd (Increment ev req s))) = pn_nodeID (sv_counter s)"
  "vc_nodeID (sv_clock (snd (Increment ev req s))) = vc_nodeID (sv_clock s)"
  by (simp_all add: Increment_def Let_def pn_defs vc_defs)

lemma Decrement_keeps [simp]:
  "sv_lastSyncClock (snd (Decrement ev req' s)) = sv_lastSyncClock s"
  "pn_nodeID (sv_counter (snd (Decrement ev req' s))) = pn_nodeID (sv_counter s)"
  "vc_nodeID (sv_clock (snd (Decrement ev req' s))) = vc_nodeID (sv_clock s)"
  by (simp_all add: Decrement_def Let_def pn_defs vc_defs)

lemma states_okD:
  assumes "states_ok n ids G S" and "i < n"
  shows "crdt_ok (S i)" "ver (S i) k \<le> G \<and> pcount (S i) k \<le> G \<and> ncount (S i) k \<le> G" "j < n \<Longrightarrow> tracks (S i) (S j)"
  using assms by (auto simp: states_ok_def)

lemma update_gossip_ok:
  assumes ok: "gossip_ok n ids addr G (eng, st)" and ids: "good_ids n ids" and i: "i < n"
    and name: "colon_free name" "name \<noteq> ''''" and d: "0 < sint d" "G + sint d < 2 ^ 63"
    and S': "state_of s' = ((fmupd k (gget (positive (sv_counter (st i))) k + d) (positive (sv_counter (st i))), negative (sv_counter (st i))),
        fmupd k (gget (clock (sv_clock (st i))) k + 1) (clock (sv_clock (st i)))) \<or>
      state_of s' = ((positive (sv_counter (st i)), fmupd k (gget (negative (sv_counter (st i))) k + d) (negative (sv_counter (st i)))),
        fmupd k (gget (clock (sv_clock (st i))) k + 1) (clock (sv_clock (st i))))"
    and k: "k = counterKey name (ids i)"
    and keeps: "sv_lastSyncClock s' = sv_lastSyncClock (st i)" "pn_nodeID (sv_counter s') = pn_nodeID (sv_counter (st i))"
      "vc_nodeID (sv_clock s') = vc_nodeID (sv_clock (st i))"
  shows "gossip_ok n ids addr (G + sint d) (eng, st(i := s'))"
proof -
  have S: "states_ok n ids G (\<lambda>j. state_of (st j))" and B: "baselines_ok n ids addr (eng, st)" and N: "names_ok n ids (eng, st)"
    using ok by (simp_all add: gossip_ok_def)
  have b: "crdt_ok (state_of s') \<and> advances k (state_of (st i)) (state_of s') \<and>
      (\<forall>k'. ver (state_of s') k' \<le> G + sint d \<and> pcount (state_of s') k' \<le> G + sint d \<and> ncount (state_of s') k' \<le> G + sint d)"
    using states_okD [OF S i] d S' by (intro bump_state) (auto simp: state_of_def)
  have "states_ok n ids (G + sint d) ((\<lambda>j. state_of (st j))(i := state_of s'))"
    using b k d(1) by (intro update_states_ok [OF S ids i name]) auto
  then have "states_ok n ids (G + sint d) (\<lambda>j. state_of ((st(i := s')) j))"
    by (simp add: fun_upd_def if_distrib [of state_of])
  moreover have mono: "ver (state_of (st j)) k' \<le> ver (state_of ((st(i := s')) j)) k'" for j k'
    using b advances_ver [of k "state_of (st i)" "state_of s'" k'] by (cases "j = i") auto
  have "baselines_ok n ids addr (eng, st(i := s'))"
    using keeps(1) by (intro baselines_step [OF B mono]) auto
  ultimately show ?thesis using N keeps(2,3) by (auto simp: gossip_ok_def names_ok_def)
qed

section \<open>Rounds keep the invariant\<close>

lemma nothing_new_merge:
  assumes "crdt_ok (state_of A)" and "crdt_ok (state_of B)" and "tracks (state_of A) (state_of B)"
    and "round_update ev address g A = None" and "below (clock_at (ge_lastSync g) address) (state_of B)"
  shows "crdt_merge (state_of B) (state_of A) = state_of B"
proof (rule dominated_merge [OF assms(1-3)])
  let ?base = "clock_at (ge_lastSync g) address"
  have "\<not> full_round address g A" using assms(4) full_update [of "ev_now ev" ?base g A] by (auto simp: round_update_def)
  with assms(4) have "snd (snd (DeltaFrom (PN_Positive (sv_counter A)) (PN_Negative (sv_counter A)) (VC_State (sv_clock A)) ?base)) = fmempty"
    by (auto simp: round_update_def build_update_def Let_def split: prod.splits if_splits)
  then have none: "\<not> newer_key (clock (sv_clock A)) ?base k" for k
    using ClockNewerThan_iff [of "clock (sv_clock A)" ?base] DeltaFrom_spec by (metis VC_State_def copy_map_id)
  fix k
  have "ver (state_of A) k \<le> max 0 (sint (gget ?base k))"
    using none [of k] by (auto simp: newer_key_def state_of_def gget_def split: option.splits)
  with assms(5) ver_nonneg [OF assms(2), of k] show "ver (state_of A) k \<le> ver (state_of B) k"
    by (auto simp: below_def intro: order_trans)
qed

lemma merged_states_ok:
  assumes S: "states_ok n ids G S" and ij: "i < n" "j < n" and M: "M = crdt_merge (S j) (S i)"
  shows "states_ok n ids G (S(i := M, j := M))"
proof -
  let ?S = "S(i := M, j := M)"
  note ok = states_okD [OF S]
  have Mok: "crdt_ok M" unfolding M using ok(1) ij by (intro crdt.merge_invar) auto
  have cnt: "ver M k = max (ver (S j) k) (ver (S i) k)" "pcount M k = max (pcount (S j) k) (pcount (S i) k)"
    "ncount M k = max (ncount (S j) k) (ncount (S i) k)" for k
    unfolding M using ok(1) ij by (simp_all add: merge_counts)
  have tr: "tracks M (S b)" "tracks (S b) M" if "b < n" for b
    unfolding M using ok ij that by (auto intro!: tracks_merge)
  have own: "ver (S b) (counterKey name (ids a)) \<le> ver (S a) (counterKey name (ids a))"
    if "a < n" "b < n" "colon_free name \<and> name \<noteq> ''''" for a b name
    using S that by (auto simp: states_ok_def)
  show ?thesis
    unfolding states_ok_def
  proof (intro conjI allI impI)
    fix a
    assume a: "a < n"
    show "crdt_ok (?S a)" using a ok(1) Mok by simp
    fix k
    show "ver (?S a) k \<le> G" "pcount (?S a) k \<le> G" "ncount (?S a) k \<le> G"
      using ok(2) [OF a, of k] ok(2) [OF ij(1), of k] ok(2) [OF ij(2), of k] by (auto simp: cnt)
  next
    fix a b
    assume "a < n" "b < n"
    then show "tracks (?S a) (?S b)" using ok(3) tr by simp
  next
    fix a b name
    assume ab: "a < n" "b < n" and name: "colon_free name \<and> name \<noteq> ''''"
    show "ver (?S b) (counterKey name (ids a)) \<le> ver (?S a) (counterKey name (ids a))"
      using own [OF ab name] own [OF ab(1) ij(1) name] own [OF ab(1) ij(2) name] by (auto simp: cnt)
  qed
qed

lemma clock_at_upd: "clock_at (fmupd a c m) b = (if b = a then c else clock_at m b)"
  by (simp add: clock_at_def)

lemma synced_gossip_ok:
  assumes ok: "gossip_ok n ids addr G (eng, st)" and ids: "good_ids n ids" and addr: "inj_on addr {..<n}"
    and ij: "i < n" "j < n" "i \<noteq> j" and M: "M = crdt_merge (state_of (st j)) (state_of (st i))"
    and g: "ge_nodeID g = ids i" "0 < ge_maxRetries g"
      "ge_lastSync g = fmupd (addr j) (merge_max (clock (sv_clock (st i))) (snd M)) (ge_lastSync (eng i))"
    and A: "state_of A = M" "sv_lastSyncClock A = sv_lastSyncClock (st i)"
      "pn_nodeID (sv_counter A) = ids i" "vc_nodeID (sv_clock A) = ids i"
    and B: "state_of B = M" "pn_nodeID (sv_counter B) = ids j" "vc_nodeID (sv_clock B) = ids j"
      "\<And>x. clock_at (sv_lastSyncClock B) x = clock_at (sv_lastSyncClock (st j)) x \<or>
        x = ids i \<and> clock_at (sv_lastSyncClock B) x = merge_max (snd M) (clock (sv_clock (st i)))"
  shows "gossip_ok n ids addr G (eng(i := g), st(i := A, j := B))"
proof -
  let ?st = "st(i := A, j := B)" and ?eng = "eng(i := g)"
  have S: "states_ok n ids G (\<lambda>j. state_of (st j))" and L: "baselines_ok n ids addr (eng, st)" and N: "names_ok n ids (eng, st)"
    using ok by (simp_all add: gossip_ok_def)
  note okS = states_okD(1) [OF S ij(1)] states_okD(1) [OF S ij(2)]
  have st: "(\<lambda>a. state_of (?st a)) = (\<lambda>a. state_of (st a))(i := M, j := M)" using A(1) B(1) by auto
  have "states_ok n ids G (\<lambda>a. state_of (?st a))" unfolding st by (rule merged_states_ok [OF S ij(1,2) M])
  moreover have "below (clock (sv_clock (st i))) M"
    unfolding M using okS below_clock [of "state_of (st i)"] by (intro below_merge) (simp_all add: state_of_def)
  then have new: "below (merge_max (clock (sv_clock (st i))) (snd M)) M" "below (merge_max (snd M) (clock (sv_clock (st i)))) M"
    using below_clock [of M] by (auto intro: below_merge_max)
  have "baselines_ok n ids addr (?eng, ?st)"
  proof (rule baselines_step [OF L])
    show "ver (state_of (st a)) k \<le> ver (state_of (?st a)) k" for a k
      using okS A(1) B(1) by (simp add: M merge_counts)
    show "clock_at (ge_lastSync (?eng a)) (addr b) = clock_at (ge_lastSync (eng a)) (addr b) \<or>
        below (clock_at (ge_lastSync (?eng a)) (addr b)) (state_of (?st b))" if "a < n" "b < n" for a b
      using that ij(2) addr new(1) B(1) by (auto simp: g(3) clock_at_upd inj_on_def)
    show "clock_at (sv_lastSyncClock (?st b)) (ids a) = clock_at (sv_lastSyncClock (st b)) (ids a) \<or>
        below (clock_at (sv_lastSyncClock (?st b)) (ids a)) (state_of (?st a))" if "a < n" "b < n" for a b
    proof (cases "b = j")
      case True
      have "a = i" if "ids a = ids i" using that \<open>a < n\<close> ij(1) ids by (auto simp: good_ids_def inj_on_def)
      then show ?thesis using True B(4) [of "ids a"] new(2) A(1) ij(3) by auto
    next
      case False
      then show ?thesis using A(2) by simp
    qed
  qed
  ultimately show ?thesis using N A(3,4) B(2,3) g(1,2) by (auto simp: gossip_ok_def names_ok_def)
qed

lemma round_gossip_ok:
  assumes ok: "gossip_ok n ids addr G (eng, st)" and ids: "good_ids n ids" and addr: "inj_on addr {..<n}"
    and ij: "i < n" "j < n" "i \<noteq> j"
    and round: "two_sides (ev i) (ev j) (addr j) (eng i) (st i) (st j) = (res, g, A, B)"
  shows "gossip_ok n ids addr G (eng(i := g), st(i := A, j := B)) \<and>
    (res = Synced \<and> state_of A = crdt_merge (state_of (st j)) (state_of (st i)) \<and> state_of B = state_of A \<or>
     res \<noteq> Synced \<and> A = st i \<and> B = st j \<and> (res = Nothing_new \<longrightarrow> crdt_merge (state_of (st j)) (state_of (st i)) = state_of (st j)))"
proof -
  have S: "states_ok n ids G (\<lambda>j. state_of (st j))" and L: "baselines_ok n ids addr (eng, st)" and N: "names_ok n ids (eng, st)"
    using ok by (simp_all add: gossip_ok_def)
  note okS = states_okD [OF S]
  have g: "ge_nodeID (eng i) = ids i" "0 < ge_maxRetries (eng i)" using N ij by (simp_all add: names_ok_def)
  have base: "below (clock_at (ge_lastSync (eng i)) (addr j)) (state_of (st j))"
    "below (clock_at (sv_lastSyncClock (st j)) (ge_nodeID (eng i))) (state_of (st i))"
    using L ij g by (simp_all add: baselines_ok_def)
  note cases = two_sides_cases [OF g(2) round]
  show ?thesis
  proof (cases "res = Synced")
    case False
    with cases have same: "A = st i" "B = st j" "ge_lastSync g = ge_lastSync (eng i)" "ge_nodeID g = ids i" "0 < ge_maxRetries g"
      and none: "res = Nothing_new \<Longrightarrow> round_update (ev i) (addr j) (eng i) (st i) = None"
      using g by auto
    have "gossip_ok n ids addr G (eng(i := g), st(i := A, j := B))"
      using S L N same by (simp add: gossip_ok_def baselines_ok_def names_ok_def)
    moreover have "crdt_merge (state_of (st j)) (state_of (st i)) = state_of (st j)" if "res = Nothing_new"
      by (rule nothing_new_merge [OF okS(1) [OF ij(1)] okS(1) [OF ij(2)] okS(3) [OF ij(1,2)] none [OF that] base(1)])
    ultimately show ?thesis using False same by auto
  next
    case True
    with cases obtain u r g1 where u: "round_update (ev i) (addr j) (eng i) (st i) = Some u"
      "fst (SyncState_recv (ev j) u (st j)) = Some r" "B = snd (SyncState_recv (ev j) u (st j))"
      and synced: "gossipToPeer (ev i) (\<lambda>u. live_net (ev j) u (st j)) id (addr j) (eng i) (st i) = (Synced, g, A)"
      and A: "A = mergeRemoteState (ev i) r g1 (st i)"
      and g': "ge_lastSync g = fmupd (addr j) (merge_max (clock (sv_clock (st i))) (su_VectorClock r)) (ge_lastSync (eng i))"
        "ge_nodeID g = ids i" "0 < ge_maxRetries g"
      using g by auto
    have names: "pn_nodeID (sv_counter (st a)) = ids a \<and> vc_nodeID (sv_clock (st a)) = ids a" if "a < n" for a
      using N that by (simp add: names_ok_def)
    note states = round_states [OF okS(1) [OF ij(1)] okS(1) [OF ij(2)] okS(3) [OF ij(1,2)] okS(3) [OF ij(2,1)] base u(1,2) synced,
        folded u(3)]
    have "gossip_ok n ids addr G (eng(i := g), st(i := A, j := B))"
      using states names [OF ij(1)] names [OF ij(2)] g g'
      by (intro synced_gossip_ok [OF ok ids addr ij refl]) (auto simp: A u(3) recv_keeps)
    with states True show ?thesis by simp
  qed
qed

section \<open>Runs\<close>

text \<open>The states of the run are those of the cluster that follows the specification.\<close>

definition same_states :: "nat \<Rightarrow> (nat \<Rightarrow> CounterService) \<Rightarrow> (nat \<Rightarrow> CounterService) \<Rightarrow> bool" where
  "same_states n st sp \<longleftrightarrow> (\<forall>j < n. state_of (sp j) = state_of (st j) \<and>
     pn_nodeID (sv_counter (sp j)) = pn_nodeID (sv_counter (st j)) \<and> vc_nodeID (sv_clock (sp j)) = vc_nodeID (sv_clock (st j)))"

lemma same_statesD:
  assumes "same_states n st sp" and "j < n"
  shows "state_of (sp j) = state_of (st j)" "pn_nodeID (sv_counter (sp j)) = pn_nodeID (sv_counter (st j))"
    "vc_nodeID (sv_clock (sp j)) = vc_nodeID (sv_clock (st j))"
    "positive (sv_counter (sp j)) = positive (sv_counter (st j))" "negative (sv_counter (sp j)) = negative (sv_counter (st j))"
    "clock (sv_clock (sp j)) = clock (sv_clock (st j))"
  using assms by (auto simp: same_states_def state_of_def)

lemma full_push_state:
  "state_of (full_push ev eng (i, j) st m) =
     (if m = j then crdt_merge (state_of (st j)) (state_of (st i)) else state_of (st m))"
proof -
  obtain u where u: "build_update (ev_now (ev i)) True fmempty (eng i) (st i) = Some u" "su_Type u = FULL_STATE"
    "update_state u = state_of (st i)" using full_update by blast
  then show ?thesis using state_of_recv [of u "ev j" "st j"] by (simp add: full_push_def)
qed

lemma full_push_names:
  "pn_nodeID (sv_counter (full_push ev eng (i, j) st m)) = pn_nodeID (sv_counter (st m))"
  "vc_nodeID (sv_clock (full_push ev eng (i, j) st m)) = vc_nodeID (sv_clock (st m))"
  by (simp_all add: full_push_def recv_keeps split: option.split)

lemma full_exchange_names:
  "pn_nodeID (sv_counter (full_exchange ev eng (i, j) st m)) = pn_nodeID (sv_counter (st m))"
  "vc_nodeID (sv_clock (full_exchange ev eng (i, j) st m)) = vc_nodeID (sv_clock (st m))"
  using recv_keeps [of "ev j" _ "st j"] by (auto simp: full_exchange_def Let_def split: option.split prod.split) (metis snd_conv)+

lemma request_ok:
  assumes "colon_free name" and "0 \<le> sint d"
  shows "colon_free (canonical_name name)" "canonical_name name \<noteq> ''''" "0 < sint (req_delta d)"
  using assms canonical_ok req_delta_pos by auto

definition run_inv ::
  "nat \<Rightarrow> (nat \<Rightarrow> string) \<Rightarrow> (nat \<Rightarrow> string) \<Rightarrow> int \<Rightarrow> (nat \<Rightarrow> CounterService) \<Rightarrow> gossip_cluster \<Rightarrow> bool" where
  "run_inv n ids addr G sp c \<longleftrightarrow> gossip_ok n ids addr G c \<and> same_states n (snd c) sp"

lemma update_run_inv:
  assumes inv: "run_inv n ids addr G sp (eng, st)" and ids: "good_ids n ids" and i: "i < n"
  shows "colon_free (ir_CounterName req) \<Longrightarrow> 0 \<le> sint (ir_Delta req) \<Longrightarrow> G + sint (req_delta (ir_Delta req)) < 2 ^ 63 \<Longrightarrow>
      run_inv n ids addr (G + sint (req_delta (ir_Delta req))) (sp(i := snd (Increment ev req (sp i)))) (eng, st(i := snd (Increment ev req (st i))))"
    and "colon_free (dr_CounterName req') \<Longrightarrow> 0 \<le> sint (dr_Delta req') \<Longrightarrow> G + sint (req_delta (dr_Delta req')) < 2 ^ 63 \<Longrightarrow>
      run_inv n ids addr (G + sint (req_delta (dr_Delta req'))) (sp(i := snd (Decrement ev req' (sp i)))) (eng, st(i := snd (Decrement ev req' (st i))))"
proof -
  have ok: "gossip_ok n ids addr G (eng, st)" and same: "same_states n st sp" using inv by (simp_all add: run_inv_def)
  have N: "pn_nodeID (sv_counter (st i)) = ids i" "vc_nodeID (sv_clock (st i)) = ids i"
    using ok i by (simp_all add: gossip_ok_def names_ok_def)
  note D = same_statesD [OF same i]
  note st = update_state_of [OF N] and sp = update_state_of [OF D(2) [unfolded N] D(3) [unfolded N]]
  show "run_inv n ids addr (G + sint (req_delta (ir_Delta req))) (sp(i := snd (Increment ev req (sp i)))) (eng, st(i := snd (Increment ev req (st i))))"
    if "colon_free (ir_CounterName req)" "0 \<le> sint (ir_Delta req)" "G + sint (req_delta (ir_Delta req)) < 2 ^ 63"
  proof -
    note r = request_ok [OF that(1,2)]
    have "gossip_ok n ids addr (G + sint (req_delta (ir_Delta req))) (eng, st(i := snd (Increment ev req (st i))))"
      by (rule update_gossip_ok [OF ok ids i r that(3) _ refl]) (simp_all add: st Let_def)
    moreover have "same_states n (st(i := snd (Increment ev req (st i)))) (sp(i := snd (Increment ev req (sp i))))"
      using same D st sp by (auto simp: same_states_def Let_def)
    ultimately show ?thesis by (simp add: run_inv_def)
  qed
  show "run_inv n ids addr (G + sint (req_delta (dr_Delta req'))) (sp(i := snd (Decrement ev req' (sp i)))) (eng, st(i := snd (Decrement ev req' (st i))))"
    if "colon_free (dr_CounterName req')" "0 \<le> sint (dr_Delta req')" "G + sint (req_delta (dr_Delta req')) < 2 ^ 63"
  proof -
    note r = request_ok [OF that(1,2)]
    have "gossip_ok n ids addr (G + sint (req_delta (dr_Delta req'))) (eng, st(i := snd (Decrement ev req' (st i))))"
      by (rule update_gossip_ok [OF ok ids i r that(3) _ refl]) (simp_all add: st Let_def)
    moreover have "same_states n (st(i := snd (Decrement ev req' (st i)))) (sp(i := snd (Decrement ev req' (sp i))))"
      using same D st sp by (auto simp: same_states_def Let_def)
    ultimately show ?thesis by (simp add: run_inv_def)
  qed
qed

lemma round_run_inv:
  assumes inv: "run_inv n ids addr G sp (eng, st)" and ids: "good_ids n ids" and addr: "inj_on addr {..<n}"
    and ij: "i < n" "j < n" "i \<noteq> j" and step: "run_step ev addr (R_Round i j) (eng, st) = (es, c)"
  shows "run_inv n ids addr G (fold (cluster_step ev eng') es sp) c \<and> list_all (event_ok n) es \<and> gross es = 0"
proof -
  have ok: "gossip_ok n ids addr G (eng, st)" and same: "same_states n st sp" using inv by (simp_all add: run_inv_def)
  have S: "states_ok n ids G (\<lambda>j. state_of (st j))" using ok by (simp add: gossip_ok_def)
  note D = same_statesD [OF same]
  have "crdt_ok (state_of (sp i))" "crdt_ok (state_of (sp j))" using states_okD(1) [OF S] ij D(1) by simp_all
  then have sync: "state_of (full_exchange ev eng' (i, j) sp m) =
      (if m = i \<or> m = j then crdt_merge (state_of (sp j)) (state_of (sp i)) else state_of (sp m))" for m
    using fun_cong [OF full_exchange_state [of sp "(i, j)" ev eng'], of m] by (auto simp: exchange_def Let_def)
  obtain res g A B where round: "two_sides (ev i) (ev j) (addr j) (eng i) (st i) (st j) = (res, g, A, B)" by (metis prod_cases4)
  note r = round_gossip_ok [OF ok ids addr ij round]
  have c: "c = (eng(i := g), st(i := A, j := B))"
    and es: "es = (case res of Synced \<Rightarrow> [Sync i j] | Nothing_new \<Rightarrow> [Push i j] | _ \<Rightarrow> [])"
    using step round by auto
  have gross: "list_all (event_ok n) es \<and> gross es = 0" using es ij by (auto simp: gross_def split: sync_result.splits)
  have N: "names_ok n ids (eng, st)" "names_ok n ids c" using ok r c by (simp_all add: gossip_ok_def)
  have "same_states n (snd c) (fold (cluster_step ev eng') es sp)"
    unfolding same_states_def
  proof (intro allI impI conjI)
    fix m
    assume m: "m < n"
    have "pn_nodeID (sv_counter (snd c m)) = pn_nodeID (sv_counter (st m))" "vc_nodeID (sv_clock (snd c m)) = vc_nodeID (sv_clock (st m))"
      using N m by (simp_all add: names_ok_def)
    then show "pn_nodeID (sv_counter (fold (cluster_step ev eng') es sp m)) = pn_nodeID (sv_counter (snd c m))"
      "vc_nodeID (sv_clock (fold (cluster_step ev eng') es sp m)) = vc_nodeID (sv_clock (snd c m))"
      using D(2,3) [OF m] es by (auto simp: full_exchange_names full_push_names split: sync_result.splits)
    show "state_of (fold (cluster_step ev eng') es sp m) = state_of (snd c m)"
      using r D(1) [OF m] D(1) [OF ij(1)] D(1) [OF ij(2)] es c ij(3)
      by (auto simp: sync full_push_state split: sync_result.splits)
  qed
  with r c gross show ?thesis by (simp add: run_inv_def)
qed

lemma down_run_inv:
  assumes inv: "run_inv n ids addr G sp (eng, st)" and ij: "i < n" "j < n"
    and step: "run_step ev addr (R_Down i j) (eng, st) = (es, c)"
  shows "es = [] \<and> run_inv n ids addr G sp c"
proof -
  obtain res g A where round: "gossipToPeer (ev i) (\<lambda>_. dead_net) id (addr j) (eng i) (st i) = (res, g, A)" by (metis prod_cases3)
  note r = down_round [OF round]
  have c: "es = []" "c = (eng(i := g), st)" using step round r by auto
  have "gossip_ok n ids addr G (eng(i := g), st)"
    using inv r by (auto simp: run_inv_def gossip_ok_def baselines_ok_def names_ok_def)
  with inv c show ?thesis by (simp add: run_inv_def)
qed

lemma run_step_inv:
  assumes inv: "run_inv n ids addr G sp c" and ids: "good_ids n ids" and addr: "inj_on addr {..<n}" and ok: "run_event_ok n r"
    and step: "run_step ev addr r c = (es, c')" and G: "G + gross es < 2 ^ 63"
  shows "run_inv n ids addr (G + gross es) (fold (cluster_step ev eng') es sp) c' \<and> list_all (event_ok n) es"
proof (cases c)
  case (Pair eng st)
  note inv = inv [unfolded Pair] and step = step [unfolded Pair]
  show ?thesis
  proof (cases r)
    case (R_Round i j)
    with round_run_inv [OF inv ids addr, of i j ev es c' eng'] step ok show ?thesis by simp
  next
    case (R_Down i j)
    with down_run_inv [OF inv, of i j ev es c'] step ok show ?thesis by (simp add: gross_def)
  next
    case (R_Inc i req)
    then have "es = [Inc i req]" "c' = (eng, st(i := snd (Increment (ev i) req (st i))))" using step by simp_all
    with R_Inc ok G update_run_inv(1) [OF inv ids, of i req "ev i"] show ?thesis by (simp add: gross_def)
  next
    case (R_Dec i req)
    then have "es = [Dec i req]" "c' = (eng, st(i := snd (Decrement (ev i) req (st i))))" using step by simp_all
    with R_Dec ok G update_run_inv(2) [OF inv ids, of i req "ev i"] show ?thesis by (simp add: gross_def)
  qed
qed

lemma gross_append: "gross (es @ es') = gross es + gross es'"
  by (simp add: gross_def)

lemma run_gross: "list_all (run_event_ok n) rs \<Longrightarrow> run ev addr rs c = (es, c') \<Longrightarrow> 0 \<le> gross es"
proof (induction rs arbitrary: c es)
  case (Cons r rs)
  obtain es1 c1 es2 where s: "run_step ev addr r c = (es1, c1)" "run ev addr rs c1 = (es2, c')" "es = es1 @ es2"
    using Cons.prems(2) by (auto split: prod.splits)
  have "0 \<le> gross es1"
    using s(1) Cons.prems(1) by (cases r; cases c) (auto simp: gross_def dest!: req_delta_pos split: prod.splits sync_result.splits)
  with Cons.IH [OF _ s(2)] Cons.prems(1) s(3) show ?case by (simp add: gross_append)
qed (simp add: gross_def)

lemma run_run_inv:
  assumes "run_inv n ids addr G sp c" and ids: "good_ids n ids" and addr: "inj_on addr {..<n}" and "list_all (run_event_ok n) rs"
    and "run ev addr rs c = (es, c')" and "G + gross es < 2 ^ 63"
  shows "run_inv n ids addr (G + gross es) (fold (cluster_step ev eng') es sp) c' \<and> list_all (event_ok n) es"
  using assms(1,4-6)
proof (induction rs arbitrary: c es G sp)
  case Nil
  then show ?case by (simp add: gross_def)
next
  case (Cons r rs)
  obtain es1 c1 es2 where s: "run_step ev addr r c = (es1, c1)" "run ev addr rs c1 = (es2, c')" "es = es1 @ es2"
    using Cons.prems(3) by (auto split: prod.splits)
  have rs: "run_event_ok n r" "list_all (run_event_ok n) rs" using Cons.prems(2) by simp_all
  have G: "G + gross es1 + gross es2 < 2 ^ 63" using Cons.prems(4) s(3) by (simp add: gross_append)
  have lt: "G + gross es1 < 2 ^ 63" using G run_gross [OF rs(2) s(2)] by linarith
  note step = run_step_inv [OF Cons.prems(1) ids addr rs(1) s(1) lt, of eng']
  from Cons.IH [OF conjunct1 [OF step] rs(2) s(2) G] step s(3) show ?case by (simp add: gross_append add.assoc)
qed

lemma fresh_run_inv:
  assumes "\<forall>j < n. sv_counter (st j) = NewPNCounter (ids j) \<and> sv_clock (st j) = NewVectorClock (ids j) \<and> sv_lastSyncClock (st j) = fmempty"
    and "\<forall>j < n. ge_nodeID (eng j) = ids j \<and> ge_lastSync (eng j) = fmempty \<and> 0 < ge_maxRetries (eng j)"
  shows "run_inv n ids addr 0 st (eng, st)"
proof -
  have s: "state_of (st j) = ((fmempty, fmempty), fmempty)" if "j < n" for j
    using assms(1) that by (simp add: state_of_def NewPNCounter_def NewVectorClock_def)
  have "states_ok n ids 0 (\<lambda>j. state_of (st j))" by (auto simp: states_ok_def s crdt_ok_def counts_positive_def)
  moreover have "baselines_ok n ids addr (eng, st)"
    using assms by (simp add: baselines_ok_def s below_def clock_at_def)
  moreover have "names_ok n ids (eng, st)" using assms by (simp add: names_ok_def NewPNCounter_def NewVectorClock_def)
  ultimately show ?thesis by (simp add: run_inv_def gossip_ok_def same_states_def)
qed

section \<open>Properties\<close>

text \<open>C2: gossip with deltas is as good as gossip with full states: whatever the engines decide to send, as long as
  no answer gets lost after the peer has handled the update, every node ends in the state that full exchanges
  would have given it, and so a node that has heard of every node's updates reports exactly the sum of the clients' deltas.\<close>

theorem delta_gossip_exact:
  assumes "good_ids n ids" and "inj_on addr {..<n}" and "list_all (run_event_ok n) rs"
    and "\<forall>j < n. sv_counter (st j) = NewPNCounter (ids j) \<and> sv_clock (st j) = NewVectorClock (ids j) \<and> sv_lastSyncClock (st j) = fmempty"
    and "\<forall>j < n. ge_nodeID (eng j) = ids j \<and> ge_lastSync (eng j) = fmempty \<and> 0 < ge_maxRetries (eng j)"
    and "run ev addr rs (eng, st) = (es, eng', st')" and "gross es < 2 ^ 63"
  shows "(\<forall>j < n. state_of (st' j) = state_of (fold (cluster_step ev eng) es st j)) \<and>
    (\<forall>i < n. \<forall>name. {..<n} \<subseteq> informed es i \<union> {i} \<and> colon_free name \<longrightarrow>
       sint (PN_ValueName name (sv_counter (st' i))) = spec_value es name)"
proof -
  note inv = run_run_inv [OF fresh_run_inv [OF assms(4,5)] assms(1-3,6), of eng]
  with assms(7) have same: "same_states n st' (fold (cluster_step ev eng) es st)" and es: "list_all (event_ok n) es"
    by (simp_all add: run_inv_def)
  have fresh: "\<forall>j < n. sv_counter (st j) = NewPNCounter (ids j)" using assms(4) by blast
  have "sint (PN_ValueName name (sv_counter (st' i))) = spec_value es name"
    if "i < n" "{..<n} \<subseteq> informed es i \<union> {i}" "colon_free name" for i name
    using exact_value [OF es assms(1,7) fresh that, of ev eng] value_of_state [OF same_statesD(1) [OF same that(1)], of name] by simp
  with same_statesD(1) [OF same] show ?thesis by auto
qed

definition run_sample :: "run_event list" where
  "run_sample =
     [R_Inc 0 \<lparr>ir_Delta = 5, ir_ClientId = '''', ir_Timestamp = 0, ir_CounterName = ''likes''\<rparr>, R_Round 0 1,
      R_Dec 1 \<lparr>dr_Delta = 2, dr_ClientId = '''', dr_Timestamp = 0, dr_CounterName = ''likes''\<rparr>, R_Round 1 0]"

definition run_nodes :: gossip_cluster where
  "run_nodes = (\<lambda>i. NewGossipEngine (if i = 0 then ''a'' else ''b'') 0,
     \<lambda>i. NewCounterService (if i = 0 then ''a'' else ''b'') 5000 fmempty)"

definition run_result :: "cluster_event list \<times> gossip_cluster" where
  "run_result = run (\<lambda>_. sample_env) (\<lambda>i. if i = 0 then ''x'' else ''y'') run_sample run_nodes"

lemma run_result_events: "fst run_result = butlast exact_sample @ [Sync 1 0]"
  by code_simp

theorem delta_gossip_exact_witness: "sint (PN_ValueName ''likes'' (sv_counter (snd (snd run_result) 0))) = 3"
proof -
  let ?ids = "\<lambda>i::nat. if i = 0 then ''a'' else ''b''" and ?es = "butlast exact_sample @ [Sync 1 0]"
  have r: "run (\<lambda>_. sample_env) (\<lambda>i. if i = 0 then ''x'' else ''y'') run_sample (fst run_nodes, snd run_nodes) =
      (?es, fst (snd run_result), snd (snd run_result))"
    using run_result_events by (simp add: run_result_def prod_eq_iff)
  have es: "gross ?es < 2 ^ 63" "spec_value ?es ''likes'' = 3" "{..<2} \<subseteq> informed ?es 0 \<union> {0}" "list_all (run_event_ok 2) run_sample"
    by (simp_all add: run_sample_def exact_sample_def gross_def spec_value_def req_delta_def Let_def canonical_name_def informed_def)
  have ids: "good_ids 2 ?ids" "inj_on (\<lambda>i::nat. if i = 0 then ''x'' else ''y'') {..<2}"
    by (auto simp: good_ids_def inj_on_def less_2_cases_iff)
  have fresh: "\<forall>j < 2. sv_counter (snd run_nodes j) = NewPNCounter (?ids j) \<and> sv_clock (snd run_nodes j) = NewVectorClock (?ids j) \<and>
      sv_lastSyncClock (snd run_nodes j) = fmempty"
    "\<forall>j < 2. ge_nodeID (fst run_nodes j) = ?ids j \<and> ge_lastSync (fst run_nodes j) = fmempty \<and> 0 < ge_maxRetries (fst run_nodes j)"
    by (simp_all add: run_nodes_def NewCounterService_def NewGossipEngine_def)
  show ?thesis
    using delta_gossip_exact [OF ids es(4) fresh r es(1)] es(2,3) by auto
qed

end
