(* ===== verification/Full_Rounds.thy ===== *)
theory Full_Rounds
  imports Gossip
begin

text \<open>
  How often the engine sends its full state. The counter of rounds is one for all peers: every \<open>fullSyncInterval\<close>-th round that the
  circuit breakers let through is a full one, whichever peer it goes to.
\<close>

section \<open>A sequence of rounds\<close>

record exchange_env =
  xe_ev :: service_env
  xe_net :: "StateUpdate \<Rightarrow> peer_net"
  xe_others :: "CounterService \<Rightarrow> CounterService"
  xe_address :: string

text \<open>The rounds of an engine one after another, each with the engine and the service it starts from.\<close>

fun rounds :: "exchange_env list \<Rightarrow> GossipEngine \<Rightarrow> CounterService \<Rightarrow> (exchange_env \<times> GossipEngine \<times> CounterService) list" where
  "rounds [] g s = []"
| "rounds (x # xs) g s =
     (x, g, s) #
     (case gossipToPeer (xe_ev x) (xe_net x) (xe_others x) (xe_address x) g s of (res, g, s) \<Rightarrow> rounds xs g s)"

definition let_through :: "exchange_env \<times> GossipEngine \<times> CounterService \<Rightarrow> bool" where
  "let_through e = (case e of (x, g, s) \<Rightarrow> Allow (ev_now (xe_ev x)) (fst (breaker (xe_address x) g)))"

definition scheduled :: "exchange_env \<times> GossipEngine \<times> CounterService \<Rightarrow> bool" where
  "scheduled e = (case e of (x, g, s) \<Rightarrow> (ge_round g + 1) mod ge_fullSyncInterval g = 0)"

section \<open>The counter of rounds\<close>

lemma stream_round:
  "getOrCreateStream d st a g = (ok, g') \<Longrightarrow>
    ge_round g' = ge_round g \<and> ge_fullSyncInterval g' = ge_fullSyncInterval g \<and> ge_maxRetries g' = ge_maxRetries g"
  by (auto simp: getOrCreateStream_def split: option.splits if_splits)

lemma evict_round [simp]:
  "ge_round (evictConn a g) = ge_round g" "ge_fullSyncInterval (evictConn a g) = ge_fullSyncInterval g"
  "ge_maxRetries (evictConn a g) = ge_maxRetries g"
  by (simp_all add: evictConn_def split: option.split)

lemma sync_loop_round:
  "ge_round (snd (sync_loop net a i n h g)) = ge_round g \<and>
   ge_fullSyncInterval (snd (sync_loop net a i n h g)) = ge_fullSyncInterval g \<and>
   ge_maxRetries (snd (sync_loop net a i n h g)) = ge_maxRetries g"
proof (induction net a i n h g rule: sync_loop.induct)
  case (2 net a i n h g)
  obtain ok g1 where 1: "(if h then (True, g) else getOrCreateStream (net_dial net (i + 1)) (net_stream net (i + 1)) a g) = (ok, g1)"
    by fastforce
  then have "ge_round g1 = ge_round g" "ge_fullSyncInterval g1 = ge_fullSyncInterval g" "ge_maxRetries g1 = ge_maxRetries g"
    by (auto dest: stream_round split: if_splits)
  with 2 [OF 1 [symmetric]] show ?case unfolding sync_loop.simps 1 by (cases ok) (simp_all split: option.split)
qed simp

lemma deliver_round:
  assumes "deliver ev net others a b c g s = (res, g', s')"
  shows "ge_round g' = ge_round g \<and> ge_fullSyncInterval g' = ge_fullSyncInterval g \<and> ge_maxRetries g' = ge_maxRetries g"
proof -
  obtain ok g1 where 1: "getOrCreateStream (net_dial net 0) (net_stream net 0) a g = (ok, g1)" by fastforce
  obtain r g2 where 2: "sync_loop net a 0 (ge_maxRetries g) True g1 = (r, g2)" by fastforce
  from assms stream_round [OF 1] sync_loop_round [of net a 0 "ge_maxRetries g" True g1] show ?thesis
    by (cases ok; cases r) (auto simp: deliver_def Let_def 1 2)
qed

lemma gossipToPeer_round:
  assumes "gossipToPeer ev net others a g s = (res, g', s')"
  shows "ge_fullSyncInterval g' = ge_fullSyncInterval g" and "ge_maxRetries g' = ge_maxRetries g"
    and "ge_round g' = (if Allow (ev_now ev) (fst (breaker a g)) then ge_round g + 1 else ge_round g)"
proof -
  obtain b g1 where b: "breaker a g = (b, g1)" by fastforce
  then have g1: "ge_round g1 = ge_round g" "ge_fullSyncInterval g1 = ge_fullSyncInterval g" "ge_maxRetries g1 = ge_maxRetries g"
    by (auto simp: breaker_def Let_def split: option.splits)
  have "ge_fullSyncInterval g' = ge_fullSyncInterval g \<and> ge_maxRetries g' = ge_maxRetries g \<and>
    ge_round g' = (if Allow (ev_now ev) b then ge_round g + 1 else ge_round g)"
  proof (cases "Allow (ev_now ev) b")
    case True
    from assms g1 True show ?thesis
      unfolding gossipToPeer_eq [OF b True] by (auto dest!: deliver_round split: option.splits)
  next
    case False
    with assms b g1 show ?thesis by (simp add: gossipToPeer_def)
  qed
  with b show "ge_fullSyncInterval g' = ge_fullSyncInterval g" and "ge_maxRetries g' = ge_maxRetries g"
    and "ge_round g' = (if Allow (ev_now ev) (fst (breaker a g)) then ge_round g + 1 else ge_round g)" by simp_all
qed

lemma rounds_maxRetries: "(x, h, t) \<in> set (rounds xs g s) \<Longrightarrow> ge_maxRetries h = ge_maxRetries g"
  by (induction xs arbitrary: g s) (auto dest: gossipToPeer_round(2) [OF sym] split: prod.splits)

lemma rounds_scheduled:
  assumes "0 < j" and "(ge_round g + int j) mod ge_fullSyncInterval g = 0" and "j \<le> length (filter let_through (rounds xs g s))"
  shows "\<exists>e \<in> set (rounds xs g s). let_through e \<and> scheduled e"
  using assms
proof (induction xs arbitrary: g s j)
  case (Cons x xs)
  obtain res g' s' where x: "gossipToPeer (xe_ev x) (xe_net x) (xe_others x) (xe_address x) g s = (res, g', s')" by (metis prod_cases3)
  note r = gossipToPeer_round [OF x]
  show ?case
  proof (cases "let_through (x, g, s)")
    case False
    then have "ge_round g' = ge_round g" using r(3) by (simp add: let_through_def)
    with Cons.IH [of j g' s'] Cons.prems False r(1) x show ?thesis by auto
  next
    case allowed: True
    then have g': "ge_round g' = ge_round g + 1" using r(3) by (simp add: let_through_def)
    show ?thesis
    proof (cases "j = 1")
      case True
      with Cons.prems(2) allowed show ?thesis by (simp add: scheduled_def)
    next
      case False
      with Cons.prems(1) have j: "0 < j - 1" "int (j - 1) = int j - 1" by auto
      moreover have "(ge_round g' + int (j - 1)) mod ge_fullSyncInterval g' = 0" using Cons.prems(2) j g' r(1) by simp
      moreover have "j - 1 \<le> length (filter let_through (rounds xs g' s'))" using Cons.prems(3) allowed x by simp
      ultimately show ?thesis using Cons.IH [of "j - 1" g' s'] x by auto
    qed
  qed
qed simp

text \<open>The peer answers the update of a round at once.\<close>

definition reachable_peer :: "service_env \<Rightarrow> CounterService \<Rightarrow> StateUpdate \<Rightarrow> peer_net \<Rightarrow> bool" where
  "reachable_peer evB B u net \<longleftrightarrow>
     net_dial net 0 \<and> net_stream net 0 \<and> net_send net 0 \<and> net_recv net 0 = fst (SyncState_recv evB u B)"

lemma scheduled_sends:
  assumes "let_through (x, g, s)" and "scheduled (x, g, s)"
  shows "\<exists>u b g1. su_Type u = FULL_STATE \<and> update_state u = state_of s \<and> ge_maxRetries g1 = ge_maxRetries g \<and>
    gossipToPeer (xe_ev x) (xe_net x) (xe_others x) (xe_address x) g s =
      deliver (xe_ev x) (xe_net x u) (xe_others x) (xe_address x) b (clock (sv_clock s)) g1 s"
proof -
  obtain b g1 where b: "breaker (xe_address x) g = (b, g1)" by fastforce
  obtain u where u: "build_update (ev_now (xe_ev x)) True (clock_at (ge_lastSync g) (xe_address x)) g s = Some u"
    "su_Type u = FULL_STATE" "update_state u = state_of s" using full_update by blast
  moreover have "full_round (xe_address x) g s" using assms(2) by (simp add: scheduled_def full_round_def)
  moreover have "Allow (ev_now (xe_ev x)) b" using assms(1) b by (simp add: let_through_def)
  ultimately have "gossipToPeer (xe_ev x) (xe_net x) (xe_others x) (xe_address x) g s =
      deliver (xe_ev x) (xe_net x u) (xe_others x) (xe_address x) b (clock (sv_clock s)) (g1\<lparr>ge_round := ge_round g + 1\<rparr>) s"
    using gossipToPeer_eq [OF b, of "xe_ev x" "xe_net x" "xe_others x" s] by simp
  with u breaker_frame(4) [OF b] show ?thesis
    by (intro exI [of _ u] exI [of _ b] exI [of _ "g1\<lparr>ge_round := ge_round g + 1\<rparr>"]) simp
qed

lemma full_delivered:
  assumes "su_Type u = FULL_STATE" and "update_state u = state_of s" and "reachable_peer evB B u net" and "0 < ge_maxRetries g"
  shows "\<exists>g' s'. deliver ev net others a b c g s = (Synced, g', s') \<and>
      state_of s' = crdt_merge (state_of (others s)) (crdt_merge (state_of B) (state_of s))"
    and "state_of (snd (SyncState_recv evB u B)) = crdt_merge (state_of B) (state_of s)"
proof -
  show B: "state_of (snd (SyncState_recv evB u B)) = crdt_merge (state_of B) (state_of s)"
    using state_of_recv [of u evB B] assms(1,2) by simp
  obtain r where r: "fst (SyncState_recv evB u B) = Some r" "update_state r = state_of (snd (SyncState_recv evB u B))"
    using full_reply [OF assms(1)] by blast
  with deliver_success [of net r g ev others a b c s] assms(3,4) B
  show "\<exists>g' s'. deliver ev net others a b c g s = (Synced, g', s') \<and>
      state_of s' = crdt_merge (state_of (others s)) (crdt_merge (state_of B) (state_of s))"
    by (simp add: reachable_peer_def)
qed

section \<open>Properties\<close>

text \<open>C8: the full state is sent regularly: among any rounds of which the circuit breakers let \<open>fullSyncInterval\<close> through, whatever their
  outcomes, whichever peers they go to and whatever else the node does meanwhile, there is one that hands an update of type
  \<open>FULL_STATE\<close> with the whole state of the node at that moment to the network. If the peer of that round can be reached and answers,
  whatever its state is, the round succeeds, the peer holds the merge of its state with the whole state of the node, and the node
  has merged the same into its own.\<close>

theorem full_state_is_sent:
  assumes "0 < ge_fullSyncInterval g" and "0 < ge_maxRetries g"
    and "ge_fullSyncInterval g \<le> int (length (filter let_through (rounds xs g s)))"
  shows "\<exists>(x, h, t) \<in> set (rounds xs g s). \<exists>u. su_Type u = FULL_STATE \<and> update_state u = state_of t \<and>
    (\<exists>b h1. gossipToPeer (xe_ev x) (xe_net x) (xe_others x) (xe_address x) h t =
      deliver (xe_ev x) (xe_net x u) (xe_others x) (xe_address x) b (clock (sv_clock t)) h1 t) \<and>
    (\<forall>evB B. reachable_peer evB B u (xe_net x u) \<longrightarrow>
      state_of (snd (SyncState_recv evB u B)) = crdt_merge (state_of B) (state_of t) \<and>
      (\<exists>h' t'. gossipToPeer (xe_ev x) (xe_net x) (xe_others x) (xe_address x) h t = (Synced, h', t') \<and>
        state_of t' = crdt_merge (state_of (xe_others x t)) (crdt_merge (state_of B) (state_of t))))"
proof -
  let ?n = "ge_fullSyncInterval g"
  define j where "j = nat (?n - ge_round g mod ?n)"
  have m: "0 \<le> ge_round g mod ?n" "ge_round g mod ?n < ?n" using assms(1) by simp_all
  then have j: "0 < j" "int j = ?n - ge_round g mod ?n" "j \<le> length (filter let_through (rounds xs g s))"
    using assms(3) by (auto simp: j_def)
  have "ge_round g + int j = ?n * (ge_round g div ?n + 1)" using j(2) by (simp add: minus_mod_eq_mult_div [symmetric] algebra_simps)
  then have "(ge_round g + int j) mod ?n = 0" by simp
  from rounds_scheduled [OF j(1) this j(3)] obtain x h t
    where e: "(x, h, t) \<in> set (rounds xs g s)" "let_through (x, h, t)" "scheduled (x, h, t)" by auto
  from scheduled_sends [OF e(2,3)] obtain u b h1 where u: "su_Type u = FULL_STATE" "update_state u = state_of t"
    and k: "ge_maxRetries h1 = ge_maxRetries h" and d: "gossipToPeer (xe_ev x) (xe_net x) (xe_others x) (xe_address x) h t =
      deliver (xe_ev x) (xe_net x u) (xe_others x) (xe_address x) b (clock (sv_clock t)) h1 t"
    by blast
  have r: "0 < ge_maxRetries h1" using k rounds_maxRetries [OF e(1)] assms(2) by simp
  show ?thesis
    by (rule bexI [OF _ e(1)], unfold prod.case d, rule exI [of _ u])
      (use u full_delivered [OF u _ r] in blast)
qed

definition sample_rounds :: "exchange_env list" where
  "sample_rounds = replicate 2 \<lparr>xe_ev = sample_env, xe_net = sample_net, xe_others = id, xe_address = ''x''\<rparr>"

theorem full_state_is_sent_witness:
  "\<exists>(x, h, t) \<in> set (rounds sample_rounds (SetFullSyncInterval 2 (NewGossipEngine ''a'' 0)) (sample_cluster 0)).
     \<exists>u h' t'. su_Type u = FULL_STATE \<and> update_state u = state_of t \<and>
       gossipToPeer (xe_ev x) (xe_net x) (xe_others x) (xe_address x) h t = (Synced, h', t') \<and>
       state_of (snd (SyncState_recv sample_env u (sample_cluster 2))) = crdt_merge (state_of (sample_cluster 2)) (state_of t)"
proof -
  let ?g = "SetFullSyncInterval 2 (NewGossipEngine ''a'' 0)"
  have interval: "0 < ge_fullSyncInterval ?g" and retries: "0 < ge_maxRetries ?g"
    by (simp_all add: SetFullSyncInterval_def NewGossipEngine_def)
  have enough: "ge_fullSyncInterval ?g \<le> int (length (filter let_through (rounds sample_rounds ?g (sample_cluster 0))))"
    by code_simp
  obtain x h t u where e: "(x, h, t) \<in> set (rounds sample_rounds ?g (sample_cluster 0))" and u: "su_Type u = FULL_STATE" "update_state u = state_of t"
    and reached: "\<And>evB B. reachable_peer evB B u (xe_net x u) \<Longrightarrow>
      state_of (snd (SyncState_recv evB u B)) = crdt_merge (state_of B) (state_of t) \<and>
      (\<exists>h' t'. gossipToPeer (xe_ev x) (xe_net x) (xe_others x) (xe_address x) h t = (Synced, h', t'))"
    using full_state_is_sent [OF interval retries enough] by blast
  have "xe_net x = sample_net" using e by (auto simp: sample_rounds_def numeral_2_eq_2 split: prod.splits)
  then have "reachable_peer sample_env (sample_cluster 2) u (xe_net x u)" by (simp add: reachable_peer_def sample_net_def)
  from reached [OF this] u show ?thesis by (intro bexI [OF _ e]) auto
qed

end
