(* ===== verification/Interleaving.thy ===== *)
theory Interleaving
  imports Recovery "HOL-Library.Multiset"
begin

text \<open>
  Handlers that run at the same time. No lock spans a handler: the counter, the clock, the tags, the log and the store
  are each locked for a single call, so that the handlers of different requests and the snapshot loop interleave
  between those calls. A handler is the list of its atomic actions, with the state it reads in a local variable;
  threads take turns in any order.
\<close>

section \<open>Atomic actions\<close>

datatype atom =
  A_IncrementName string int64 | A_DecrementName string int64 | A_tick string
| A_ResetName string | A_reset_clock string | A_forget_baselines
| A_log service_env string string int64
| A_read_tags | A_read_positive | A_read_negative | A_read_clock
| A_save service_env | A_truncate service_env

type_synonym thread = "CounterState \<times> atom list"

text \<open>The result says whether the handler goes on: \<open>Snapshot\<close> returns when the store fails.\<close>

fun exec_atom :: "atom \<Rightarrow> CounterState \<times> CounterService \<Rightarrow> bool \<times> CounterState \<times> CounterService" where
  "exec_atom (A_IncrementName name delta) (loc, s) = (True, loc, s\<lparr>sv_counter := PN_IncrementName name delta (sv_counter s)\<rparr>)"
| "exec_atom (A_DecrementName name delta) (loc, s) = (True, loc, s\<lparr>sv_counter := PN_DecrementName name delta (sv_counter s)\<rparr>)"
| "exec_atom (A_tick name) (loc, s) = (True, loc, s\<lparr>sv_clock := VC_IncrementName name (sv_clock s)\<rparr>)"
| "exec_atom (A_ResetName name) (loc, s) = (True, loc, s\<lparr>sv_counter := PN_ResetName name (sv_counter s)\<rparr>)"
| "exec_atom (A_reset_clock name) (loc, s) = (True, loc, s\<lparr>sv_clock := VC_ResetName name (sv_clock s)\<rparr>)"
| "exec_atom A_forget_baselines (loc, s) = (True, loc, s\<lparr>sv_lastSyncClock := fmempty\<rparr>)"
| "exec_atom (A_log ev op name delta) (loc, s) = (True, loc, walAppend ev op name delta fmempty fmempty fmempty s)"
| "exec_atom A_read_tags (loc, s) = (True, loc\<lparr>st_Tags := copy_map (sv_tags s)\<rparr>, s)"
| "exec_atom A_read_positive (loc, s) = (True, loc\<lparr>st_Positive := PN_Positive (sv_counter s)\<rparr>, s)"
| "exec_atom A_read_negative (loc, s) = (True, loc\<lparr>st_Negative := PN_Negative (sv_counter s)\<rparr>, s)"
| "exec_atom A_read_clock (loc, s) = (True, loc\<lparr>st_Clock := VC_State (sv_clock s)\<rparr>, s)"
| "exec_atom (A_save ev) (loc, s) = (case snapshot_save ev loc s of (ok, s) \<Rightarrow> (ok, loc, s))"
| "exec_atom (A_truncate ev) (loc, s) = (True, loc, snapshot_truncate ev s)"

text \<open>The handlers; the log and the store of a service do not change while it runs.\<close>

definition read_atoms :: "atom list" where
  "read_atoms = [A_read_tags, A_read_positive, A_read_negative, A_read_clock]"

definition persist_atoms :: "service_env \<Rightarrow> CounterService \<Rightarrow> atom list" where
  "persist_atoms ev s = (if sv_wal s \<noteq> None \<or> sv_store s = None then [] else read_atoms @ [A_save ev])"

definition increment_atoms :: "service_env \<Rightarrow> IncrementRequest \<Rightarrow> CounterService \<Rightarrow> atom list" where
  "increment_atoms ev req s =
     (let name = normalizeName (ir_CounterName req);
          delta = req_delta (ir_Delta req)
      in [A_IncrementName name delta, A_tick name, A_log ev ''increment'' name delta] @ persist_atoms ev s)"

definition decrement_atoms :: "service_env \<Rightarrow> DecrementRequest \<Rightarrow> CounterService \<Rightarrow> atom list" where
  "decrement_atoms ev req s =
     (let name = normalizeName (dr_CounterName req);
          delta = req_delta (dr_Delta req)
      in [A_DecrementName name delta, A_tick name, A_log ev ''decrement'' name delta] @ persist_atoms ev s)"

definition reset_atoms :: "service_env \<Rightarrow> string \<Rightarrow> CounterService \<Rightarrow> atom list" where
  "reset_atoms ev req_CounterName s =
     (let name = normalizeName req_CounterName
      in [A_ResetName name, A_reset_clock name, A_forget_baselines, A_log ev ''reset'' name 0] @ persist_atoms ev s)"

definition snapshot_atoms :: "service_env \<Rightarrow> CounterService \<Rightarrow> atom list" where
  "snapshot_atoms ev s = (if sv_store s = None then [] else read_atoms @ [A_save ev, A_truncate ev])"

section \<open>Threads\<close>

definition new_thread :: "atom list \<Rightarrow> thread" where
  "new_thread as = (zero_state, as)"

inductive sched_step :: "thread list \<times> CounterService \<Rightarrow> thread list \<times> CounterService \<Rightarrow> bool" where
  "i < length ts \<Longrightarrow> ts ! i = (loc, a # todo) \<Longrightarrow> exec_atom a (loc, s) = (ok, loc', s') \<Longrightarrow>
   sched_step (ts, s) (ts[i := (loc', if ok then todo else [])], s')"

abbreviation sched_run :: "thread list \<times> CounterService \<Rightarrow> thread list \<times> CounterService \<Rightarrow> bool" where
  "sched_run \<equiv> sched_step\<^sup>*\<^sup>*"

inductive_cases sched_stepE: "sched_step (ts, s) (ts', s')"

text \<open>A schedule: which thread goes next. It is the executable form of the relation.\<close>

fun sched_exec :: "nat list \<Rightarrow> thread list \<times> CounterService \<Rightarrow> thread list \<times> CounterService" where
  "sched_exec [] c = c"
| "sched_exec (i # is) (ts, s) =
     (case ts ! i of
        (loc, []) \<Rightarrow> sched_exec is (ts, s)
      | (loc, a # todo) \<Rightarrow>
          (case exec_atom a (loc, s) of
             (ok, loc', s') \<Rightarrow> sched_exec is (ts[i := (loc', if ok then todo else [])], s')))"

lemma sched_exec_run: "\<forall>i \<in> set is. i < length (fst c) \<Longrightarrow> sched_run c (sched_exec is c)"
proof (induction "is" c rule: sched_exec.induct)
  case (2 i "is" ts s)
  obtain loc todo where t: "ts ! i = (loc, todo)" by (cases "ts ! i")
  show ?case
  proof (cases todo)
    case Nil
    with 2 t show ?thesis by simp
  next
    case (Cons a rest)
    obtain ok loc' s' where e: "exec_atom a (loc, s) = (ok, loc', s')" by (cases "exec_atom a (loc, s)") auto
    have "sched_step (ts, s) (ts[i := (loc', if ok then rest else [])], s')"
      using 2(3) t Cons e by (intro sched_step.intros) auto
    with 2 t Cons e show ?thesis by (auto intro: converse_rtranclp_into_rtranclp)
  qed
qed simp

section \<open>A handler that is not interrupted\<close>

fun run_thread :: "atom list \<Rightarrow> CounterState \<times> CounterService \<Rightarrow> CounterState \<times> CounterService" where
  "run_thread [] c = c"
| "run_thread (a # as) c = (case exec_atom a c of (ok, c') \<Rightarrow> if ok then run_thread as c' else c')"

lemma run_read_atoms: "run_thread (read_atoms @ as) (loc, s) = run_thread as (persisted_state s, s)"
  by (cases loc) (simp add: read_atoms_def persisted_state_def)

lemma run_persist: "snd (run_thread (persist_atoms ev s0) (loc, s)) = persist ev s"
  if "sv_wal s0 = None \<longleftrightarrow> sv_wal s = None" "sv_store s0 = None \<longleftrightarrow> sv_store s = None"
  using that
  by (auto simp: persist_atoms_def persist_def run_read_atoms snapshot_save_def split: option.splits prod.splits sum.splits)

lemma walAppend_presence: "sv_wal (walAppend ev op k d p n c s) = None \<longleftrightarrow> sv_wal s = None"
  by (auto simp: walAppend_def split: option.splits prod.splits)

lemma uninterrupted:
  "snd (run_thread (increment_atoms ev ireq s) (loc, s)) = snd (Increment ev ireq s)"
  "snd (run_thread (decrement_atoms ev dreq s) (loc, s)) = snd (Decrement ev dreq s)"
  "snd (run_thread (reset_atoms ev name s) (loc, s)) = snd (snd (Reset ev name s))"
  "snd (run_thread (snapshot_atoms ev s) (loc, s)) = Snapshot ev s"
  by (auto simp: increment_atoms_def decrement_atoms_def reset_atoms_def Increment_def Decrement_def Reset_def Let_def
      run_persist walAppend_presence snapshot_atoms_def Snapshot_def run_read_atoms split: prod.splits bool.splits)

section \<open>Concurrent updates\<close>

fun update_atoms :: "CounterService \<Rightarrow> service_env \<times> service_op \<Rightarrow> atom list" where
  "update_atoms s (ev, Op_Increment req) = increment_atoms ev req s"
| "update_atoms s (ev, Op_Decrement req) = decrement_atoms ev req s"
| "update_atoms s (ev, Op_Reset name) = reset_atoms ev name s"
| "update_atoms s (ev, Op_Sync u) = []"

fun is_update :: "service_env \<times> service_op \<Rightarrow> bool" where
  "is_update (ev, Op_Increment req) \<longleftrightarrow> ev_io ev = all_ok"
| "is_update (ev, Op_Decrement req) \<longleftrightarrow> ev_io ev = all_ok"
| "is_update _ \<longleftrightarrow> False"

text \<open>What an update does to the counter and to the clock, and what it logs.\<close>

fun count_effect :: "service_env \<times> service_op \<Rightarrow> PNCounter \<Rightarrow> PNCounter" where
  "count_effect (ev, Op_Increment req) p = PN_IncrementName (normalizeName (ir_CounterName req)) (req_delta (ir_Delta req)) p"
| "count_effect (ev, Op_Decrement req) p = PN_DecrementName (normalizeName (dr_CounterName req)) (req_delta (dr_Delta req)) p"
| "count_effect _ p = p"

fun clock_effect :: "service_env \<times> service_op \<Rightarrow> VectorClock \<Rightarrow> VectorClock" where
  "clock_effect (ev, Op_Increment req) v = VC_IncrementName (normalizeName (ir_CounterName req)) v"
| "clock_effect (ev, Op_Decrement req) v = VC_IncrementName (normalizeName (dr_CounterName req)) v"
| "clock_effect _ v = v"

definition mutation_of :: "service_env \<times> service_op \<Rightarrow> mutation" where
  "mutation_of x = hd (op_mutations x)"

lemma update_cases:
  assumes "is_update x" and "sv_wal s \<noteq> None"
  obtains a b c where "update_atoms s x = [a, b, c]"
    "\<And>loc r. exec_atom a (loc, r) = (True, loc, r\<lparr>sv_counter := count_effect x (sv_counter r)\<rparr>)"
    "\<And>loc r. exec_atom b (loc, r) = (True, loc, r\<lparr>sv_clock := clock_effect x (sv_clock r)\<rparr>)"
    "\<And>loc r. exec_atom c (loc, r) = (True, loc, log_mutation (fst x) (mutation_of x) r)"
    "ev_io (fst x) = all_ok" "mu_now (mutation_of x) = ev_now (fst x)"
    "op_mutations x = [mutation_of x]"
  using assms
  by (cases x rule: is_update.cases)
    (auto simp: increment_atoms_def decrement_atoms_def persist_atoms_def Let_def log_mutation_def mutation_of_def)

lemma replay_core_effect: "is_update x \<Longrightarrow> replay_core (mutation_of x) (p, v) = (count_effect x p, clock_effect x v)"
  by (cases x rule: is_update.cases) (auto simp: replay_core_def mutation_of_def core_def mutation_entry_def Let_def)

text \<open>Updates commute: each adds to one entry of one map.\<close>

lemma count_effect_commute: "is_update x \<Longrightarrow> is_update y \<Longrightarrow> count_effect x (count_effect y p) = count_effect y (count_effect x p)"
  by (cases x rule: is_update.cases; cases y rule: is_update.cases) (auto simp: pn_defs ac_simps fmupd_reorder_neq)

lemma clock_effect_commute: "is_update x \<Longrightarrow> is_update y \<Longrightarrow> clock_effect x (clock_effect y v) = clock_effect y (clock_effect x v)"
  by (cases x rule: is_update.cases; cases y rule: is_update.cases) (auto simp: vc_defs ac_simps fmupd_reorder_neq)

lemma replay_updates:
  "list_all is_update xs \<Longrightarrow>
   fold replay_core (map mutation_of xs) (p, v) = (fold count_effect xs p, fold clock_effect xs v)"
  by (induction xs arbitrary: p v) (simp_all add: replay_core_effect)

lemma fold_effect_mset:
  assumes "list_all is_update xs" and "mset xs = mset ys"
  shows "fold count_effect xs = fold count_effect ys" "fold clock_effect xs = fold clock_effect ys"
  using assms
  by (auto intro!: fold_multiset_equiv simp: count_effect_commute clock_effect_commute list_all_iff comp_def)

lemma run_updates_core:
  assumes "list_all is_update xs"
  shows "core (fold run_op xs s) = (fold count_effect xs (sv_counter s), fold clock_effect xs (sv_clock s))"
proof -
  have "concat (map op_mutations xs) = map mutation_of xs"
    using assms
  proof (induction xs)
    case (Cons x xs)
    then show ?case by (cases x rule: is_update.cases) (auto simp: mutation_of_def)
  qed simp
  with run_ops_core [of xs s] replay_updates [OF assms] show ?thesis by (simp add: core_def)
qed

section \<open>Where the threads are\<close>

definition past :: "nat \<Rightarrow> thread list \<Rightarrow> nat set" where
  "past k ts = {j. j < length ts \<and> length (snd (ts ! j)) + k \<le> 3}"

definition ops_at :: "'x list \<Rightarrow> nat set \<Rightarrow> 'x multiset" where
  "ops_at ops D = image_mset ((!) ops) (mset_set D)"

lemma finite_past [simp]: "finite (past k ts)"
  by (simp add: past_def)

lemma past_step:
  assumes "i < length ts" and "length (snd (ts ! i)) = Suc n" and "n \<le> 2" and "length todo = n"
  shows "past k (ts[i := (loc, todo)]) = (if k = 3 - n then insert i (past k ts) else past k ts)"
  using assms by (auto simp: past_def nth_list_update split: if_splits)

lemma ops_at_insert: "finite D \<Longrightarrow> i \<notin> D \<Longrightarrow> ops_at ops (insert i D) = add_mset (ops ! i) (ops_at ops D)"
  by (simp add: ops_at_def)

text \<open>Threads that handle the updates \<open>ops\<close>, started in the state \<open>s0\<close>.\<close>

definition sched_inv :: "(service_env \<times> service_op) list \<Rightarrow> CounterService \<Rightarrow> thread list \<times> CounterService \<Rightarrow> bool" where
  "sched_inv ops s0 c \<longleftrightarrow> (case c of (ts, s) \<Rightarrow>
     length ts = length ops \<and>
     (\<forall>j < length ops. \<exists>k \<le> 3. snd (ts ! j) = drop k (update_atoms s0 (ops ! j))) \<and>
     (\<exists>xs. mset xs = ops_at ops (past 1 ts) \<and> sv_counter s = fold count_effect xs (sv_counter s0)) \<and>
     (\<exists>xs. mset xs = ops_at ops (past 2 ts) \<and> sv_clock s = fold clock_effect xs (sv_clock s0)) \<and>
     (\<exists>xs w fs. mset xs = ops_at ops (past 3 ts) \<and> durable s = (sv_nodeID s0, Some w, fs, sv_store s0) \<and>
        (w, fs) = fold (append_call (sv_nodeID s0)) (map mutation_of xs) (the (sv_wal s0), sv_files s0)))"

lemma sched_inv_start:
  assumes "list_all is_update ops" and "sv_wal s0 \<noteq> None"
  shows "sched_inv ops s0 (map (\<lambda>x. new_thread (update_atoms s0 x)) ops, s0)"
proof -
  have "length (update_atoms s0 x) = 3" if "x \<in> set ops" for x
    using assms that update_cases [of x s0] by (metis length_Cons list.size(3) list_all_iff numeral_3_eq_3)
  then have "past k (map (\<lambda>x. new_thread (update_atoms s0 x)) ops) = {}" if "0 < k" for k
    using that by (auto simp: past_def new_thread_def)
  moreover have "\<exists>k \<le> 3. update_atoms s0 x = drop k (update_atoms s0 x)" for x by (rule exI [of _ 0]) simp
  ultimately show ?thesis using assms(2)
    by (auto simp: sched_inv_def ops_at_def new_thread_def durable_def)
qed

definition on_track :: "(service_env \<times> service_op) list \<Rightarrow> CounterService \<Rightarrow> thread list \<Rightarrow> bool" where
  "on_track ops s0 ts \<longleftrightarrow> length ts = length ops \<and>
     (\<forall>j < length ops. \<exists>k \<le> 3. snd (ts ! j) = drop k (update_atoms s0 (ops ! j)))"

text \<open>A step advances one thread by one of its three actions.\<close>

lemma sched_step_update:
  assumes "list_all is_update ops" and "sv_wal s0 \<noteq> None" and "on_track ops s0 ts" and "sched_step (ts, s) (ts', s')"
  obtains i k where "i < length ops" "on_track ops s0 ts'" "i \<notin> past (Suc k) ts" "k < 3"
    "\<And>l. past l ts' = (if l = Suc k then insert i (past l ts) else past l ts)"
    "s' = (if k = 0 then s\<lparr>sv_counter := count_effect (ops ! i) (sv_counter s)\<rparr>
       else if k = 1 then s\<lparr>sv_clock := clock_effect (ops ! i) (sv_clock s)\<rparr>
       else log_mutation (fst (ops ! i)) (mutation_of (ops ! i)) s)"
proof -
  obtain i loc a todo ok loc' where i: "i < length ts" "ts ! i = (loc, a # todo)" "exec_atom a (loc, s) = (ok, loc', s')"
    "ts' = ts[i := (loc', if ok then todo else [])]" using assms(4) by (auto elim: sched_stepE)
  define x where "x = ops ! i"
  have inv: "length ts = length ops" "\<forall>j < length ops. \<exists>k \<le> 3. snd (ts ! j) = drop k (update_atoms s0 (ops ! j))"
    using assms(3) by (simp_all add: on_track_def)
  have "is_update x" using assms(1) i(1) inv(1) by (simp add: list_all_iff x_def)
  then obtain a0 a1 a2 where as: "update_atoms s0 x = [a0, a1, a2]"
    and e: "\<And>loc r. exec_atom a0 (loc, r) = (True, loc, r\<lparr>sv_counter := count_effect x (sv_counter r)\<rparr>)"
      "\<And>loc r. exec_atom a1 (loc, r) = (True, loc, r\<lparr>sv_clock := clock_effect x (sv_clock r)\<rparr>)"
      "\<And>loc r. exec_atom a2 (loc, r) = (True, loc, log_mutation (fst x) (mutation_of x) r)"
    using update_cases [OF _ assms(2)] by metis
  obtain k where k: "k \<le> 3" "a # todo = drop k [a0, a1, a2]" using inv i(1,2) as by (metis snd_conv x_def)
  have "k = 0 \<or> k = 1 \<or> k = 2 \<or> k = 3" using k(1) by linarith
  with k(2) have k3: "k = 0 \<and> a = a0 \<and> todo = [a1, a2] \<or> k = 1 \<and> a = a1 \<and> todo = [a2] \<or> k = 2 \<and> a = a2 \<and> todo = []"
    by (auto simp: numeral_eq_Suc)
  then have s': "s' = (if k = 0 then s\<lparr>sv_counter := count_effect x (sv_counter s)\<rparr>
       else if k = 1 then s\<lparr>sv_clock := clock_effect x (sv_clock s)\<rparr> else log_mutation (fst x) (mutation_of x) s)"
    and ok: "ok" using i(3) e by auto
  have len: "length todo = 2 - k" "k < 3" "todo = drop (Suc k) [a0, a1, a2]" using k3 by auto
  then have l1: "length (snd (ts ! i)) = Suc (2 - k)" using i(2) by simp
  have "past l ts' = (if l = 3 - (2 - k) then insert i (past l ts) else past l ts)" for l
    using past_step [OF i(1) l1 _ len(1), of l loc'] i(4) ok by simp
  then have "past l ts' = (if l = Suc k then insert i (past l ts) else past l ts)" for l using len(2) by auto
  moreover have "i \<notin> past (Suc k) ts" using l1 len(2) by (auto simp: past_def)
  moreover have "\<exists>k \<le> 3. snd (ts' ! j) = drop k (update_atoms s0 (ops ! j))" if "j < length ops" for j
  proof (cases "j = i")
    case True
    then have "snd (ts' ! j) = drop (Suc k) (update_atoms s0 (ops ! j))" using i ok len(3) as by (simp add: x_def)
    with len(2) show ?thesis by (intro exI [of _ "Suc k"]) simp
  next
    case False
    with inv that i(4) show ?thesis by simp
  qed
  then have "on_track ops s0 ts'" using i(4) inv(1) by (simp add: on_track_def)
  ultimately show thesis using that [of i k] i(1) inv(1) len(2) s' by (simp add: x_def)
qed

lemma sched_inv_step:
  assumes "list_all is_update ops" and "sv_wal s0 \<noteq> None" and "sched_inv ops s0 (ts, s)" and "sched_step (ts, s) (ts', s')"
  shows "sched_inv ops s0 (ts', s')"
proof -
  let ?n = "sv_nodeID s0"
  have track: "on_track ops s0 ts" using assms(3) by (simp add: sched_inv_def on_track_def)
  obtain xs ys zs w fs where inv: "mset xs = ops_at ops (past 1 ts)" "sv_counter s = fold count_effect xs (sv_counter s0)"
    "mset ys = ops_at ops (past 2 ts)" "sv_clock s = fold clock_effect ys (sv_clock s0)"
    "mset zs = ops_at ops (past 3 ts)" "durable s = (?n, Some w, fs, sv_store s0)"
    "(w, fs) = fold (append_call ?n) (map mutation_of zs) (the (sv_wal s0), sv_files s0)"
    using assms(3) unfolding sched_inv_def prod.case by blast
  obtain i k where i: "i < length ops" "on_track ops s0 ts'" "i \<notin> past (Suc k) ts" "k < 3"
    and past: "\<And>l. past l ts' = (if l = Suc k then insert i (past l ts) else past l ts)"
    and s': "s' = (if k = 0 then s\<lparr>sv_counter := count_effect (ops ! i) (sv_counter s)\<rparr>
       else if k = 1 then s\<lparr>sv_clock := clock_effect (ops ! i) (sv_clock s)\<rparr>
       else log_mutation (fst (ops ! i)) (mutation_of (ops ! i)) s)"
    using sched_step_update [OF assms(1,2) track assms(4)] by blast
  have grow: "ops_at ops (past (Suc k) ts') = add_mset (ops ! i) (ops_at ops (past (Suc k) ts))"
    using past i(3) by (simp add: ops_at_insert)
  have track': "length ts' = length ops" "\<forall>j < length ops. \<exists>k \<le> 3. snd (ts' ! j) = drop k (update_atoms s0 (ops ! j))"
    using i(2) by (simp_all add: on_track_def)
  consider "k = 0" | "k = 1" | "k = 2" using i(4) by linarith
  then show ?thesis
  proof cases
    case 1
    with inv grow past s' have "mset (xs @ [ops ! i]) = ops_at ops (past 1 ts')" "mset ys = ops_at ops (past 2 ts')"
      "mset zs = ops_at ops (past 3 ts')" "sv_counter s' = fold count_effect (xs @ [ops ! i]) (sv_counter s0)"
      "sv_clock s' = sv_clock s" "durable s' = durable s" by (simp_all add: durable_def)
    with track' inv show ?thesis unfolding sched_inv_def prod.case by metis
  next
    case 2
    with inv grow past s' have "mset xs = ops_at ops (past 1 ts')" "mset (ys @ [ops ! i]) = ops_at ops (past 2 ts')"
      "mset zs = ops_at ops (past 3 ts')" "sv_clock s' = fold clock_effect (ys @ [ops ! i]) (sv_clock s0)"
      "sv_counter s' = sv_counter s" "durable s' = durable s" by (simp_all add: durable_def numeral_2_eq_2)
    with track' inv show ?thesis unfolding sched_inv_def prod.case by metis
  next
    case 3
    let ?x = "ops ! i"
    have "is_update ?x" using assms(1) i(1) by (simp add: list_all_iff)
    then have x: "ev_io (fst ?x) = all_ok" "mu_now (mutation_of ?x) = ev_now (fst ?x)"
      using update_cases [OF _ assms(2), of ?x] by metis+
    obtain w' fs' where ap: "append_call ?n (mutation_of ?x) (w, fs) = (w', fs')" by (cases "append_call ?n (mutation_of ?x) (w, fs)")
    from log_mutation_append [OF inv(6) x ap] 3 s' have d: "durable s' = (?n, Some w', fs', sv_store s0)" by simp
    have w': "(w', fs') = fold (append_call ?n) (map mutation_of (zs @ [?x])) (the (sv_wal s0), sv_files s0)"
      using inv(7) ap by simp
    from 3 inv grow past s' have "mset xs = ops_at ops (past 1 ts')" "mset ys = ops_at ops (past 2 ts')"
      "mset (zs @ [?x]) = ops_at ops (past 3 ts')" "sv_clock s' = sv_clock s" "sv_counter s' = sv_counter s"
      by (simp_all add: log_mutation_def walAppend_frame numeral_3_eq_3)
    with track' inv d w' show ?thesis unfolding sched_inv_def prod.case by metis
  qed
qed

lemma sched_inv_run:
  assumes "list_all is_update ops" and "sv_wal s0 \<noteq> None"
    and "sched_run (map (\<lambda>x. new_thread (update_atoms s0 x)) ops, s0) c"
  shows "sched_inv ops s0 c"
  using assms(3)
proof (induction rule: rtranclp_induct)
  case base
  show ?case using sched_inv_start [OF assms(1,2)] .
next
  case (step y z)
  then show ?case using sched_inv_step [OF assms(1,2)] by (cases y; cases z) blast
qed

text \<open>The requests whose handlers have finished.\<close>

definition answered :: "'x list \<Rightarrow> thread list \<Rightarrow> 'x list" where
  "answered ops ts = map fst (filter (\<lambda>(x, t). snd t = []) (zip ops ts))"

lemma mset_answered:
  assumes "length ts = length ops"
  shows "mset (answered ops ts) = ops_at ops (past 3 ts)"
proof -
  let ?ix = "filter (\<lambda>j. snd (ts ! j) = []) [0..<length ops]"
  have "zip ops ts = map (\<lambda>j. (ops ! j, ts ! j)) [0..<length ops]"
    using assms by (intro nth_equalityI) auto
  then have "answered ops ts = map ((!) ops) ?ix" by (simp add: answered_def filter_map comp_def)
  moreover have "mset_set (past 3 ts) = mset ?ix"
  proof -
    have "past 3 ts = set ?ix" using assms by (auto simp: past_def)
    then show ?thesis by (simp add: mset_set_set)
  qed
  ultimately show ?thesis by (simp add: ops_at_def)
qed

lemma all_finished:
  assumes "length ts = length ops" and "list_all (\<lambda>t. snd t = []) ts"
  shows "answered ops ts = ops" "k \<le> 3 \<Longrightarrow> past k ts = past 3 ts"
proof -
  have "filter (\<lambda>(x, t). snd t = []) (zip ops ts) = zip ops ts"
    using assms(2) by (auto intro!: filter_True simp: list_all_iff dest: set_zip_rightD)
  with assms(1) show "answered ops ts = ops" by (simp add: answered_def)
  show "k \<le> 3 \<Longrightarrow> past k ts = past 3 ts" using assms(2) by (auto simp: past_def list_all_iff)
qed

lemma entries_ok: "\<forall>x \<in> set xs. \<forall>q. entry_ok (mutation_entry q (mutation_of x)) \<Longrightarrow> list_all entry_ok (entries_from q (map mutation_of xs))"
  by (induction xs arbitrary: q) auto

lemma replay_permuted:
  assumes "list_all is_update zs" and "mset zs = mset xs"
  shows "fold replay_core (map mutation_of zs) (core s) = core (fold run_op xs s)"
proof -
  have "list_all is_update xs" using assms by (metis list_all_iff set_mset_mset)
  from run_updates_core [OF this, of s] fold_effect_mset [OF assms] replay_updates [OF assms(1)] show ?thesis
    by (simp add: core_def)
qed

text \<open>When all handlers are done, the state is the one they lead to one after the other.\<close>

lemma finished_core:
  assumes "list_all is_update ops" and "length ts = length ops" and all: "list_all (\<lambda>t. snd t = []) ts"
    and "mset xs = ops_at ops (past 1 ts)" and "sv_counter s' = fold count_effect xs (sv_counter s)"
    and "mset ys = ops_at ops (past 2 ts)" and "sv_clock s' = fold clock_effect ys (sv_clock s)"
  shows "core s' = core (fold run_op ops s)"
proof -
  have m: "mset xs = mset ops" "mset ys = mset ops"
    using all_finished(1) [OF assms(2) all] all_finished(2) [OF assms(2) all, of 1] all_finished(2) [OF assms(2) all, of 2]
      assms(4,6) mset_answered [OF assms(2)] by simp_all
  then have "list_all is_update xs" "list_all is_update ys" using assms(1) by (metis list_all_iff set_mset_mset)+
  note e = fold_effect_mset(1) [OF this(1) m(1)] fold_effect_mset(2) [OF this(2) m(2)]
  have "core s' = (fold count_effect ops (sv_counter s), fold clock_effect ops (sv_clock s))"
    by (simp add: core_def assms(5,7) e)
  then show ?thesis by (simp add: run_updates_core [OF assms(1)])
qed

section \<open>Properties\<close>

text \<open>C5: concurrent updates are neither lost nor counted twice: after a snapshot, any number of increments and decrements are
  handled at the same time, with their atomic actions interleaved in any order, and the node crashes at any point. What
  startup rebuilds is the state after exactly the handlers that had finished, as if they had run one after the
  other; and when all have finished, it is also the state the node was in.\<close>

theorem concurrent_updates_survive:
  assumes "service_ok s" and "sv_wal s = Some w" and "sv_store s = Some db"
    and "ev_io ev = all_ok" and "ev_set_ok ev" and "state_utf8 (persisted_state s)" and "s0 = Snapshot ev s"
    and "list_all is_update ops" and "\<forall>x \<in> set ops. \<forall>q. entry_ok (mutation_entry q (mutation_of x))"
    and "sched_run (map (\<lambda>x. new_thread (update_atoms s0 x)) ops, s0) (ts, s')" and "ev_io ev' = all_ok"
  shows "core (startup ev' True (sv_nodeID s) port shards (sv_store s') (Some (w_dir w)) (sv_files s')) =
      core (fold run_op (answered ops ts) s0) \<and>
    (list_all (\<lambda>t. snd t = []) ts \<longrightarrow> answered ops ts = ops \<and> core s' = core (fold run_op ops s0))"
proof -
  let ?n = "sv_nodeID s"
  obtain d where d: "marshal_state (persisted_state s) = Some d" by (simp add: marshal_state_def)
  obtain w1 fs1 where 1: "durable s0 = (?n, Some w1, fs1, Some (fmupd (stateKey ?n) d db))"
    "core s0 = core s" "w_seq w1 = 0" "w_dir w1 = w_dir w" "holds_log ?n w1 fs1 []"
    using Snapshot_durable [OF assms(2-5) d] assms(7) by blast
  have s0: "sv_wal s0 = Some w1" "sv_files s0 = fs1" "sv_nodeID s0 = ?n" "sv_store s0 = Some (fmupd (stateKey ?n) d db)"
    using 1(1) by (simp_all add: durable_def)
  have "sched_inv ops s0 (ts, s')" using sched_inv_run [OF assms(8) _ assms(10)] s0(1) by simp
  then obtain xs ys zs w2 fs2 where inv: "length ts = length ops"
    "mset xs = ops_at ops (past 1 ts)" "sv_counter s' = fold count_effect xs (sv_counter s0)"
    "mset ys = ops_at ops (past 2 ts)" "sv_clock s' = fold clock_effect ys (sv_clock s0)"
    "mset zs = ops_at ops (past 3 ts)" "durable s' = (?n, Some w2, fs2, sv_store s0)"
    "fold (append_call ?n) (map mutation_of zs) (w1, fs1) = (w2, fs2)"
    unfolding sched_inv_def prod.case s0 option.sel by metis
  let ?as = "answered ops ts"
  have zs: "mset zs = mset ?as" using inv(6) mset_answered [OF inv(1)] by simp
  have "set ?as \<subseteq> set ops" by (auto simp: answered_def dest: set_zip_leftD)
  with zs have sub: "set zs \<subseteq> set ops" by (metis set_mset_mset)
  then have up: "list_all is_update zs" and ok: "list_all entry_ok (entries_from 0 (map mutation_of zs))"
    using assms(8,9) by (auto simp: list_all_iff intro!: entries_ok [simplified list_all_iff])
  have log: "holds_log ?n w2 fs2 (entries_from 0 (map mutation_of zs))"
    using wal.run_holds [of ?n "(w1, fs1)" "[]" "map mutation_of zs"] 1 inv(8) ok by (simp add: logged_append_call)
  have "w_dir w2 = w_dir w" using fold_append_call_dir [of ?n "map mutation_of zs" "(w1, fs1)"] 1(4) inv(8) by simp
  then have "holds_log ?n \<lparr>w_dir = w_dir w, w_file = None, w_seq = 0\<rparr> fs2 (entries_from 0 (map mutation_of zs))"
    by (intro holds_log_restart [OF log]) simp_all
  from startup_core [OF assms(1) RS_Load_Save [OF assms(6) d] assms(11) this ok] inv(7) s0(4)
  have "core (startup ev' True ?n port shards (sv_store s') (Some (w_dir w)) (sv_files s')) =
      fold replay_core (map mutation_of zs) (core s0)"
    by (simp add: durable_def 1(2))
  also have "\<dots> = core (fold run_op ?as s0)" using up zs by (rule replay_permuted)
  finally show ?thesis
    using finished_core [OF assms(8) inv(1) _ inv(2-5)] all_finished(1) [OF inv(1)] by blast
qed

definition two_updates :: "(service_env \<times> service_op) list" where
  "two_updates = log_run @ log_run"

definition two_threads :: "thread list \<times> CounterService" where
  "two_threads = sched_exec [0, 1, 1, 0, 1]
     (map (\<lambda>x. new_thread (update_atoms (Snapshot sample_env log_node) x)) two_updates, Snapshot sample_env log_node)"

theorem concurrent_updates_survive_witness:
  "core (startup sample_env True ''n1'' 5000 1 (sv_store (snd two_threads)) (Some ''wal'') (sv_files (snd two_threads))) =
   core (fold run_op (answered two_updates (fst two_threads)) (Snapshot sample_env log_node))"
proof -
  let ?w = "\<lparr>w_dir = ''wal'', w_file = None, w_seq = 0\<rparr>"
  have n: "sv_nodeID log_node = ''n1''" "sv_wal log_node = Some ?w" "sv_store log_node = Some fmempty"
    by (simp_all add: log_node_def SetWAL_def SetStore_def NewCounterService_def)
  have env: "ev_io sample_env = all_ok" "ev_set_ok sample_env" by (simp_all add: sample_env_def)
  have m: "mutation_of x = sample_mutation \<and> is_update x" if "x \<in> set two_updates" for x
    using that by (auto simp: two_updates_def log_run_def mutation_of_def sample_env_def req_delta_5 normalizeName_def sample_mutation_def)
  then have ok: "list_all is_update two_updates" "\<forall>x \<in> set two_updates. \<forall>q. entry_ok (mutation_entry q (mutation_of x))"
    by (auto simp: list_all_iff sample_entry_ok)
  have "sched_run (map (\<lambda>x. new_thread (update_atoms (Snapshot sample_env log_node) x)) two_updates, Snapshot sample_env log_node)
      (fst two_threads, snd two_threads)"
    unfolding two_threads_def prod.collapse by (rule sched_exec_run) (simp add: two_updates_def log_run_def)
  from concurrent_updates_survive [OF _ n(2,3) env _ refl ok this env(1), of 5000 1] log_node_ok
  show ?thesis by (simp add: n)
qed

text \<open>C15: a snapshot loses the updates that are handled while it is being taken: when a complete increment is handled between the moment the
  snapshot has read the state and the moment it truncates the log, its log entry is discarded although the saved
  state does not contain it. The client has its answer, the node shows the new value, but after a crash startup rebuilds the state before the increment.\<close>

theorem snapshot_race_loses_update:
  assumes "service_ok s" and "sv_wal s = Some w" and "sv_store s = Some db"
    and "ev_io ev = all_ok" and "ev_set_ok ev" and "state_utf8 (persisted_state s)" and "ev_io ev' = all_ok"
    and "sched_exec [0, 0, 0, 0, 1, 1, 1, 0, 0]
      ([new_thread (snapshot_atoms ev s), new_thread (increment_atoms ev' req s)], s) = (ts, s')"
  shows "list_all (\<lambda>t. snd t = []) ts \<and> core s' = core (snd (Increment ev' req s)) \<and>
    core (startup ev True (sv_nodeID s) port shards (sv_store s') (Some (w_dir w)) (sv_files s')) = core s"
proof -
  let ?n = "sv_nodeID s" and ?name = "normalizeName (ir_CounterName req)" and ?d = "req_delta (ir_Delta req)"
  obtain d where d: "marshal_state (persisted_state s) = Some d" by (simp add: marshal_state_def)
  define s1 where "s1 = walAppend ev' ''increment'' ?name ?d fmempty fmempty fmempty
    (s\<lparr>sv_counter := PN_IncrementName ?name ?d (sv_counter s), sv_clock := VC_IncrementName ?name (sv_clock s)\<rparr>)"
  obtain r w1 fs1 where ap: "AppendCounter (ev_io ev') (ev_now ev') ?n ?name ''increment'' ?d fmempty fmempty fmempty w (sv_files s) = (r, w1, fs1)"
    by (metis prod_cases3)
  with AppendCounter_dir [of "ev_io ev'" "ev_now ev'" ?n ?name "''increment''" ?d fmempty fmempty fmempty w "sv_files s"]
  have s1: "sv_wal s1 = Some w1" "w_dir w1 = w_dir w" "sv_store s1 = Some db" "sv_nodeID s1 = ?n"
    using assms(2,3) by (simp_all add: s1_def walAppend_def)
  have inc: "snd (Increment ev' req s) = s1"
    using s1(1) by (simp add: Increment_def Let_def s1_def persist_def)
  have loc: "zero_state\<lparr>st_Tags := sv_tags s, st_Positive := PN_Positive (sv_counter s),
      st_Negative := PN_Negative (sv_counter s), st_Clock := VC_State (sv_clock s)\<rparr> = persisted_state s"
    by (simp add: zero_state_def persisted_state_def)
  define s2 where "s2 = s1\<lparr>sv_store := Some (fmupd (stateKey ?n) d db)\<rparr>"
  have save: "snapshot_save ev (persisted_state s) s1 = (True, s2)"
    using s1 d assms(5) by (simp add: snapshot_save_def RS_Save_def s2_def)
  have run: "ts = [(persisted_state s, []), (zero_state, [])]" "s' = snapshot_truncate ev s2"
    using assms(8) assms(2,3) save
    by (simp_all add: new_thread_def snapshot_atoms_def increment_atoms_def persist_atoms_def read_atoms_def Let_def
        loc s1_def [symmetric])
  obtain w2 fs2 where t: "Truncate all_ok ?n w1 (sv_files s2) = (Inr (), w2, fs2)" "w_dir w2 = w_dir w1"
    "holds_log ?n w2 fs2 []" using Truncate_holds by blast
  with run(2) s1 assms(4) have s': "sv_store s' = Some (fmupd (stateKey ?n) d db)" "sv_files s' = fs2" "core s' = core s1"
    by (simp_all add: snapshot_truncate_def s2_def core_def)
  have "holds_log ?n \<lparr>w_dir = w_dir w, w_file = None, w_seq = 0\<rparr> fs2 (entries_from 0 [])"
    using holds_log_restart [OF t(3)] t(2) s1(2) by simp
  from startup_core [OF assms(1) RS_Load_Save [OF assms(6) d] assms(4) this] s'
  have "core (startup ev True ?n port shards (sv_store s') (Some (w_dir w)) (sv_files s')) = core s" by simp
  with run(1) s'(3) inc show ?thesis by simp
qed

definition race_request :: IncrementRequest where
  "race_request = \<lparr>ir_Delta = 5, ir_ClientId = '''', ir_Timestamp = 0, ir_CounterName = ''likes''\<rparr>"

definition race_end :: "thread list \<times> CounterService" where
  "race_end = sched_exec [0, 0, 0, 0, 1, 1, 1, 0, 0]
     ([new_thread (snapshot_atoms sample_env log_node), new_thread (increment_atoms sample_env race_request log_node)], log_node)"

theorem snapshot_race_loses_update_witness:
  "core (snd race_end) = core (snd (Increment sample_env race_request log_node)) \<and>
   core (startup sample_env True ''n1'' 5000 1 (sv_store (snd race_end)) (Some ''wal'') (sv_files (snd race_end))) = core log_node"
proof -
  let ?w = "\<lparr>w_dir = ''wal'', w_file = None, w_seq = 0\<rparr>"
  have n: "sv_nodeID log_node = ''n1''" "sv_wal log_node = Some ?w" "sv_store log_node = Some fmempty"
    by (simp_all add: log_node_def SetWAL_def SetStore_def NewCounterService_def)
  have env: "ev_io sample_env = all_ok" "ev_set_ok sample_env" by (simp_all add: sample_env_def)
  from snapshot_race_loses_update [OF conjunct1 [OF log_node_ok] n(2,3) env conjunct2 [OF log_node_ok] env(1), of race_request "fst race_end" "snd race_end" 5000 1,
      unfolded prod.collapse race_end_def [symmetric]]
  show ?thesis by (simp add: n)
qed

text \<open>C16: without a log the store can be left behind: of two increments that are handled at the same time, the second to read the state may
  be the first to save it. Both clients have their answers and the node counts both, but after a restart startup loads a state without one of them.\<close>

theorem persist_race_loses_update:
  assumes "sv_wal s = None" and "sv_store s = Some db" and "ev_set_ok ev" and "ev_set_ok ev'"
    and "s1 = snd (Increment ev req s)" and "service_ok s1" and "state_utf8 (persisted_state s1)"
    and "sched_exec ([0, 0, 0, 0, 0, 0, 0] @ [1, 1, 1, 1, 1, 1, 1, 1] @ [0])
      ([new_thread (increment_atoms ev req s), new_thread (increment_atoms ev' req' s)], s) = (ts, s')"
  shows "list_all (\<lambda>t. snd t = []) ts \<and> core s' = core (snd (Increment ev' req' s1)) \<and>
    core (startup ev True (sv_nodeID s) port shards (sv_store s') None (sv_files s')) = core s1"
proof -
  let ?n = "sv_nodeID s"
  let ?inc = "\<lambda>req s. s\<lparr>sv_counter := PN_IncrementName (normalizeName (ir_CounterName req)) (req_delta (ir_Delta req)) (sv_counter s),
    sv_clock := VC_IncrementName (normalizeName (ir_CounterName req)) (sv_clock s)\<rparr>"
  define a b where "a = ?inc req s" and "b = ?inc req' a"
  have nowal: "walAppend e op k d p n c r = r" if "sv_wal r = None" for e op k d p n c r using that by (simp add: walAppend_def)
  have ab: "sv_wal a = None" "sv_store a = Some db" "sv_nodeID a = ?n" "sv_wal b = None" "sv_store b = Some db" "sv_nodeID b = ?n"
    using assms(1,2) by (simp_all add: a_def b_def)
  have loc: "zero_state\<lparr>st_Tags := sv_tags r, st_Positive := PN_Positive (sv_counter r),
      st_Negative := PN_Negative (sv_counter r), st_Clock := VC_State (sv_clock r)\<rparr> = persisted_state r" for r
    by (simp add: zero_state_def persisted_state_def)
  obtain da db' where d: "marshal_state (persisted_state a) = Some da" "marshal_state (persisted_state b) = Some db'"
    by (simp add: marshal_state_def)
  have "snd (Increment ev req s) = persist ev a" using assms(1) by (simp add: Increment_def Let_def nowal a_def)
  then have s1: "s1 = a\<lparr>sv_store := Some (fmupd (stateKey ?n) da db)\<rparr>"
    using assms(3,5) d ab by (simp add: persist_def RS_Save_def)
  have frame: "persisted_state s1 = persisted_state a" "core s1 = core a" "sv_nodeID s1 = ?n"
    by (simp_all add: s1 persisted_state_def core_def ab)
  have inc2: "core (snd (Increment ev' req' s1)) = core b"
    using ab by (simp add: Increment_def Let_def core_def s1 b_def)
  have 1: "sched_exec ([0, 0, 0, 0, 0, 0, 0] @ is)
      ([new_thread (increment_atoms ev req s), new_thread (increment_atoms ev' req' s)], s) =
      sched_exec is ([(persisted_state a, [A_save ev]), new_thread (increment_atoms ev' req' s)], a)" for "is"
    using assms(1,2) ab by (simp add: new_thread_def increment_atoms_def persist_atoms_def read_atoms_def Let_def nowal
        loc a_def [symmetric])
  have 2: "sched_exec ([1, 1, 1, 1, 1, 1, 1, 1] @ is) ([t0, new_thread (increment_atoms ev' req' s)], a) =
      sched_exec is ([t0, (persisted_state b, [])], b\<lparr>sv_store := Some (fmupd (stateKey ?n) db' db)\<rparr>)" for t0 "is"
    using assms(1,2,4) ab d by (simp add: new_thread_def increment_atoms_def persist_atoms_def read_atoms_def Let_def nowal
        loc b_def [symmetric] snapshot_save_def RS_Save_def)
  from assms(8) have "sched_exec [0] ([(persisted_state a, [A_save ev]), (persisted_state b, [])],
      b\<lparr>sv_store := Some (fmupd (stateKey ?n) db' db)\<rparr>) = (ts, s')" unfolding 1 2 .
  then have run: "ts = [(persisted_state a, []), (persisted_state b, [])]" "s' = b\<lparr>sv_store := Some (fmupd (stateKey ?n) da db)\<rparr>"
    using assms(3) ab d by (simp_all add: snapshot_save_def RS_Save_def)
  have "RS_Load True ?n (fmupd (stateKey ?n) da db) = Inr (Some (persisted_state s1))"
    using RS_Load_Save [of "persisted_state s1" da ?n db] assms(7) d(1) frame(1) by simp
  then have "core (startup ev True ?n port shards (sv_store s') None (sv_files s')) = core s1"
    using core_Restore_fresh [OF assms(6)] frame(3) run(2)
    by (simp add: startup_def Let_def core_def SetStore_def SetShardCount_def NewCounterService_def)
  moreover have "core s' = core b" by (simp add: run(2) core_def)
  ultimately show ?thesis using run(1) inc2 by simp
qed

definition store_node :: CounterService where
  "store_node = SetStore fmempty (NewCounterService ''n1'' 5000 fmempty)"

definition persist_race_end :: "thread list \<times> CounterService" where
  "persist_race_end = sched_exec ([0, 0, 0, 0, 0, 0, 0] @ [1, 1, 1, 1, 1, 1, 1, 1] @ [0])
     ([new_thread (increment_atoms sample_env race_request store_node),
       new_thread (increment_atoms sample_env race_request store_node)], store_node)"

theorem persist_race_loses_update_witness:
  "core (startup sample_env True ''n1'' 5000 1 (sv_store (snd persist_race_end)) None (sv_files (snd persist_race_end))) =
   core (snd (Increment sample_env race_request store_node))"
proof -
  have n: "sv_nodeID store_node = ''n1''" "sv_wal store_node = None" "sv_store store_node = Some fmempty"
    by (simp_all add: store_node_def SetStore_def NewCounterService_def)
  have env: "ev_set_ok sample_env" by (simp add: sample_env_def)
  have i: "sv_counter (snd (Increment sample_env race_request store_node)) = PN_IncrementName ''likes'' 5 (NewPNCounter ''n1'')"
    "sv_clock (snd (Increment sample_env race_request store_node)) = VC_IncrementName ''likes'' (NewVectorClock ''n1'')"
    "sv_nodeID (snd (Increment sample_env race_request store_node)) = ''n1''"
    "sv_tags (snd (Increment sample_env race_request store_node)) = fmempty"
    by (simp_all add: Increment_def Let_def race_request_def req_delta_5 normalizeName_def store_node_def SetStore_def NewCounterService_def)
  have "pn_positive_counts (PN_IncrementName ''likes'' 5 (NewPNCounter ''n1''))"
    and "counts_positive (clock (VC_IncrementName ''likes'' (NewVectorClock ''n1'')))"
    by code_simp+
  then have ok: "service_ok (snd (Increment sample_env race_request store_node))"
    by (simp add: service_ok_def i pn_defs vc_defs)
  have utf8: "state_utf8 (persisted_state (snd (Increment sample_env race_request store_node)))"
    by (simp add: state_utf8_def persisted_state_def i pn_defs vc_defs counterKey_def keys_ok_upd valid_utf8_ascii)
  from persist_race_loses_update [OF n(2,3) env env refl ok utf8, of race_request "fst persist_race_end" "snd persist_race_end" 5000 1,
      unfolded prod.collapse persist_race_end_def [symmetric]]
  show ?thesis by (simp only: n)
qed

end
