(* ===== verification/Read_Order.thy ===== *)
theory Read_Order
  imports Gossip Interleaving
begin

text \<open>
  Gossip while handlers run. A handler changes the counts before it ticks the clock, each under a lock of its own, and whoever sends the
  state reads counts and clock under those locks one after the other. The replies of the service read the clock first;
  the engine reads the counts first. The theory shows that the first order is safe under every schedule, and what the
  second order does.
\<close>

section \<open>Readers\<close>

text \<open>The reads of \<open>buildDeltaReply\<close> and \<open>buildFullReply\<close>, and those of \<open>gossipToPeer\<close>.\<close>

definition reply_reads :: "atom list" where
  "reply_reads = [A_read_clock, A_read_positive, A_read_negative]"

definition engine_reads :: "atom list" where
  "engine_reads = [A_read_positive, A_read_negative, A_read_clock]"

text \<open>The service as a reader has seen it.\<close>

definition seen :: "CounterState \<Rightarrow> CounterService \<Rightarrow> CounterService" where
  "seen loc s = s\<lparr>sv_counter := (sv_counter s)\<lparr>positive := st_Positive loc, negative := st_Negative loc\<rparr>,
     sv_clock := (sv_clock s)\<lparr>clock := st_Clock loc\<rparr>\<rparr>"

lemma uninterrupted_reads:
  "seen (fst (run_thread engine_reads (loc, s))) s = s" "seen (fst (run_thread reply_reads (loc, s))) s = s"
  "snd (run_thread engine_reads (loc, s)) = s" "snd (run_thread reply_reads (loc, s)) = s"
  by (simp_all add: seen_def engine_reads_def reply_reads_def pn_defs vc_defs)

fun is_read :: "atom \<Rightarrow> bool" where
  "is_read A_read_tags \<longleftrightarrow> True"
| "is_read A_read_positive \<longleftrightarrow> True"
| "is_read A_read_negative \<longleftrightarrow> True"
| "is_read A_read_clock \<longleftrightarrow> True"
| "is_read _ \<longleftrightarrow> False"

lemma exec_read: "is_read a \<Longrightarrow> exec_atom a (loc, s) = (True, fst (snd (exec_atom a (loc, s))), s)"
  by (cases a) auto

text \<open>A run beside a reader splits at its reads.\<close>

lemma beside_reader:
  assumes "sched_step ((loc, a # todo) # ts, s) (t # ts', s')" and "is_read a"
  shows "t = (loc, a # todo) \<and> sched_step (ts, s) (ts', s') \<or> t = (fst (snd (exec_atom a (loc, s))), todo) \<and> ts' = ts \<and> s' = s"
proof -
  obtain i l b rest ok l' where i: "i < length ((loc, a # todo) # ts)" "((loc, a # todo) # ts) ! i = (l, b # rest)"
    "exec_atom b (l, s) = (ok, l', s')" "t # ts' = ((loc, a # todo) # ts)[i := (l', if ok then rest else [])]"
    using assms(1) by (auto elim: sched_stepE)
  show ?thesis
  proof (cases i)
    case 0
    with i exec_read [OF assms(2), of loc s] show ?thesis by auto
  next
    case (Suc j)
    with i have "sched_step (ts, s) (ts[j := (l', if ok then rest else [])], s')" by (intro sched_step.intros) auto
    with i(4) Suc show ?thesis by simp
  qed
qed

lemma step_length: "sched_step (ts, s) (ts', s') \<Longrightarrow> length ts' = length ts"
  by (auto elim: sched_stepE)

lemma run_to_read:
  assumes "sched_run c c'" and "c = ((loc, a # todo) # ts, s)" and "c' = ((l, []) # ts', s')" and "is_read a"
  shows "\<exists>ts1 s1. sched_run (ts, s) (ts1, s1) \<and> sched_run ((fst (snd (exec_atom a (loc, s1))), todo) # ts1, s1) c'"
  using assms(1,2)
proof (induction arbitrary: ts s rule: converse_rtranclp_induct)
  case base
  with assms(3) show ?case by simp
next
  case (step y z)
  obtain t ts2 s2 where z: "z = (t # ts2, s2)"
    using step_length step.hyps(1) step.prems by (metis length_Suc_conv prod.collapse length_Cons)
  from beside_reader [OF step.hyps(1) [unfolded z step.prems] assms(4)] show ?case
  proof (elim disjE conjE)
    assume "t = (loc, a # todo)" and s: "sched_step (ts, s) (ts2, s2)"
    with step.IH z obtain ts1 s1 where
      "sched_run (ts2, s2) (ts1, s1)" "sched_run ((fst (snd (exec_atom a (loc, s1))), todo) # ts1, s1) c'" by blast
    with s show ?thesis by (meson converse_rtranclp_into_rtranclp)
  next
    assume "t = (fst (snd (exec_atom a (loc, s))), todo)" "ts2 = ts" "s2 = s"
    with step.hyps(2) z show ?thesis by blast
  qed
qed

lemma finished_thread:
  assumes "sched_run ((loc, []) # ts, s) ((l, []) # ts', s')"
  shows "l = loc"
proof -
  have "\<exists>ts s. c' = ((loc, []) # ts, s)" if "sched_run c c'" "c = ((loc, []) # ts, s)" for c c' ts s
    using that
  proof (induction rule: rtranclp_induct)
    case (step y z)
    then obtain ts1 s1 where "y = ((loc, []) # ts1, s1)" by blast
    with step.hyps(2) show ?case by (cases z) (auto elim!: sched_stepE simp: nth_Cons list_update.simps split: nat.splits)
  qed blast
  with assms show ?thesis by fastforce
qed

section \<open>Updates beside a reader\<close>

lemma past_mono:
  assumes "list_all is_update ops" and "sv_wal s0 \<noteq> None" and "sched_run c c'" and "on_track ops s0 (fst c)"
  shows "on_track ops s0 (fst c') \<and> past k (fst c) \<subseteq> past k (fst c')"
  using assms(3,4)
proof (induction rule: rtranclp_induct)
  case (step y z)
  obtain ts s ts' s' where yz: "y = (ts, s)" "z = (ts', s')" by (cases y, cases z)
  have track: "on_track ops s0 ts" using step.IH step.prems yz by simp
  obtain i k' where "on_track ops s0 ts'" "\<And>l. past l ts' = (if l = Suc k' then insert i (past l ts) else past l ts)"
    using sched_step_update [OF assms(1,2) track step.hyps(2) [unfolded yz]] by blast
  with step.IH step.prems yz show ?case by auto
qed simp

lemma past_anti: "k \<le> l \<Longrightarrow> past l ts \<subseteq> past k ts"
  by (auto simp: past_def)

lemma ops_at_mono: "D \<subseteq> E \<Longrightarrow> finite E \<Longrightarrow> ops_at ops D \<subseteq># ops_at ops E"
  by (simp add: ops_at_def image_mset_subseteq_mono subset_imp_msubset_mset_set)

lemma ops_at_all: "length ts = length ops \<Longrightarrow> ops_at ops (past k ts) \<subseteq># mset ops"
proof -
  assume "length ts = length ops"
  then have "past k ts \<subseteq> {0..<length ops}" by (auto simp: past_def)
  then have "ops_at ops (past k ts) \<subseteq># ops_at ops {0..<length ops}" by (rule ops_at_mono) simp
  also have "ops_at ops {0..<length ops} = mset ops"
    by (simp add: ops_at_def flip: mset_upt mset_map) (simp add: map_nth)
  finally show ?thesis .
qed

lemma build_update_same_clock: "build_update now False (clock (sv_clock s)) g s = None"
proof -
  have "\<not> newer_key c c k" for c k by (simp add: newer_key_def gget_def split: option.split)
  then have "fmfilter (newer_key c c) c = fmempty" for c by (intro fmap_ext) simp
  then show ?thesis by (simp add: build_update_def Let_def DeltaFrom_filter VC_State_def cong del: fmfilter_cong)
qed

lemma nothing_to_send:
  assumes "clock_at (ge_lastSync g) address = clock (sv_clock s)" and "\<not> full_round address g s"
  shows "fst (gossipToPeer ev net others address g s) \<in> {Breaker_open, Nothing_new}"
proof -
  obtain b g1 where b: "breaker address g = (b, g1)" by fastforce
  show ?thesis
  proof (cases "Allow (ev_now ev) b")
    case True
    from gossipToPeer_eq [OF b True, of net others s] assms show ?thesis by (simp add: build_update_same_clock)
  next
    case False
    with b show ?thesis by (simp add: gossipToPeer_def)
  qed
qed

section \<open>Properties\<close>

text \<open>C6: replies are consistent: while a reply to a gossip message is being built, any number of increments and decrements may be in any
  stage of their handlers; the counts in the reply contain every update that its vector clock contains, so that a peer which has the
  versions of the clock also has the counts.\<close>

theorem reply_reads_consistent:
  assumes "list_all is_update ops" and "sv_wal s0 \<noteq> None"
    and "sched_run (new_thread reply_reads # map (\<lambda>x. new_thread (update_atoms s0 x)) ops, s0) ((loc, []) # ts, s)"
  shows "\<exists>xs ys zs. mset xs \<subseteq># mset ys \<and> mset ys \<subseteq># mset zs \<and> mset zs \<subseteq># mset ops \<and>
    st_Clock loc = clock (fold clock_effect xs (sv_clock s0)) \<and>
    st_Positive loc = positive (fold count_effect ys (sv_counter s0)) \<and>
    st_Negative loc = negative (fold count_effect zs (sv_counter s0))"
proof -
  let ?ts = "map (\<lambda>x. new_thread (update_atoms s0 x)) ops"
  obtain ts1 s1 where 1: "sched_run (?ts, s0) (ts1, s1)"
    "sched_run ((zero_state\<lparr>st_Clock := VC_State (sv_clock s1)\<rparr>, [A_read_positive, A_read_negative]) # ts1, s1) ((loc, []) # ts, s)"
    using run_to_read [OF assms(3) _ refl, of zero_state A_read_clock] by (auto simp: new_thread_def reply_reads_def)
  obtain ts2 s2 where 2: "sched_run (ts1, s1) (ts2, s2)"
    "sched_run ((zero_state\<lparr>st_Clock := VC_State (sv_clock s1), st_Positive := PN_Positive (sv_counter s2)\<rparr>, [A_read_negative]) # ts2, s2)
       ((loc, []) # ts, s)"
    using run_to_read [OF 1(2) refl refl] by auto
  obtain ts3 s3 where 3: "sched_run (ts2, s2) (ts3, s3)"
    "sched_run ((zero_state\<lparr>st_Clock := VC_State (sv_clock s1), st_Positive := PN_Positive (sv_counter s2),
       st_Negative := PN_Negative (sv_counter s3)\<rparr>, []) # ts3, s3) ((loc, []) # ts, s)"
    using run_to_read [OF 2(2) refl refl] by auto
  have run: "sched_run (?ts, s0) (ts2, s2)" "sched_run (?ts, s0) (ts3, s3)" using 1(1) 2(1) 3(1) by (meson rtranclp_trans)+
  note inv = sched_inv_run [OF assms(1,2)]
  obtain xs where xs: "mset xs = ops_at ops (past 2 ts1)" "sv_clock s1 = fold clock_effect xs (sv_clock s0)"
    using inv [OF 1(1)] unfolding sched_inv_def by auto
  obtain ys where ys: "mset ys = ops_at ops (past 1 ts2)" "sv_counter s2 = fold count_effect ys (sv_counter s0)"
    using inv [OF run(1)] unfolding sched_inv_def by auto
  obtain zs where zs: "mset zs = ops_at ops (past 1 ts3)" "sv_counter s3 = fold count_effect zs (sv_counter s0)" "length ts3 = length ops"
    using inv [OF run(2)] unfolding sched_inv_def by auto
  have track: "on_track ops s0 ts1" "on_track ops s0 ts2"
    using inv [OF 1(1)] inv [OF run(1)] by (simp_all add: sched_inv_def on_track_def)
  have "past 2 ts1 \<subseteq> past 1 ts2" "past 1 ts2 \<subseteq> past 1 ts3"
    using past_mono [OF assms(1,2) 2(1), of 1] past_mono [OF assms(1,2) 3(1), of 1] track past_anti [of 1 2 ts1] by auto
  then have sub: "mset xs \<subseteq># mset ys" "mset ys \<subseteq># mset zs" "mset zs \<subseteq># mset ops"
    using xs(1) ys(1) zs(1,3) ops_at_all by (auto intro: ops_at_mono)
  have "loc = zero_state\<lparr>st_Clock := VC_State (sv_clock s1), st_Positive := PN_Positive (sv_counter s2),
       st_Negative := PN_Negative (sv_counter s3)\<rparr>"
    using finished_thread [OF 3(2)] by simp
  with sub xs(2) ys(2) zs(2) show ?thesis by (intro exI [of _ xs] exI [of _ ys] exI [of _ zs]) (simp add: pn_defs vc_defs)
qed

definition reply_race_end :: "thread list \<times> CounterService" where
  "reply_race_end = sched_exec [1, 0, 1, 2, 0, 0, 2]
     (new_thread reply_reads # map (\<lambda>x. new_thread (update_atoms log_node x)) two_updates, log_node)"

lemma reply_race_reader: "fst reply_race_end = (fst (fst reply_race_end ! 0), []) # tl (fst reply_race_end)"
  by code_simp

theorem reply_reads_consistent_witness:
  "\<exists>xs ys zs. mset xs \<subseteq># mset ys \<and> mset ys \<subseteq># mset zs \<and> mset zs \<subseteq># mset two_updates \<and>
    st_Clock (fst (fst reply_race_end ! 0)) = clock (fold clock_effect xs (sv_clock log_node)) \<and>
    st_Positive (fst (fst reply_race_end ! 0)) = positive (fold count_effect ys (sv_counter log_node)) \<and>
    st_Negative (fst (fst reply_race_end ! 0)) = negative (fold count_effect zs (sv_counter log_node))"
proof (rule reply_reads_consistent)
  show "list_all is_update two_updates" by (simp add: two_updates_def log_run_def sample_env_def)
  show "sv_wal log_node \<noteq> None" by (simp add: log_node_def SetWAL_def SetStore_def NewCounterService_def)
  have "sched_run (new_thread reply_reads # map (\<lambda>x. new_thread (update_atoms log_node x)) two_updates, log_node) reply_race_end"
    unfolding reply_race_end_def by (rule sched_exec_run) (simp add: two_updates_def log_run_def)
  then show "sched_run (new_thread reply_reads # map (\<lambda>x. new_thread (update_atoms log_node x)) two_updates, log_node)
      ((fst (fst reply_race_end ! 0), []) # tl (fst reply_race_end), snd reply_race_end)"
    using reply_race_reader by (metis prod.collapse)
qed

text \<open>C7: the updates of the engine are not: when an increment is handled between the engine's reads of the counts and its read of the clock, the
  update carries the new version with the old count. After the exchange the peer lacks the increment, and the engine believes that the peer has it:
  as long as the engine sends deltas it finds nothing to send, so that the peer reports the old value until a round with the full state.\<close>

theorem engine_read_race:
  assumes "sched_exec [0, 0, 1, 1, 1, 0] ([new_thread engine_reads, new_thread (increment_atoms ev req A)], A) = ([(loc, []), t], A')"
    and "build_update now full base g (seen loc A') = Some u"
    and "deliver ev' (net u) id address b (st_Clock loc) g1 A' = (Synced, g', A'')"
    and "B' = snd (SyncState_recv evB u B)"
    and "k = counterKey (normalizeName (ir_CounterName req)) (pn_nodeID (sv_counter A))"
  shows "gget (positive (sv_counter A')) k = gget (positive (sv_counter A)) k + req_delta (ir_Delta req) \<and>
    su_VectorClock u = clock (sv_clock A') \<and>
    gget (positive (sv_counter B')) k \<in> {gget (positive (sv_counter B)) k, gget (positive (sv_counter A)) k} \<and>
    (\<not> full_round address g' A'' \<longrightarrow> fst (gossipToPeer ev'' net' others address g' A'') \<in> {Breaker_open, Nothing_new})"
proof -
  let ?name = "normalizeName (ir_CounterName req)"
  have run: "sv_counter A' = PN_IncrementName ?name (req_delta (ir_Delta req)) (sv_counter A)"
    "loc = zero_state\<lparr>st_Positive := positive (sv_counter A), st_Negative := negative (sv_counter A), st_Clock := clock (sv_clock A')\<rparr>"
    using assms(1) by (auto simp: new_thread_def engine_reads_def increment_atoms_def Let_def PN_Positive_def PN_Negative_def VC_State_def)
  have cnt: "gget (positive (sv_counter A')) k = gget (positive (sv_counter A)) k + req_delta (ir_Delta req)"
    using assms(5) by (simp add: run(1) PN_IncrementName_def Let_def)
  have u: "su_Type u \<noteq> HEARTBEAT" "su_VectorClock u = clock (sv_clock A')"
    "fmlookup (su_PositiveState u) k \<in> {None, fmlookup (positive (sv_counter A)) k}"
    using assms(2) run(2) by (auto simp: build_update_def Let_def seen_def PN_Positive_def PN_Negative_def VC_State_def DeltaFrom_filter
        split: if_splits cong del: fmfilter_cong)
  have "positive (sv_counter B') = merge_max (positive (sv_counter B)) (su_PositiveState u)"
    using arg_cong [OF state_of_recv [OF u(1), of evB B], of "\<lambda>x. fst (fst x)"] assms(4)
    by (simp add: state_of_def crdt_merge_def update_state_def)
  then have peer: "gget (positive (sv_counter B')) k \<in> {gget (positive (sv_counter B)) k, gget (positive (sv_counter A)) k}"
    using u(3) by (auto simp: gget_def fmlookup_merge_max split: option.splits)
  obtain r g2 where r: "A'' = mergeRemoteState ev' r g2 A'" "clock_at (ge_lastSync g') address = merge_max (clock (sv_clock A')) (su_VectorClock r)"
    using deliver_Synced [OF assms(3)] run(2) by auto
  have "clock (sv_clock A'') = merge_max (clock (sv_clock A')) (su_VectorClock r)"
    using arg_cong [OF state_of_mergeRemoteState [of ev' r g2 A'], of snd] r(1) by (simp add: state_of_def crdt_merge_def update_state_def)
  then have "fst (gossipToPeer ev'' net' others address g' A'') \<in> {Breaker_open, Nothing_new}" if "\<not> full_round address g' A''"
    using that r(2) by (intro nothing_to_send) simp_all
  with cnt u(2) peer show ?thesis by blast
qed

definition race_A :: CounterService where
  "race_A = NewCounterService ''a'' 5000 fmempty"

definition race_B :: CounterService where
  "race_B = NewCounterService ''b'' 5001 fmempty"

definition race_reads :: "thread list \<times> CounterService" where
  "race_reads = sched_exec [0, 0, 1, 1, 1, 0]
     ([new_thread engine_reads, new_thread (increment_atoms sample_env race_request race_A)], race_A)"

definition race_update :: StateUpdate where
  "race_update = the (build_update 7 False fmempty (NewGossipEngine ''a'' 0) (seen (fst (fst race_reads ! 0)) (snd race_reads)))"

definition race_net :: peer_net where
  "race_net = \<lparr>net_dial = \<lambda>_. True, net_stream = \<lambda>_. True, net_send = \<lambda>_. True,
     net_recv = \<lambda>_. fst (SyncState_recv sample_env race_update race_B), net_failed_at = 9\<rparr>"

definition race_round :: "sync_result \<times> GossipEngine \<times> CounterService" where
  "race_round = deliver sample_env race_net id ''y'' (newCircuitBreaker 3 30) (st_Clock (fst (fst race_reads ! 0)))
     (NewGossipEngine ''a'' 0) (snd race_reads)"

lemma race_facts:
  "fst race_reads = [(fst (fst race_reads ! 0), []), fst race_reads ! 1]"
  "build_update 7 False fmempty (NewGossipEngine ''a'' 0) (seen (fst (fst race_reads ! 0)) (snd race_reads)) \<noteq> None"
  "fst race_round = Synced" "\<not> full_round ''y'' (fst (snd race_round)) (snd (snd race_round))"
  by code_simp+

theorem engine_read_race_witness:
  "gget (positive (sv_counter (snd race_reads))) ''likes:a'' = 5 \<and>
   gget (positive (sv_counter (snd (SyncState_recv sample_env race_update race_B)))) ''likes:a'' = 0 \<and>
   fst (gossipToPeer sample_env (\<lambda>_. race_net) id ''y'' (fst (snd race_round)) (snd (snd race_round))) \<in> {Breaker_open, Nothing_new}"
proof -
  let ?g = "NewGossipEngine ''a'' 0"
  have run: "sched_exec [0, 0, 1, 1, 1, 0] ([new_thread engine_reads, new_thread (increment_atoms sample_env race_request race_A)], race_A) =
      ([(fst (fst race_reads ! 0), []), fst race_reads ! 1], snd race_reads)"
    using race_facts(1) by (metis prod.collapse race_reads_def)
  have u: "build_update 7 False fmempty ?g (seen (fst (fst race_reads ! 0)) (snd race_reads)) = Some race_update"
    using race_facts(2) by (auto simp: race_update_def)
  have d: "deliver sample_env ((\<lambda>_. race_net) race_update) id ''y'' (newCircuitBreaker 3 30) (st_Clock (fst (fst race_reads ! 0))) ?g (snd race_reads) =
      (Synced, fst (snd race_round), snd (snd race_round))"
    using race_facts(3) by (metis prod.collapse race_round_def)
  have "counterKey (normalizeName (ir_CounterName race_request)) (pn_nodeID (sv_counter race_A)) = ''likes:a''"
    "gget (positive (sv_counter race_A)) ''likes:a'' = 0" "gget (positive (sv_counter race_B)) ''likes:a'' = 0"
    "req_delta (ir_Delta race_request) = 5"
    by code_simp+
  with engine_read_race [OF run u d refl refl, of sample_env race_B sample_env "\<lambda>_. race_net" id] race_facts(4) show ?thesis by simp
qed

end
