(* ===== verification/Swim.thy ===== *)
theory Swim
  imports Membership
begin

text \<open>
  \<open>internal/cluster/swim.go\<close> (the SWIM failure detector) and \<open>internal/cluster/discovery.go\<close> (the table of
  known node addresses).

  A network exchange is an argument of the round: \<open>dial addr\<close> says whether the connection to \<open>addr\<close>
  comes up in time, \<open>SwimPing\<close> and \<open>SwimPingReq\<close> give the \<open>Alive\<close> field of the reply, or \<open>None\<close> for an
  RPC error or timeout. The log calls have no effect on the state and are left out.
\<close>

section \<open>Configuration\<close>

record SWIMConfig =
  sw_NodeID :: string
  sw_APIKey :: string
  sw_Compression :: bool
  sw_ProtocolPeriod :: duration
  sw_ProbeTimeout :: duration
  sw_SuspectToDeadThreshold :: int

definition NewSWIMDetector :: "SWIMConfig \<Rightarrow> SWIMConfig" where
  "NewSWIMDetector cfg =
     (let cfg = (if sw_ProtocolPeriod cfg \<le> 0 then cfg\<lparr>sw_ProtocolPeriod := second\<rparr> else cfg);
          cfg = (if sw_ProbeTimeout cfg \<le> 0 then cfg\<lparr>sw_ProbeTimeout := 2 * second\<rparr> else cfg);
          cfg = (if sw_SuspectToDeadThreshold cfg \<le> 0 then cfg\<lparr>sw_SuspectToDeadThreshold := 3\<rparr> else cfg)
      in cfg)"

section \<open>Probes\<close>

text \<open>The network as one round of probing sees it.\<close>

record probe_net =
  dial_ok :: "string \<Rightarrow> bool"
  ping_reply :: "string \<Rightarrow> string \<Rightarrow> bool option"
  ping_req_reply :: "string \<Rightarrow> string \<Rightarrow> bool option"

definition probe :: "probe_net \<Rightarrow> Member \<Rightarrow> bool" where
  "probe net member =
     (if \<not> dial_ok net (m_Address member) then False
      else (case ping_reply net (m_Address member) (m_ID member) of None \<Rightarrow> False | Some alive \<Rightarrow> alive))"

definition indirectProbe :: "(Member list \<Rightarrow> Member list) \<Rightarrow> probe_net \<Rightarrow> Member \<Rightarrow> Membership \<Rightarrow> bool" where
  "indirectProbe shuffle net target M =
     (case GetRandomPeer shuffle M of
        None \<Rightarrow> False
      | Some proxy \<Rightarrow>
          if m_ID proxy = m_ID target then False
          else if \<not> dial_ok net (m_Address proxy) then False
          else (case ping_req_reply net (m_Address proxy) (m_ID target) of None \<Rightarrow> False | Some alive \<Rightarrow> alive))"

text \<open>The probes take time: \<open>M'\<close> is the member table when they have failed, \<open>M\<close> the one the target was
  drawn from; other goroutines may have changed it in between.\<close>

definition round_failed :: "SWIMConfig \<Rightarrow> string \<Rightarrow> Membership \<Rightarrow> Membership" where
  "round_failed cfg target_ID M =
     (case GetMember target_ID M of
        None \<Rightarrow> M
      | Some member \<Rightarrow>
          (case m_Status member of
             StatusAlive \<Rightarrow> MarkSuspect target_ID M
           | StatusSuspect \<Rightarrow>
               if sw_SuspectToDeadThreshold cfg \<le> m_SuspectCount member + 1 then MarkDead target_ID M
               else MarkSuspect target_ID M
           | _ \<Rightarrow> M))"

definition swim_round ::
  "(Member list \<Rightarrow> Member list) \<Rightarrow> (Member list \<Rightarrow> Member list) \<Rightarrow> go_time \<Rightarrow> probe_net \<Rightarrow> SWIMConfig
   \<Rightarrow> (Membership \<Rightarrow> Membership) \<Rightarrow> Membership \<Rightarrow> Membership" where
  "swim_round shuffle shuffle' now net cfg others M =
     (case GetRandomProbeTarget shuffle M of
        None \<Rightarrow> M
      | Some target \<Rightarrow>
          (let M' = others M
           in if probe net target then UpdateHeartbeat now (m_ID target) M'
              else if indirectProbe shuffle' net target M' then UpdateHeartbeat now (m_ID target) M'
              else round_failed cfg (m_ID target) M'))"

section \<open>Discovery\<close>

record Discovery =
  d_nodes :: "string gomap"
  d_seedNodes :: "string list"

definition NewDiscovery :: "string list \<Rightarrow> Discovery" where
  "NewDiscovery seedNodes = \<lparr>d_nodes = fmempty, d_seedNodes = seedNodes\<rparr>"

definition GetNodeAddress :: "string \<Rightarrow> Discovery \<Rightarrow> string option" where
  "GetNodeAddress nodeID d = fmlookup (d_nodes d) nodeID"

definition GetAllNodes :: "Discovery \<Rightarrow> string gomap" where
  "GetAllNodes d = go_range fmupd (d_nodes d) fmempty"

definition AddNode :: "string \<Rightarrow> string \<Rightarrow> Discovery \<Rightarrow> Discovery" where
  "AddNode nodeID address d = d\<lparr>d_nodes := fmupd nodeID address (d_nodes d)\<rparr>"

definition SeedNodes :: "Discovery \<Rightarrow> string list" where
  "SeedNodes d = d_seedNodes d"

interpretation copy_nodes: keywise_loop fmupd "\<lambda>_ v _. Some v"
  by unfold_locales simp

lemma GetAllNodes_eq [simp]: "GetAllNodes d = d_nodes d"
  by (rule fmap_ext) (simp add: GetAllNodes_def copy_nodes.range_lookup split: option.split)

section \<open>A run of failed rounds\<close>

text \<open>\<open>n\<close> failed rounds in a row on the same member, with nothing else touching it.\<close>

definition failed_rounds :: "SWIMConfig \<Rightarrow> string \<Rightarrow> nat \<Rightarrow> Membership \<Rightarrow> Membership" where
  "failed_rounds cfg i n = (round_failed cfg i) ^^ n"

lemma failed_rounds_0 [simp]: "failed_rounds cfg i 0 M = M"
  by (simp add: failed_rounds_def)

lemma failed_rounds_Suc: "failed_rounds cfg i (Suc n) M = failed_rounds cfg i n (round_failed cfg i M)"
  by (simp only: failed_rounds_def funpow_Suc_right comp_apply)

lemma lookup_round_failed:
  assumes "fmlookup (members M) i = Some m"
  shows "fmlookup (members (round_failed cfg i M)) i =
    Some (case m_Status m of
        StatusAlive \<Rightarrow> m\<lparr>m_Status := StatusSuspect, m_IsActive := False, m_SuspectCount := m_SuspectCount m + 1\<rparr>
      | StatusSuspect \<Rightarrow>
          if sw_SuspectToDeadThreshold cfg \<le> m_SuspectCount m + 1
          then m\<lparr>m_Status := StatusDead, m_IsActive := False\<rparr>
          else m\<lparr>m_Status := StatusSuspect, m_IsActive := False, m_SuspectCount := m_SuspectCount m + 1\<rparr>
      | _ \<Rightarrow> m)"
  using assms
  by (auto simp: round_failed_def GetMember_def MarkSuspect_def MarkDead_def setStatus_def split: Status.split)

lemma failed_rounds_dead:
  "fmlookup (members M) i = Some m \<Longrightarrow> m_Status m = StatusDead \<Longrightarrow>
   fmlookup (members (failed_rounds cfg i n M)) i = Some m"
  by (induction n arbitrary: M) (simp_all add: failed_rounds_Suc lookup_round_failed)

text \<open>A suspect dies once its count reaches the threshold, and not before.\<close>

lemma failed_rounds_suspect:
  assumes "fmlookup (members M) i = Some m" and "m_Status m = StatusSuspect"
  shows "\<exists>m'. fmlookup (members (failed_rounds cfg i n M)) i = Some m' \<and>
    m_Status m' = (if 0 < n \<and> sw_SuspectToDeadThreshold cfg \<le> m_SuspectCount m + int n
                   then StatusDead else StatusSuspect)"
  using assms
proof (induction n arbitrary: M m)
  case 0
  then show ?case by simp
next
  case (Suc n)
  let ?M = "round_failed cfg i M"
  note step = lookup_round_failed [OF Suc.prems(1), of cfg]
  show ?case
  proof (cases "sw_SuspectToDeadThreshold cfg \<le> m_SuspectCount m + 1")
    case True
    with step Suc.prems(2) obtain m' where "fmlookup (members ?M) i = Some m'" and "m_Status m' = StatusDead"
      by simp
    with failed_rounds_dead True show ?thesis by (simp add: failed_rounds_Suc)
  next
    case False
    with step Suc.prems(2) obtain m' where "fmlookup (members ?M) i = Some m'"
      and "m_Status m' = StatusSuspect" and "m_SuspectCount m' = m_SuspectCount m + 1"
      by simp
    with Suc.IH [of ?M m'] False show ?thesis by (auto simp: failed_rounds_Suc algebra_simps split: if_splits)
  qed
qed

lemma lookup_round_failed_other: "j \<noteq> i \<Longrightarrow> fmlookup (members (round_failed cfg i M)) j = fmlookup (members M) j"
  by (simp add: round_failed_def MarkSuspect_def MarkDead_def split: option.split Status.split)

section \<open>Properties\<close>

text \<open>C31: a member that answers no probe is declared Dead after exactly \<open>max 2 SuspectToDeadThreshold\<close>
  failed rounds in a row since it was last known Alive with no suspicion, and is Suspect in between;
  the configuration that \<open>NewSWIMDetector\<close> builds always has a positive threshold.\<close>

theorem swim_death_threshold:
  assumes "fmlookup (members M) i = Some m" and "m_Status m = StatusAlive" and "m_SuspectCount m = 0"
  shows "\<exists>m'. fmlookup (members (failed_rounds (NewSWIMDetector cfg) i n M)) i = Some m' \<and>
      m_Status m' = (if n = 0 then StatusAlive
        else if int n < max 2 (sw_SuspectToDeadThreshold (NewSWIMDetector cfg)) then StatusSuspect
        else StatusDead) \<and>
      0 < sw_SuspectToDeadThreshold (NewSWIMDetector cfg)"
proof -
  let ?c = "NewSWIMDetector cfg"
  have pos: "0 < sw_SuspectToDeadThreshold ?c" by (simp add: NewSWIMDetector_def Let_def)
  show ?thesis
  proof (cases n)
    case 0
    with assms pos show ?thesis by simp
  next
    case (Suc k)
    from lookup_round_failed [OF assms(1), of ?c] assms(2,3)
    obtain m' where "fmlookup (members (round_failed ?c i M)) i = Some m'"
      and "m_Status m' = StatusSuspect" and "m_SuspectCount m' = 1"
      by simp
    from failed_rounds_suspect [OF this(1,2), of ?c k] this(3) Suc pos show ?thesis
      by (auto simp: failed_rounds_Suc max_def split: if_splits)
  qed
qed

theorem swim_death_threshold_witness:
  "\<exists>m'. fmlookup (members (failed_rounds (NewSWIMDetector \<lparr>sw_NodeID = ''a'', sw_APIKey = '''', sw_Compression = False,
        sw_ProtocolPeriod = 0, sw_ProbeTimeout = 0, sw_SuspectToDeadThreshold = 0\<rparr>) ''b'' 3
        (AddMember 5 ''b'' ''addr'' (NewMembership ''a'')))) ''b'' = Some m' \<and> m_Status m' = StatusDead"
proof -
  let ?M = "AddMember 5 ''b'' ''addr'' (NewMembership ''a'')"
  obtain m where "fmlookup (members ?M) ''b'' = Some m" "m_Status m = StatusAlive" "m_SuspectCount m = 0"
    by (simp add: AddMember_def AddOrUpdateMember_def AddOrUpdateMemberStatus_def NewMembership_def setStatus_def)
  from swim_death_threshold [OF this, of "\<lparr>sw_NodeID = ''a'', sw_APIKey = '''', sw_Compression = False,
        sw_ProtocolPeriod = 0, sw_ProbeTimeout = 0, sw_SuspectToDeadThreshold = 0\<rparr>" 3]
  show ?thesis by (simp add: NewSWIMDetector_def)
qed

text \<open>One round of the detector: it probes a member that is Alive or Suspect; if the direct or the
  indirect probe is answered with \<open>Alive\<close>, the member becomes Alive with no suspicion and a fresh
  heartbeat; otherwise its status never improves; and no other member's record changes.\<close>

theorem swim_round_spec:
  assumes "\<And>xs. mset (shuffle xs) = mset xs" and "membership_ok M"
    and "GetRandomProbeTarget shuffle M = Some target"
  shows "fmlookup (members M) (m_ID target) = Some target \<and> m_ID target \<noteq> mb_nodeID M \<and> m_Status target \<le> StatusSuspect \<and>
    (\<exists>m'. fmlookup (members (swim_round shuffle shuffle' now net cfg id M)) (m_ID target) = Some m' \<and>
       (if probe net target \<or> indirectProbe shuffle' net target M
        then m_Status m' = StatusAlive \<and> m_SuspectCount m' = 0 \<and> m_LastHeartbeat m' = now
        else m_Status target < m_Status m' \<or> (m_Status m' = StatusSuspect \<and> m_SuspectCount m' = m_SuspectCount target + 1))) \<and>
    (\<forall>j. j \<noteq> m_ID target \<longrightarrow>
       fmlookup (members (swim_round shuffle shuffle' now net cfg id M)) j = fmlookup (members M) j)"
proof -
  from probe_target [OF assms(1,3)] have t: "target \<in> set (GetMembers M)" "m_ID target \<noteq> mb_nodeID M"
    "m_Status target \<le> StatusSuspect" by auto
  then obtain i where "fmlookup (members M) i = Some target" by (auto simp: set_GetMembers)
  with membership_okD [OF assms(2)] have l: "fmlookup (members M) (m_ID target) = Some target"
    by (auto simp: member_ok_def)
  show ?thesis
  proof (cases "probe net target \<or> indirectProbe shuffle' net target M")
    case True
    with assms(3) have "swim_round shuffle shuffle' now net cfg id M = UpdateHeartbeat now (m_ID target) M"
      by (auto simp: swim_round_def Let_def)
    with True l t show ?thesis by (simp add: UpdateHeartbeat_def setStatus_def)
  next
    case False
    with assms(3) have "swim_round shuffle shuffle' now net cfg id M = round_failed cfg (m_ID target) M"
      by (simp add: swim_round_def Let_def)
    with False l t lookup_round_failed [OF l, of cfg] lookup_round_failed_other show ?thesis
      by (auto simp: less_Status_def)
  qed
qed

theorem swim_round_spec_witness:
  "\<exists>m'. fmlookup (members (swim_round id id 9 \<lparr>dial_ok = \<lambda>_. False, ping_reply = \<lambda>_ _. None, ping_req_reply = \<lambda>_ _. None\<rparr>
      \<lparr>sw_NodeID = ''a'', sw_APIKey = '''', sw_Compression = False, sw_ProtocolPeriod = 0, sw_ProbeTimeout = 0,
        sw_SuspectToDeadThreshold = 3\<rparr> id (AddMember 5 ''b'' ''addr'' (NewMembership ''a'')))) ''b'' = Some m' \<and>
    StatusAlive < m_Status m'"
proof -
  let ?M = "AddMember 5 ''b'' ''addr'' (NewMembership ''a'')"
  let ?t = "\<lparr>m_ID = ''b'', m_Address = ''addr'', m_Status = StatusAlive, m_IsActive = True,
     m_CounterValue = 0, m_LastHeartbeat = 5, m_SuspectCount = 0, m_Priority = 0\<rparr>"
  let ?net = "\<lparr>dial_ok = \<lambda>_. False, ping_reply = \<lambda>_ _. None, ping_req_reply = \<lambda>_ _. None\<rparr>"
  let ?cfg = "\<lparr>sw_NodeID = ''a'', sw_APIKey = '''', sw_Compression = False, sw_ProtocolPeriod = 0,
     sw_ProbeTimeout = 0, sw_SuspectToDeadThreshold = 3\<rparr>"
  have M: "membership_ok ?M"
    by (simp add: AddMember_def AddOrUpdateMember_def NewMembership_def Let_def membership_ok_def
        AddOrUpdateMemberStatus_ok [unfolded membership_ok_def])
  have t: "GetRandomProbeTarget id ?M = Some ?t" by code_simp
  have "\<not> probe ?net ?t" and "\<not> indirectProbe id ?net ?t ?M"
    by (simp_all add: probe_def indirectProbe_def split: option.split)
  with swim_round_spec [of id ?M ?t id 9 ?net ?cfg, OF _ M t] show ?thesis by (auto simp: less_Status_def)
qed

end
