(* ===== verification/Admin.thy ===== *)
theory Admin
  imports Gossip Swim
begin

text \<open>
  \<open>internal/admin/admin.go\<close>: the administration service, and the heartbeat loop of \<open>cmd/server/main.go\<close>, whose
  interplay decides what a removal is worth.

  The member table and the gossip engine are shared with the other services; the operations take and return
  them, and the record only says whether the pointers are set. \<open>quote\<close> is the verb \<open>%q\<close> of \<open>fmt.Sprintf\<close>.
\<close>

section \<open>The administration service\<close>

record AdminService =
  ad_nodeID :: string
  ad_hasMembership :: bool
  ad_hasGossip :: bool

datatype admin_error = Node_id_required | Address_required | Cannot_remove_local

definition AD_New :: "string \<Rightarrow> AdminService" where
  "AD_New nodeID = \<lparr>ad_nodeID = nodeID, ad_hasMembership = False, ad_hasGossip = False\<rparr>"

definition AD_SetCluster :: "AdminService \<Rightarrow> AdminService" where
  "AD_SetCluster a = a\<lparr>ad_hasMembership := True\<rparr>"

definition AD_SetGossip :: "AdminService \<Rightarrow> AdminService" where
  "AD_SetGossip a = a\<lparr>ad_hasGossip := True\<rparr>"

definition response :: "string \<Rightarrow> AdminService \<Rightarrow> Membership \<Rightarrow> AdminResponse" where
  "response message a M =
     \<lparr>ar_Success = True, ar_Message = message,
      ar_Members = (if ad_hasMembership a then map pb_member_of (GetMembers M) else [])\<rparr>"

definition AD_AddNode ::
  "(string \<Rightarrow> string) \<Rightarrow> go_time \<Rightarrow> string \<Rightarrow> string \<Rightarrow> AdminService \<Rightarrow> Membership
   \<Rightarrow> (admin_error + AdminResponse) \<times> Membership" where
  "AD_AddNode quote now req_NodeId req_Address a M =
     (if req_NodeId = '''' then (Inl Node_id_required, M)
      else if req_Address = '''' then (Inl Address_required, M)
      else
        (let M = (if ad_hasMembership a then AddOrUpdateMember req_NodeId req_Address True now M else M)
         in (Inr (response (''node '' @ quote req_NodeId @ '' added'') a M), M)))"

definition AD_RemoveNode ::
  "(string \<Rightarrow> string) \<Rightarrow> string \<Rightarrow> AdminService \<Rightarrow> Membership \<Rightarrow> (admin_error + AdminResponse) \<times> Membership" where
  "AD_RemoveNode quote req_NodeId a M =
     (if req_NodeId = '''' then (Inl Node_id_required, M)
      else if req_NodeId = ad_nodeID a then (Inl Cannot_remove_local, M)
      else
        (let M = (if ad_hasMembership a then MarkLeft req_NodeId M else M)
         in (Inr (response (''node '' @ quote req_NodeId @ '' removed'') a M), M)))"

text \<open>The last component lists the addresses to which rounds are launched.\<close>

definition AD_ForceSync ::
  "AdminService \<Rightarrow> Membership \<Rightarrow> GossipEngine \<Rightarrow> ForceSyncResponse \<times> GossipEngine \<times> string list" where
  "AD_ForceSync a M g =
     (if \<not> ad_hasGossip a
      then (\<lparr>fr_Success = False, fr_Message = ''gossip engine not wired'', fr_PeersContacted = 0\<rparr>, g, [])
      else (case ForceSync M g of
          (contacted, g, launched) \<Rightarrow>
            (\<lparr>fr_Success = True, fr_Message = ''force sync triggered'', fr_PeersContacted = word_of_int contacted\<rparr>,
             g, launched)))"

section \<open>The heartbeat loop\<close>

text \<open>\<open>net\<close> is the network as \<open>pingHeartbeat\<close> sees it: whether the dial to an address succeeds, and whether the
  \<open>Heartbeat\<close> call with the given request then returns without an error.\<close>

record hb_net =
  hb_dial :: "string \<Rightarrow> bool"
  hb_call :: "string \<Rightarrow> HeartbeatRequest \<Rightarrow> bool"

definition pingHeartbeat :: "hb_net \<Rightarrow> go_time \<Rightarrow> string \<Rightarrow> string \<Rightarrow> string \<Rightarrow> int64 \<Rightarrow> string \<Rightarrow> bool" where
  "pingHeartbeat net now address nodeID localAddress priority leaderID =
     (if \<not> hb_dial net address then False
      else hb_call net address
        \<lparr>hr_NodeId = nodeID, hr_CurrentValue = 0, hr_Timestamp = unix_of_time now, hr_Address = localAddress, hr_Priority = priority,
         hr_LeaderId = leaderID\<rparr>)"

definition heartbeat_body ::
  "hb_net \<Rightarrow> go_time \<Rightarrow> string \<Rightarrow> string \<Rightarrow> int64 \<Rightarrow> string \<Rightarrow> Member \<Rightarrow> Membership \<Rightarrow> Membership" where
  "heartbeat_body net now nodeID localAddress priority leaderID member M =
     (if m_ID member = nodeID \<or> m_Address member = localAddress then M
      else if \<not> pingHeartbeat net now (m_Address member) nodeID localAddress priority leaderID
      then MarkInactive (m_ID member) M
      else UpdateHeartbeat now (m_ID member) M)"

definition sendHeartbeats ::
  "hb_net \<Rightarrow> go_time \<Rightarrow> string \<Rightarrow> string \<Rightarrow> Bully option \<Rightarrow> Membership \<Rightarrow> Membership" where
  "sendHeartbeats net now nodeID localAddress bully M =
     (let priority = (case bully of None \<Rightarrow> 0 | Some b \<Rightarrow> b_priority b);
          leaderID = (case bully of None \<Rightarrow> '''' | Some b \<Rightarrow> LeaderID b)
      in fold (heartbeat_body net now nodeID localAddress priority leaderID) (GetMembers M) M)"

text \<open>One tick of \<open>runFailureDetectionLoop\<close>.\<close>

definition failure_tick :: "go_time \<Rightarrow> duration \<Rightarrow> Membership \<Rightarrow> Membership" where
  "failure_tick now threshold M = snd (MarkStale now threshold M)"

section \<open>One member at a time\<close>

text \<open>Whether a member is pinged, with which outcome, and what that makes of its record.\<close>

definition hb_next ::
  "hb_net \<Rightarrow> go_time \<Rightarrow> string \<Rightarrow> string \<Rightarrow> int64 \<Rightarrow> string \<Rightarrow> Member \<Rightarrow> Member" where
  "hb_next net now nodeID localAddress priority leaderID m =
     (if m_ID m = nodeID \<or> m_Address m = localAddress then m
      else if pingHeartbeat net now (m_Address m) nodeID localAddress priority leaderID
      then m\<lparr>m_LastHeartbeat := now, m_Status := StatusAlive, m_IsActive := True, m_SuspectCount := 0\<rparr>
      else if m_Status m \<le> StatusSuspect
      then m\<lparr>m_Status := StatusSuspect, m_IsActive := False, m_SuspectCount := m_SuspectCount m + 1\<rparr>
      else m)"

lemma heartbeat_body_lookup:
  assumes "fmlookup (members M) (m_ID m) = Some m"
  shows "fmlookup (members (heartbeat_body net now nodeID localAddress priority leaderID m M)) i =
    (if i = m_ID m then Some (hb_next net now nodeID localAddress priority leaderID m) else fmlookup (members M) i)"
  using assms
  by (auto simp: heartbeat_body_def hb_next_def MarkInactive_def member_defs intro: Status_remaining)

lemma fold_heartbeat_lookup:
  assumes "distinct (map m_ID xs)" and "\<forall>m \<in> set xs. fmlookup (members M) (m_ID m) = Some m"
  shows "fmlookup (members (fold (heartbeat_body net now nodeID localAddress priority leaderID) xs M)) i =
    (if i \<in> m_ID ` set xs then map_option (hb_next net now nodeID localAddress priority leaderID) (fmlookup (members M) i)
     else fmlookup (members M) i)"
  using assms
proof (induction xs arbitrary: M)
  case Nil
  then show ?case by simp
next
  case (Cons x xs)
  let ?M = "heartbeat_body net now nodeID localAddress priority leaderID x M"
  have x: "fmlookup (members M) (m_ID x) = Some x" using Cons.prems by simp
  have fresh: "m_ID x \<notin> m_ID ` set xs" using Cons.prems(1) by simp
  have "\<forall>m \<in> set xs. fmlookup (members ?M) (m_ID m) = Some m"
  proof
    fix m assume "m \<in> set xs"
    then have "m_ID m \<noteq> m_ID x" and "m \<in> set (x # xs)" using imageI [of m "set xs" m_ID] fresh by (metis, simp)
    moreover from Cons.prems(2) this(2) have "fmlookup (members M) (m_ID m) = Some m" by (rule bspec)
    ultimately show "fmlookup (members ?M) (m_ID m) = Some m" by (simp add: heartbeat_body_lookup [OF x])
  qed
  then have "fmlookup (members (fold (heartbeat_body net now nodeID localAddress priority leaderID) xs ?M)) i =
    (if i \<in> m_ID ` set xs then map_option (hb_next net now nodeID localAddress priority leaderID) (fmlookup (members ?M) i)
     else fmlookup (members ?M) i)"
    using Cons.prems(1) by (intro Cons.IH) simp_all
  with fresh show ?case using x by (cases "i = m_ID x") (simp_all add: heartbeat_body_lookup [OF x])
qed

lemma sendHeartbeats_lookup:
  assumes "membership_ok M"
  shows "fmlookup (members (sendHeartbeats net now nodeID localAddress bully M)) i =
    map_option (hb_next net now nodeID localAddress (case bully of None \<Rightarrow> 0 | Some b \<Rightarrow> b_priority b)
      (case bully of None \<Rightarrow> '''' | Some b \<Rightarrow> b_leaderID b)) (fmlookup (members M) i)"
proof -
  note GetMembers_distinct [OF assms]
  moreover have "\<forall>m \<in> set (GetMembers M). fmlookup (members M) (m_ID m) = Some m"
    using GetMembers_lookup [OF assms] by blast
  moreover have "i \<in> m_ID ` set (GetMembers M) \<longleftrightarrow> fmlookup (members M) i \<noteq> None"
    using GetMembers_lookup [OF assms] membership_okD [OF assms, of i] unfolding member_ok_def by (metis image_iff not_None_eq)
  ultimately show ?thesis
    by (simp add: sendHeartbeats_def Let_def fold_heartbeat_lookup LeaderID_def cong: option.case_cong)
qed

lemma sendHeartbeats_nodeID [simp]: "mb_nodeID (sendHeartbeats net now nodeID localAddress bully M) = mb_nodeID M"
proof -
  have "mb_nodeID (heartbeat_body net now nodeID localAddress p l m M) = mb_nodeID M" for p l m M
    by (simp add: heartbeat_body_def MarkInactive_def member_defs with_member_def split: option.split)
  then have "mb_nodeID (fold (heartbeat_body net now nodeID localAddress p l) xs M) = mb_nodeID M" for p l xs
    by (induction xs arbitrary: M) simp_all
  then show ?thesis by (simp add: sendHeartbeats_def Let_def)
qed

lemma hb_next_ok: "member_ok i m \<Longrightarrow> member_ok i (hb_next net now nodeID localAddress priority leaderID m)"
  by (simp add: hb_next_def member_ok_def)

lemma sendHeartbeats_ok: "membership_ok M \<Longrightarrow> membership_ok (sendHeartbeats net now nodeID localAddress bully M)"
  by (rule membership_okI) (auto simp: sendHeartbeats_lookup intro: hb_next_ok dest: membership_okD)

section \<open>Properties\<close>

text \<open>A round of heartbeats pings every other member, whatever its status: one that answers becomes Alive with no
  suspicion and a fresh heartbeat time, one that does not is suspected once more unless it is Dead or Left,
  and the local member keeps its record.\<close>

theorem sendHeartbeats_spec:
  assumes "membership_ok M" and "fmlookup (members M) i = Some m"
    and "ping = pingHeartbeat net now (m_Address m) nodeID localAddress
      (case bully of None \<Rightarrow> 0 | Some b \<Rightarrow> b_priority b) (case bully of None \<Rightarrow> '''' | Some b \<Rightarrow> b_leaderID b)"
  shows "\<exists>m'. fmlookup (members (sendHeartbeats net now nodeID localAddress bully M)) i = Some m' \<and>
    (if i = nodeID \<or> m_Address m = localAddress then m' = m
     else if ping then m_Status m' = StatusAlive \<and> m_IsActive m' \<and> m_SuspectCount m' = 0 \<and> m_LastHeartbeat m' = now
     else if StatusDead \<le> m_Status m then m' = m
     else m_Status m' = StatusSuspect \<and> \<not> m_IsActive m' \<and> m_SuspectCount m' = m_SuspectCount m + 1 \<and>
       m_LastHeartbeat m' = m_LastHeartbeat m)"
proof -
  have "m_ID m = i" using membership_okD [OF assms(1,2)] by (simp add: member_ok_def)
  with assms show ?thesis
    by (cases "m_Status m") (auto simp: sendHeartbeats_lookup hb_next_def)
qed

definition sample_table :: Membership where
  "sample_table = AddMember 5 ''b'' ''addr'' (NewMembership ''a'')"

lemma sample_table_ok: "membership_ok sample_table"
  unfolding sample_table_def AddMember_def AddOrUpdateMember_def Let_def
  by (intro AddOrUpdateMemberStatus_ok) (simp add: NewMembership_def membership_ok_def)

lemma sample_table_lookup: "\<exists>m. fmlookup (members sample_table) ''b'' = Some m \<and> m_ID m = ''b'' \<and> m_Address m = ''addr''"
  by (simp add: sample_table_def AddMember_def AddOrUpdateMember_def AddOrUpdateMemberStatus_def NewMembership_def setStatus_def)

theorem sendHeartbeats_spec_witness:
  "\<exists>m'. fmlookup (members (sendHeartbeats \<lparr>hb_dial = \<lambda>_. True, hb_call = \<lambda>_ _. True\<rparr> 9 ''a'' ''here'' None sample_table)) ''b'' = Some m' \<and>
     m_Status m' = StatusAlive \<and> m_LastHeartbeat m' = 9"
proof -
  obtain m where m: "fmlookup (members sample_table) ''b'' = Some m" "m_ID m = ''b''" "m_Address m = ''addr''"
    using sample_table_lookup by blast
  from sendHeartbeats_spec [OF sample_table_ok m(1) refl,
      of "\<lparr>hb_dial = \<lambda>_. True, hb_call = \<lambda>_ _. True\<rparr>" 9 "''a''" "''here''" None] m
  show ?thesis by (auto simp: pingHeartbeat_def)
qed

text \<open>Removing a node marks it Left: it is then neither a gossip peer nor a SWIM probe target nor consulted in elections,
  however the failure detectors run afterwards; but the next round of heartbeats pings it all the
  same and, if it answers, makes it Alive, so that a removal lasts only until then.\<close>

theorem removal_lasts_until_heartbeat:
  assumes "membership_ok M" and "mb_nodeID M = ad_nodeID a" and "ad_hasMembership a"
    and "fmlookup (members M) i = Some m" and "i \<noteq> ''''" and "i \<noteq> ad_nodeID a" and "m_Address m \<noteq> localAddress"
    and "\<And>xs. mset (shuffle xs) = mset xs"
    and "AD_RemoveNode quote i a M = (res, M')" and "membership_detect\<^sup>*\<^sup>* M' M''"
  shows "(\<exists>r. res = Inr r \<and> ar_Success r) \<and>
    (\<forall>p \<in> set (GetAlivePeers M''). m_ID p \<noteq> i) \<and>
    (\<forall>p \<in> set (higherPriorityLivePeers M'' b). m_ID p \<noteq> i) \<and>
    (\<forall>p. GetRandomProbeTarget shuffle M'' = Some p \<longrightarrow> m_ID p \<noteq> i) \<and>
    (\<exists>m'. fmlookup (members (sendHeartbeats \<lparr>hb_dial = \<lambda>_. True, hb_call = \<lambda>_ _. True\<rparr> now (ad_nodeID a) localAddress bully M')) i = Some m' \<and>
       m_Status m' = StatusAlive)"
proof -
  have res: "res = Inr (response (''node '' @ quote i @ '' removed'') a M')" and M': "M' = MarkLeft i M"
    using assms by (auto simp: AD_RemoveNode_def Let_def)
  have left: "fmlookup (members M') i = Some (setStatus StatusLeft m)" using assms(4) by (simp add: M' MarkLeft_def)
  have ok': "membership_ok M'" using membership_step_ok [OF membership_step.left assms(1)] by (simp add: M')
  have down: "(\<exists>m'. fmlookup (members M'') i = Some m' \<and> StatusDead \<le> m_Status m') \<and> membership_ok M''"
    using assms(10)
  proof (induction rule: rtranclp_induct)
    case base
    show ?case using left ok' by (simp add: setStatus_def)
  next
    case (step y z)
    then obtain m' where "fmlookup (members y) i = Some m'" "StatusDead \<le> m_Status m'" by blast
    with step show ?case using detect_stays_down detect_ok by blast
  qed
  then obtain m2 where m2: "fmlookup (members M'') i = Some m2" "StatusDead \<le> m_Status m2" and ok: "membership_ok M''" by blast
  have live: "m_ID p \<noteq> i" if "p \<in> set (GetMembers M'')" "m_Status p \<le> StatusSuspect" for p
    using that m2 GetMembers_lookup [OF ok, of p] by auto
  have "\<forall>p \<in> set (GetAlivePeers M''). m_ID p \<noteq> i" using live by (auto simp: GetAlivePeers_def)
  moreover from this have "\<forall>p \<in> set (higherPriorityLivePeers M'' b). m_ID p \<noteq> i" by (simp add: higherPriorityLivePeers_def)
  moreover have "\<forall>p. GetRandomProbeTarget shuffle M'' = Some p \<longrightarrow> m_ID p \<noteq> i"
    using live probe_target [OF assms(8)] by blast
  moreover have "m_ID m = i" using membership_okD [OF assms(1,4)] by (simp add: member_ok_def)
  ultimately show ?thesis using assms(6,7) left res
    by (simp add: sendHeartbeats_lookup [OF ok'] hb_next_def setStatus_def pingHeartbeat_def response_def)
qed

theorem removal_lasts_until_heartbeat_witness:
  "''b'' \<notin> m_ID ` set (GetAlivePeers (snd (AD_RemoveNode id ''b'' (AD_SetCluster (AD_New ''a'')) sample_table))) \<and>
   (\<exists>m'. fmlookup (members (sendHeartbeats \<lparr>hb_dial = \<lambda>_. True, hb_call = \<lambda>_ _. True\<rparr> 9 ''a'' ''here'' None
       (snd (AD_RemoveNode id ''b'' (AD_SetCluster (AD_New ''a'')) sample_table)))) ''b'' = Some m' \<and> m_Status m' = StatusAlive)"
proof -
  let ?a = "AD_SetCluster (AD_New ''a'')"
  obtain res M' where r: "AD_RemoveNode id ''b'' ?a sample_table = (res, M')" by fastforce
  obtain m where m: "fmlookup (members sample_table) ''b'' = Some m" "m_Address m = ''addr''"
    using sample_table_lookup by blast
  have a: "ad_nodeID ?a = ''a''" "ad_hasMembership ?a" by (simp_all add: AD_SetCluster_def AD_New_def)
  have "mb_nodeID sample_table = ad_nodeID ?a"
    by (simp add: a sample_table_def AddMember_def AddOrUpdateMember_def NewMembership_def Let_def)
  from removal_lasts_until_heartbeat [OF sample_table_ok this a(2) m(1) _ _ _ _ r rtranclp.rtrancl_refl,
      of "''here''" id "New undefined" 9 None] m a r
  show ?thesis by (auto simp: image_iff)
qed

text \<open>What the operator's requests answer: the errors change nothing, an added node is Alive under the given
  address, and a forced synchronisation reports the number of rounds it launched.\<close>

lemma AD_AddNode_spec:
  "(req_NodeId = '''' \<or> req_Address = '''' \<longrightarrow> (\<exists>e. AD_AddNode quote now req_NodeId req_Address a M = (Inl e, M))) \<and>
   (req_NodeId \<noteq> '''' \<and> req_Address \<noteq> '''' \<and> ad_hasMembership a \<longrightarrow>
      (\<exists>r M' m. AD_AddNode quote now req_NodeId req_Address a M = (Inr r, M') \<and>
         fmlookup (members M') req_NodeId = Some m \<and> m_Status m = StatusAlive \<and> m_Address m = req_Address \<and>
         pb_member_of m \<in> set (ar_Members r)))"
  using lookup_AddOrUpdateMember_alive [of req_NodeId req_Address now M]
  by (auto simp: AD_AddNode_def Let_def response_def set_GetMembers)

lemma AD_ForceSync_spec:
  assumes "AD_ForceSync a M g = (r, g', launched)" and "ad_hasGossip a"
  shows "fr_Success r \<and> fr_PeersContacted r = of_nat (length launched) \<and> distinct launched \<and>
    set launched = {a \<in> m_Address ` set (GetAlivePeers M). fmlookup (ge_syncing g) a \<noteq> Some True}"
proof -
  obtain contacted g1 l where f: "ForceSync M g = (contacted, g1, l)" by (metis prod.collapse)
  from ForceSync_launches [OF f] assms show ?thesis by (auto simp: AD_ForceSync_def f)
qed

end
