(* ===== verification/Middleware.thy ===== *)
theory Middleware
  imports Go_Prelude
begin

text \<open>
  \<open>internal/server/middleware.go\<close> (API key authentication and rate limiting in front of every RPC, chained by
  \<open>NewGRPCServer\<close>), \<open>pkg/grpcutil/dial.go\<close> (the key on outgoing calls) and \<open>internal/config/config.go\<close>.

  The incoming metadata of a call is a map from lower-case keys to the list of their values, \<open>None\<close> when the
  context carries none. A \<open>float64\<close> is the rational number it stands for; every arithmetic operation of
  the limiter rounds its exact result with the argument \<open>fl\<close>.
\<close>

section \<open>Authentication\<close>

record MiddlewareConfig =
  mc_NodeID :: string
  mc_AuthEnabled :: bool
  mc_APIKey :: string
  mc_RateLimitPerSecond :: int

record AuthInterceptor =
  ai_nodeID :: string
  ai_enabled :: bool
  ai_apiKey :: string

type_synonym metadata = "string list gomap"

definition NewAuthInterceptor :: "MiddlewareConfig \<Rightarrow> AuthInterceptor" where
  "NewAuthInterceptor cfg = \<lparr>ai_nodeID = mc_NodeID cfg, ai_enabled = mc_AuthEnabled cfg, ai_apiKey = mc_APIKey cfg\<rparr>"

definition allowlist :: "string \<Rightarrow> bool" where
  "allowlist method \<longleftrightarrow> HasPrefix method ''/grpc.health.v1.Health/'' \<or> HasPrefix method ''/grpc.reflection.''"

definition authorized :: "AuthInterceptor \<Rightarrow> metadata option \<Rightarrow> bool" where
  "authorized a ctx =
     (case ctx of
        None \<Rightarrow> False
      | Some md \<Rightarrow>
          (case fmlookup md ''authorization'' of
             None \<Rightarrow> False
           | Some [] \<Rightarrow> False
           | Some (v # _) \<Rightarrow>
               (let token = TrimPrefix v ''Bearer ''
                in if ai_apiKey a = '''' then False else token = ai_apiKey a)))"

datatype rpc_error = Unauthenticated | ResourceExhausted

definition auth_check :: "AuthInterceptor \<Rightarrow> string \<Rightarrow> metadata option \<Rightarrow> rpc_error option" where
  "auth_check a method ctx =
     (if ai_enabled a \<and> \<not> allowlist method \<and> \<not> authorized a ctx then Some Unauthenticated else None)"

text \<open>The interceptor around a handler: an error, or what the handler returns.\<close>

definition auth_Unary :: "AuthInterceptor \<Rightarrow> string \<Rightarrow> metadata option \<Rightarrow> ('s \<Rightarrow> 'r \<times> 's) \<Rightarrow> 's \<Rightarrow> (rpc_error + 'r) \<times> 's" where
  "auth_Unary a method ctx handler s =
     (case auth_check a method ctx of
        Some e \<Rightarrow> (Inl e, s) | None \<Rightarrow> (case handler s of (r, s) \<Rightarrow> (Inr r, s)))"

text \<open>The same around the handler of a stream, whose result is what it returns when the stream ends.\<close>

definition auth_Stream :: "AuthInterceptor \<Rightarrow> string \<Rightarrow> metadata option \<Rightarrow> ('s \<Rightarrow> 'r \<times> 's) \<Rightarrow> 's \<Rightarrow> (rpc_error + 'r) \<times> 's" where
  "auth_Stream a method ctx handler s =
     (if ai_enabled a \<and> \<not> allowlist method \<and> \<not> authorized a ctx then (Inl Unauthenticated, s)
      else (case handler s of (r, s) \<Rightarrow> (Inr r, s)))"

section \<open>Outgoing calls\<close>

definition GetRequestMetadata :: "string \<Rightarrow> string gomap" where
  "GetRequestMetadata key = fmupd ''authorization'' (''Bearer '' @ key) fmempty"

text \<open>The metadata that a call carries when the connection was dialled with \<open>DialOptions\<close>; the other options
  (transport, tracing, compression) do not touch it.\<close>

definition DialOptions :: "string \<Rightarrow> bool \<Rightarrow> string gomap" where
  "DialOptions apiKey compression = (if apiKey \<noteq> '''' then GetRequestMetadata apiKey else fmempty)"

definition incoming :: "string gomap \<Rightarrow> metadata" where
  "incoming md = fmmap (\<lambda>v. [v]) md"

section \<open>Rate limiting\<close>

definition MaxFloat64 :: rat where
  "MaxFloat64 = (2 ^ 53 - 1) * 2 ^ 971"

record RateLimiter =
  rl_tokens :: rat
  rl_capacity :: rat
  rl_refill :: rat
  rl_last :: go_time

definition NewRateLimiter :: "(rat \<Rightarrow> rat) \<Rightarrow> go_time \<Rightarrow> int \<Rightarrow> RateLimiter" where
  "NewRateLimiter fl now perSecond =
     (if perSecond \<le> 0
      then \<lparr>rl_tokens = MaxFloat64, rl_capacity = MaxFloat64, rl_refill = 0, rl_last = 0\<rparr>
      else \<lparr>rl_tokens = fl (of_int perSecond), rl_capacity = fl (of_int perSecond), rl_refill = fl (of_int perSecond),
            rl_last = now\<rparr>)"

text \<open>\<open>Duration.Seconds\<close>: the whole seconds plus the rest divided by 1e9.\<close>

definition Seconds :: "(rat \<Rightarrow> rat) \<Rightarrow> duration \<Rightarrow> rat" where
  "Seconds fl d =
     (let sec = (if 0 \<le> d then d div second else - ((- d) div second));
          nsec = d - sec * second
      in fl (fl (of_int sec) + fl (of_int nsec / 1000000000)))"

definition RL_Allow :: "(rat \<Rightarrow> rat) \<Rightarrow> go_time \<Rightarrow> RateLimiter \<Rightarrow> bool \<times> RateLimiter" where
  "RL_Allow fl now r =
     (if rl_capacity r = MaxFloat64 then (True, r)
      else
        (let elapsed = Seconds fl (time_sub now (rl_last r));
             r = r\<lparr>rl_tokens := min (rl_capacity r) (fl (rl_tokens r + fl (elapsed * rl_refill r)))\<rparr>;
             r = r\<lparr>rl_last := now\<rparr>
         in if 1 \<le> rl_tokens r then (True, r\<lparr>rl_tokens := fl (rl_tokens r - 1)\<rparr>) else (False, r)))"

definition NewRateLimitInterceptor :: "(rat \<Rightarrow> rat) \<Rightarrow> go_time \<Rightarrow> MiddlewareConfig \<Rightarrow> RateLimiter" where
  "NewRateLimitInterceptor fl now cfg = NewRateLimiter fl now (mc_RateLimitPerSecond cfg)"

definition rate_Unary ::
  "(rat \<Rightarrow> rat) \<Rightarrow> go_time \<Rightarrow> ('s \<Rightarrow> 'r \<times> 's) \<Rightarrow> RateLimiter \<times> 's \<Rightarrow> (rpc_error + 'r) \<times> RateLimiter \<times> 's" where
  "rate_Unary fl now handler x =
     (case x of (r, s) \<Rightarrow>
        (case RL_Allow fl now r of
           (False, r) \<Rightarrow> (Inl ResourceExhausted, r, s)
         | (True, r) \<Rightarrow> (case handler s of (res, s) \<Rightarrow> (Inr res, r, s))))"

text \<open>A stream takes one token, however many messages it carries.\<close>

definition rate_Stream ::
  "(rat \<Rightarrow> rat) \<Rightarrow> go_time \<Rightarrow> ('s \<Rightarrow> 'r \<times> 's) \<Rightarrow> RateLimiter \<times> 's \<Rightarrow> (rpc_error + 'r) \<times> RateLimiter \<times> 's" where
  "rate_Stream fl now handler x =
     (case x of (r, s) \<Rightarrow>
        (case RL_Allow fl now r of
           (False, r) \<Rightarrow> (Inl ResourceExhausted, r, s)
         | (True, r) \<Rightarrow> (case handler s of (res, s) \<Rightarrow> (Inr res, r, s))))"

text \<open>The chain \<open>NewGRPCServer\<close> installs: authentication first, then the limiter, then the handler.\<close>

definition server_call ::
  "(rat \<Rightarrow> rat) \<Rightarrow> go_time \<Rightarrow> AuthInterceptor \<Rightarrow> string \<Rightarrow> metadata option \<Rightarrow> ('s \<Rightarrow> 'r \<times> 's) \<Rightarrow> RateLimiter \<times> 's
   \<Rightarrow> (rpc_error + 'r) \<times> RateLimiter \<times> 's" where
  "server_call fl now a method ctx handler x =
     (case auth_Unary a method ctx (rate_Unary fl now handler) x of
        (Inl e, x) \<Rightarrow> (Inl e, x)
      | (Inr (Inl e), x) \<Rightarrow> (Inl e, x)
      | (Inr (Inr res), x) \<Rightarrow> (Inr res, x))"

definition server_stream ::
  "(rat \<Rightarrow> rat) \<Rightarrow> go_time \<Rightarrow> AuthInterceptor \<Rightarrow> string \<Rightarrow> metadata option \<Rightarrow> ('s \<Rightarrow> 'r \<times> 's) \<Rightarrow> RateLimiter \<times> 's
   \<Rightarrow> (rpc_error + 'r) \<times> RateLimiter \<times> 's" where
  "server_stream fl now a method ctx handler x =
     (case auth_Stream a method ctx (rate_Stream fl now handler) x of
        (Inl e, x) \<Rightarrow> (Inl e, x)
      | (Inr (Inl e), x) \<Rightarrow> (Inl e, x)
      | (Inr (Inr res), x) \<Rightarrow> (Inr res, x))"

section \<open>Configuration\<close>

record Config =
  cf_NodeID :: string
  cf_GRPCPort :: int
  cf_MetricsPort :: int
  cf_HTTPPort :: int
  cf_AdvertiseAddress :: string
  cf_SeedNodes :: "string list"
  cf_GossipInterval :: int
  cf_HeartbeatInterval :: int
  cf_HeartbeatTimeout :: int
  cf_PersistenceEnabled :: bool
  cf_RedisAddr :: string
  cf_RedisPassword :: string
  cf_RedisDB :: int
  cf_WALEnabled :: bool
  cf_WALDir :: string
  cf_SnapshotIntervalSeconds :: int
  cf_SwimInterval :: int
  cf_SwimProbeTimeout :: int
  cf_SwimSuspectToDead :: int
  cf_AuthEnabled :: bool
  cf_APIKey :: string
  cf_RateLimitPerSecond :: int
  cf_CompressionEnabled :: bool
  cf_TracingEnabled :: bool
  cf_TraceEndpoint :: string
  cf_TraceSampleRatio :: rat
  cf_CounterShards :: int
  cf_NodePriority :: int
  cf_ElectionInterval :: int

datatype config_error = ReadInConfig_failed | Unmarshal_config_failed

text \<open>The file and the environment are read by \<open>viper\<close>, whose outcome is the argument of \<open>Load\<close>. Each default is a
  statement \<open>if invalid { repair }\<close>.\<close>

definition default_to :: "(Config \<Rightarrow> bool) \<Rightarrow> (Config \<Rightarrow> Config) \<Rightarrow> Config \<Rightarrow> Config" where
  "default_to invalid repair cfg = (if invalid cfg then repair cfg else cfg)"

definition Load :: "config_error + Config \<Rightarrow> config_error + Config" where
  "Load read =
     (case read of
        Inl e \<Rightarrow> Inl e
      | Inr cfg \<Rightarrow>
          (let cfg = default_to (\<lambda>cfg. cf_GossipInterval cfg \<le> 0) (\<lambda>cfg. cfg\<lparr>cf_GossipInterval := 5\<rparr>) cfg;
               cfg = default_to (\<lambda>cfg. cf_HeartbeatInterval cfg \<le> 0) (\<lambda>cfg. cfg\<lparr>cf_HeartbeatInterval := 3\<rparr>) cfg;
               cfg = default_to (\<lambda>cfg. cf_HeartbeatTimeout cfg \<le> 0) (\<lambda>cfg. cfg\<lparr>cf_HeartbeatTimeout := 10\<rparr>) cfg;
               cfg = default_to (\<lambda>cfg. cf_SnapshotIntervalSeconds cfg \<le> 0) (\<lambda>cfg. cfg\<lparr>cf_SnapshotIntervalSeconds := 30\<rparr>) cfg;
               cfg = default_to (\<lambda>cfg. cf_SwimInterval cfg \<le> 0) (\<lambda>cfg. cfg\<lparr>cf_SwimInterval := 1\<rparr>) cfg;
               cfg = default_to (\<lambda>cfg. cf_SwimProbeTimeout cfg \<le> 0) (\<lambda>cfg. cfg\<lparr>cf_SwimProbeTimeout := 2\<rparr>) cfg;
               cfg = default_to (\<lambda>cfg. cf_SwimSuspectToDead cfg \<le> 0) (\<lambda>cfg. cfg\<lparr>cf_SwimSuspectToDead := 3\<rparr>) cfg;
               cfg = default_to (\<lambda>cfg. cf_WALDir cfg = '''') (\<lambda>cfg. cfg\<lparr>cf_WALDir := ''data''\<rparr>) cfg;
               cfg = default_to (\<lambda>cfg. cf_TraceEndpoint cfg = '''') (\<lambda>cfg. cfg\<lparr>cf_TraceEndpoint := ''localhost:4317''\<rparr>) cfg;
               cfg = default_to (\<lambda>cfg. cf_TraceSampleRatio cfg \<le> 0 \<or> 1 < cf_TraceSampleRatio cfg) (\<lambda>cfg. cfg\<lparr>cf_TraceSampleRatio := 1\<rparr>) cfg;
               cfg = default_to (\<lambda>cfg. cf_CounterShards cfg \<le> 0) (\<lambda>cfg. cfg\<lparr>cf_CounterShards := 1\<rparr>) cfg;
               cfg = default_to (\<lambda>cfg. cf_ElectionInterval cfg \<le> 0) (\<lambda>cfg. cfg\<lparr>cf_ElectionInterval := 2\<rparr>) cfg
           in Inr cfg))"

lemma TrimPrefix_bearer [simp]: "TrimPrefix (''Bearer '' @ key) ''Bearer '' = key"
  by (rule TrimPrefix_append)

lemma stream_interceptors: "auth_Stream a method ctx handler s = auth_Unary a method ctx handler s"
  "rate_Stream fl now = rate_Unary fl now"
  by (simp add: auth_Stream_def auth_Unary_def auth_check_def) (intro ext, simp add: rate_Stream_def rate_Unary_def)

lemma server_stream_call: "server_stream fl now a method ctx handler x = server_call fl now a method ctx handler x"
  by (simp only: server_stream_def server_call_def stream_interceptors)

section \<open>Properties\<close>

text \<open>C23: authentication: when it is enabled, a call to a method other than health checks and reflection reaches the limiter
  and the handler only if its first \<open>authorization\<close> value is the configured key, with or without the
  prefix \<open>Bearer\<close>; otherwise it is refused without touching any state, a stream like a single call; with an empty configured key
  nobody is accepted; and a call made through \<open>DialOptions\<close> with the same non-empty key is accepted.\<close>

theorem authentication:
  "(ai_enabled a \<and> \<not> allowlist method \<longrightarrow>
      (auth_check a method ctx = None \<longleftrightarrow>
         ai_apiKey a \<noteq> '''' \<and> (\<exists>md v vs. ctx = Some md \<and> fmlookup md ''authorization'' = Some (v # vs) \<and>
           (v = ''Bearer '' @ ai_apiKey a \<or> v = ai_apiKey a \<and> \<not> HasPrefix v ''Bearer '')))) \<and>
   (auth_check a method ctx \<noteq> None \<longrightarrow> server_call fl now a method ctx handler x = (Inl Unauthenticated, x)) \<and>
   server_stream fl now a method ctx handler x = server_call fl now a method ctx handler x \<and>
   (ai_apiKey a \<noteq> '''' \<longrightarrow> auth_check a method (Some (incoming (DialOptions (ai_apiKey a) compression))) = None)"
proof -
  have token: "TrimPrefix v ''Bearer '' = k \<longleftrightarrow> v = ''Bearer '' @ k \<or> v = k \<and> \<not> HasPrefix v ''Bearer ''" for v k
    by (metis TrimPrefix_append TrimPrefix_def HasPrefix_iff)
  show ?thesis
    by (simp only: server_stream_call) (auto simp: auth_check_def authorized_def Let_def token server_call_def auth_Unary_def incoming_def DialOptions_def
        GetRequestMetadata_def HasPrefix_def split: option.splits list.splits if_splits)
qed

theorem authentication_witness:
  "auth_check \<lparr>ai_nodeID = ''a'', ai_enabled = True, ai_apiKey = ''k''\<rparr> ''/counter.CounterService/Increment''
     (Some (incoming (DialOptions ''k'' True))) = None"
  using authentication [of "\<lparr>ai_nodeID = ''a'', ai_enabled = True, ai_apiKey = ''k''\<rparr>"
      "''/counter.CounterService/Increment''" None id 0 "\<lambda>s. ((), s)" "(NewRateLimiter id 0 0, ())" True] by auto

text \<open>A default changes the field it is for, and nothing else.\<close>

lemma default_to_keeps: "(\<And>c. sel (repair c) = sel c) \<Longrightarrow> sel (default_to invalid repair cfg) = sel cfg"
  by (simp add: default_to_def)

lemma default_to_fixes: "(\<And>c. P (repair c)) \<Longrightarrow> (\<And>c. \<not> invalid c \<Longrightarrow> P c) \<Longrightarrow> P (default_to invalid repair cfg)"
  by (simp add: default_to_def)

lemma default_positive:
  "(\<And>c. 0 < sel (repair c)) \<Longrightarrow> 0 < sel (default_to (\<lambda>c. sel c \<le> (0::int)) repair cfg)"
  by (rule default_to_fixes) auto

lemmas cf_positive =
  default_positive [of cf_GossipInterval]
  default_positive [of cf_HeartbeatInterval]
  default_positive [of cf_HeartbeatTimeout]
  default_positive [of cf_SnapshotIntervalSeconds]
  default_positive [of cf_SwimInterval]
  default_positive [of cf_SwimProbeTimeout]
  default_positive [of cf_SwimSuspectToDead]
  default_positive [of cf_CounterShards]
  default_positive [of cf_ElectionInterval]

lemma default_other:
  "cf_WALDir (default_to (\<lambda>c. cf_WALDir c = '''') (\<lambda>c. c\<lparr>cf_WALDir := ''data''\<rparr>) cfg) \<noteq> ''''"
  "cf_TraceEndpoint (default_to (\<lambda>c. cf_TraceEndpoint c = '''') (\<lambda>c. c\<lparr>cf_TraceEndpoint := ''localhost:4317''\<rparr>) cfg) \<noteq> ''''"
  "0 < cf_TraceSampleRatio (default_to (\<lambda>c. cf_TraceSampleRatio c \<le> 0 \<or> 1 < cf_TraceSampleRatio c)
     (\<lambda>c. c\<lparr>cf_TraceSampleRatio := 1\<rparr>) cfg)"
  "cf_TraceSampleRatio (default_to (\<lambda>c. cf_TraceSampleRatio c \<le> 0 \<or> 1 < cf_TraceSampleRatio c)
     (\<lambda>c. c\<lparr>cf_TraceSampleRatio := 1\<rparr>) cfg) \<le> 1"
  by (auto simp: default_to_def)

lemmas cf_keeps =
  default_to_keeps [of cf_GossipInterval]
  default_to_keeps [of cf_HeartbeatInterval]
  default_to_keeps [of cf_HeartbeatTimeout]
  default_to_keeps [of cf_SnapshotIntervalSeconds]
  default_to_keeps [of cf_SwimInterval]
  default_to_keeps [of cf_SwimProbeTimeout]
  default_to_keeps [of cf_SwimSuspectToDead]
  default_to_keeps [of cf_CounterShards]
  default_to_keeps [of cf_ElectionInterval]
  default_to_keeps [of cf_WALDir]
  default_to_keeps [of cf_TraceSampleRatio]
  default_to_keeps [of cf_TraceEndpoint]
  default_to_keeps [of cf_NodeID]
  default_to_keeps [of cf_SeedNodes]
  default_to_keeps [of cf_APIKey]

section \<open>The limiter\<close>

fun allow_run :: "(rat \<Rightarrow> rat) \<Rightarrow> go_time list \<Rightarrow> RateLimiter \<Rightarrow> bool list \<times> RateLimiter" where
  "allow_run fl [] r = ([], r)"
| "allow_run fl (t # ts) r =
     (case RL_Allow fl t r of (ok, r) \<Rightarrow> (case allow_run fl ts r of (oks, r) \<Rightarrow> (ok # oks, r)))"

text \<open>Rounding is exact on the integers that fit in the 53 bits of the mantissa.\<close>

definition exact_integers :: "(rat \<Rightarrow> rat) \<Rightarrow> bool" where
  "exact_integers fl \<longleftrightarrow> (\<forall>n. 0 \<le> n \<and> n \<le> 2 ^ 53 \<longrightarrow> fl (of_int n) = of_int n)"

lemma exact_integersD: "exact_integers fl \<Longrightarrow> 0 \<le> n \<Longrightarrow> n \<le> 2 ^ 53 \<Longrightarrow> fl (of_int n) = of_int n"
  by (simp add: exact_integers_def)

lemma exact_zero: "exact_integers fl \<Longrightarrow> fl 0 = 0"
  using exact_integersD [of fl 0] by simp

lemma small_not_Max: "n \<le> 2 ^ 53 \<Longrightarrow> of_int n \<noteq> MaxFloat64"
proof
  assume n: "n \<le> 2 ^ 53" and "of_int n = MaxFloat64"
  then have "(of_int n :: rat) = of_int ((2 ^ 53 - 1) * 2 ^ 971)" by (simp add: MaxFloat64_def)
  then have "n = (2 ^ 53 - 1) * 2 ^ 971" by (simp only: of_int_eq_iff)
  with n show False by simp
qed

lemma RL_Allow_same_instant:
  assumes "exact_integers fl" and "rl_capacity r = of_int c" and "rl_tokens r = of_int k" and "rl_last r = now"
    and "0 \<le> k" and "k \<le> c" and "c \<le> 2 ^ 53"
  shows "RL_Allow fl now r = (0 < k, r\<lparr>rl_tokens := of_int (if 0 < k then k - 1 else 0)\<rparr>)"
proof -
  have "fl (of_int k) = of_int k" "fl (of_int (k - 1)) = of_int (k - 1)" if "0 < k"
    using assms that by (intro exact_integersD; simp)+
  moreover have "Seconds fl 0 = 0" using exact_zero [OF assms(1)] by (simp add: Seconds_def Let_def)
  moreover have "rl_capacity r \<noteq> MaxFloat64" using assms small_not_Max by metis
  ultimately show ?thesis
    using assms exact_zero [OF assms(1)]
    by (cases r) (auto simp: RL_Allow_def Let_def time_sub_def min_def)
qed

text \<open>The limiter: of any number of calls at one instant after its creation exactly the first \<open>n\<close> pass,
  where \<open>n\<close> is the configured rate (up to 2^53, rounding being exact on integers of this size); with a rate that is not positive every call passes.\<close>

theorem rate_limiter_burst:
  assumes "exact_integers fl" and "n \<le> 2 ^ 53"
  shows "fst (allow_run fl (replicate m now) (NewRateLimiter fl now n)) =
    (if n \<le> 0 then replicate m True else replicate (min m (nat n)) True @ replicate (m - nat n) False)"
proof (cases "n \<le> 0")
  case True
  then have "rl_capacity (NewRateLimiter fl now n) = MaxFloat64" by (simp add: NewRateLimiter_def)
  then have "fst (allow_run fl (replicate m now) (NewRateLimiter fl now n)) = replicate m True"
    by (induction m) (simp_all add: RL_Allow_def case_prod_beta)
  with True show ?thesis by simp
next
  case False
  have "fst (allow_run fl (replicate m now) r) = replicate (min m (nat k)) True @ replicate (m - nat k) False"
    if "rl_capacity r = of_int n" "rl_tokens r = of_int k" "rl_last r = now" "0 \<le> k" "k \<le> n" for r k
    using that
  proof (induction m arbitrary: r k)
    case (Suc m)
    note step = RL_Allow_same_instant [OF assms(1) Suc.prems assms(2)]
    show ?case
    proof (cases "0 < k")
      case True
      with Suc.IH [of "r\<lparr>rl_tokens := of_int (k - 1)\<rparr>" "k - 1"] Suc.prems step show ?thesis
        by (cases "nat k") (auto simp: case_prod_beta nat_diff_distrib)
    next
      case False
      with Suc.IH [of "r\<lparr>rl_tokens := 0\<rparr>" 0] Suc.prems step show ?thesis
        by (auto simp: case_prod_beta)
    qed
  qed simp
  from this [of "NewRateLimiter fl now n" n] False assms show ?thesis
    by (simp add: NewRateLimiter_def exact_integersD)
qed

theorem rate_limiter_burst_witness:
  "fst (allow_run id [7, 7, 7] (NewRateLimiter id 7 2)) = [True, True, False]"
  using rate_limiter_burst [of id 2 3 7] by (simp add: exact_integers_def numeral_3_eq_3 numeral_2_eq_2)

text \<open>A configuration that loads has only positive intervals, timeouts, thresholds and shard counts, a directory for the
  log and a sample ratio in (0, 1], and keeps every setting that was valid already.\<close>

theorem Load_normalises:
  assumes "Load (Inr cfg) = Inr c"
  shows "0 < cf_GossipInterval c \<and> 0 < cf_HeartbeatInterval c \<and> 0 < cf_HeartbeatTimeout c \<and>
    0 < cf_SnapshotIntervalSeconds c \<and> 0 < cf_SwimInterval c \<and> 0 < cf_SwimProbeTimeout c \<and>
    0 < cf_SwimSuspectToDead c \<and> 0 < cf_CounterShards c \<and> 0 < cf_ElectionInterval c \<and>
    cf_WALDir c \<noteq> '''' \<and> 0 < cf_TraceSampleRatio c \<and> cf_TraceSampleRatio c \<le> 1 \<and>
    cf_NodeID c = cf_NodeID cfg \<and> cf_SeedNodes c = cf_SeedNodes cfg \<and> cf_APIKey c = cf_APIKey cfg \<and>
    Load (Inr c) = Inr c"
proof -
  have c: "c = (case Load (Inr cfg) of Inr c \<Rightarrow> c)" using assms by simp
  have pos: "0 < cf_GossipInterval c" "0 < cf_HeartbeatInterval c" "0 < cf_HeartbeatTimeout c"
    "0 < cf_SnapshotIntervalSeconds c" "0 < cf_SwimInterval c" "0 < cf_SwimProbeTimeout c"
    "0 < cf_SwimSuspectToDead c" "0 < cf_CounterShards c" "0 < cf_ElectionInterval c" "cf_WALDir c \<noteq> ''''"
    "0 < cf_TraceSampleRatio c" "cf_TraceSampleRatio c \<le> 1" "cf_TraceEndpoint c \<noteq> ''''"
    unfolding c Load_def Let_def sum.case
    by (simp_all add: cf_keeps cf_positive default_other)
  have "cf_NodeID c = cf_NodeID cfg" "cf_SeedNodes c = cf_SeedNodes cfg" "cf_APIKey c = cf_APIKey cfg"
    unfolding c Load_def Let_def sum.case by (simp_all add: cf_keeps)
  moreover have "Load (Inr c) = Inr c" using pos by (simp add: Load_def default_to_def)
  ultimately show ?thesis using pos by blast
qed

definition sample_config :: Config where
  "sample_config = \<lparr>cf_NodeID = ''a'', cf_GRPCPort = 1, cf_MetricsPort = 2, cf_HTTPPort = 3, cf_AdvertiseAddress = '''',
     cf_SeedNodes = [], cf_GossipInterval = 0, cf_HeartbeatInterval = 0, cf_HeartbeatTimeout = 0, cf_PersistenceEnabled = False,
     cf_RedisAddr = '''', cf_RedisPassword = '''', cf_RedisDB = 0, cf_WALEnabled = True, cf_WALDir = '''',
     cf_SnapshotIntervalSeconds = 0, cf_SwimInterval = 0, cf_SwimProbeTimeout = 0, cf_SwimSuspectToDead = 0,
     cf_AuthEnabled = False, cf_APIKey = '''', cf_RateLimitPerSecond = 0, cf_CompressionEnabled = False,
     cf_TracingEnabled = False, cf_TraceEndpoint = '''', cf_TraceSampleRatio = 0, cf_CounterShards = 0,
     cf_NodePriority = 0, cf_ElectionInterval = 0\<rparr>"

theorem Load_normalises_witness:
  "\<exists>c. Load (Inr sample_config) = Inr c \<and> 0 < cf_HeartbeatTimeout c \<and> Load (Inr c) = Inr c"
proof -
  obtain c where c: "Load (Inr sample_config) = Inr c" by (simp add: Load_def Let_def)
  from Load_normalises [OF c] c show ?thesis by blast
qed

end
