(* ===== verification/Server_Main.thy ===== *)
theory Server_Main
  imports Admin Middleware
begin

text \<open>
  \<open>cmd/server/main.go\<close>: how a node is put together, how it joins the cluster and recovers the state from its seeds, and
  what its background loops do. The other goroutines of the node do not run during the bootstrap steps modelled here; the
  network is a record of outcomes for each dial and call.
\<close>

section \<open>Joining the cluster\<close>

record join_net =
  jn_dial :: "string \<Rightarrow> bool"
  jn_join :: "string \<Rightarrow> bool"
  jn_lists :: "string \<Rightarrow> JoinRequest \<Rightarrow> MemberList list"
  jn_eof :: "string \<Rightarrow> bool"

datatype join_error = Seed_unreachable string | Join_failed string | Join_stream_failed string

definition learn_member :: "pb_Member \<Rightarrow> Membership \<Rightarrow> Membership" where
  "learn_member member M =
     (let M = AddOrUpdateMemberStatus (pm_NodeId member) (pm_Address member) (StatusFromProto (pm_Status member))
                (time_of_unix (pm_LastHeartbeat member)) M
      in if 0 < sint (pm_Priority member) then SetPriority (pm_NodeId member) (pm_Priority member) M else M)"

definition learn_list :: "MemberList \<Rightarrow> Membership \<Rightarrow> Membership" where
  "learn_list memberList = fold learn_member (ml_Members memberList)"

text \<open>The loop over the seeds; \<open>lastErr\<close> is \<open>nil\<close> before the first one.\<close>

fun join_seeds ::
  "join_net \<Rightarrow> JoinRequest \<Rightarrow> string list \<Rightarrow> join_error option \<Rightarrow> Membership \<Rightarrow> join_error option \<times> Membership" where
  "join_seeds net req [] lastErr M = (lastErr, M)"
| "join_seeds net req (seedAddr # seeds) lastErr M =
     (if \<not> jn_dial net seedAddr then join_seeds net req seeds (Some (Seed_unreachable seedAddr)) M
      else if \<not> jn_join net seedAddr then join_seeds net req seeds (Some (Join_failed seedAddr)) M
      else
        (let lists = jn_lists net seedAddr req;
             M = fold learn_list lists M;
             joined = (lists \<noteq> []);
             lastErr = (if jn_eof net seedAddr then lastErr else Some (Join_stream_failed seedAddr))
         in if joined then (None, M) else join_seeds net req seeds lastErr M))"

definition joinCluster ::
  "join_net \<Rightarrow> go_time \<Rightarrow> string \<Rightarrow> string \<Rightarrow> string list \<Rightarrow> Membership \<Rightarrow> join_error option \<times> Membership" where
  "joinCluster net now nodeID localAddress seedNodes M =
     join_seeds net \<lparr>jr_NodeId = nodeID, jr_Address = localAddress, jr_StartupTime = unix_of_time now\<rparr> seedNodes None M"

section \<open>Seeds\<close>

definition unique_body :: "string \<Rightarrow> unit gomap \<times> string list \<Rightarrow> unit gomap \<times> string list" where
  "unique_body seed acc =
     (case acc of (seen, ordered) \<Rightarrow>
        (case fmlookup seen seed of
           Some _ \<Rightarrow> (seen, ordered) | None \<Rightarrow> (fmupd seed () seen, ordered @ [seed])))"

definition uniqueOrderedSeeds :: "string list \<Rightarrow> string list" where
  "uniqueOrderedSeeds seedNodes = snd (fold unique_body seedNodes (fmempty, []))"

definition rotateSeeds :: "string list \<Rightarrow> nat \<Rightarrow> string list" where
  "rotateSeeds seedNodes offset =
     (if length seedNodes = 0 then []
      else map (\<lambda>i. seedNodes ! ((offset + i) mod length seedNodes)) [0..<length seedNodes])"

definition pbToPNCounter :: "string \<Rightarrow> int64 gomap \<Rightarrow> int64 gomap \<Rightarrow> PNCounter" where
  "pbToPNCounter nodeID pos neg = PN_SetNegative neg (PN_SetPositive pos (NewPNCounter nodeID))"

section \<open>Recovery from the seeds\<close>

text \<open>Outcomes per attempt and seed: dial, opening the stream, sending, and the answer to the update sent.\<close>

record recover_net =
  rn_now :: "nat \<Rightarrow> string \<Rightarrow> go_time"
  rn_dial :: "nat \<Rightarrow> string \<Rightarrow> bool"
  rn_stream :: "nat \<Rightarrow> string \<Rightarrow> bool"
  rn_send :: "nat \<Rightarrow> string \<Rightarrow> bool"
  rn_recv :: "nat \<Rightarrow> string \<Rightarrow> StateUpdate \<Rightarrow> StateUpdate option"

datatype recover_error =
  No_seeds | Recovery_unreachable string | Recovery_stream_failed string | Recovery_send_failed string
  | Recovery_receive_failed string

definition recovery_update :: "go_time \<Rightarrow> string \<Rightarrow> CounterService \<Rightarrow> StateUpdate" where
  "recovery_update now nodeID s =
     \<lparr>su_FromNodeId = nodeID, su_PositiveState = PN_Positive (sv_counter s), su_NegativeState = PN_Negative (sv_counter s),
      su_VectorClock = VC_State (sv_clock s), su_Timestamp = unix_of_time now, su_Type = FULL_STATE,
      su_LastSyncVersion = 0, su_Membership = fmempty\<rparr>"

definition recover_merge :: "go_time \<Rightarrow> string \<Rightarrow> string \<Rightarrow> StateUpdate \<Rightarrow> CounterService \<Rightarrow> CounterService" where
  "recover_merge now nodeID localAddress answer s =
     (let remote = pbToPNCounter nodeID (su_PositiveState answer) (su_NegativeState answer);
          s = s\<lparr>sv_counter := PN_Merge (sv_counter s) remote\<rparr>;
          s = s\<lparr>sv_clock := VC_MergeMap (su_VectorClock answer) (sv_clock s)\<rparr>
      in s\<lparr>sv_cluster := map_option (AddOrUpdateMember nodeID localAddress True now) (sv_cluster s)\<rparr>)"

datatype visit = Recovered CounterService | Visit_failed recover_error | Empty_answer

definition recover_visit ::
  "recover_net \<Rightarrow> string \<Rightarrow> string \<Rightarrow> nat \<Rightarrow> string \<Rightarrow> CounterService \<Rightarrow> visit" where
  "recover_visit net nodeID localAddress attempt seedAddr s =
     (let now = rn_now net attempt seedAddr
      in if \<not> rn_dial net attempt seedAddr then Visit_failed (Recovery_unreachable seedAddr)
         else if \<not> rn_stream net attempt seedAddr then Visit_failed (Recovery_stream_failed seedAddr)
         else if \<not> rn_send net attempt seedAddr then Visit_failed (Recovery_send_failed seedAddr)
         else (case rn_recv net attempt seedAddr (recovery_update now nodeID s) of
             None \<Rightarrow> Visit_failed (Recovery_receive_failed seedAddr)
           | Some answer \<Rightarrow>
               if 0 < go_len (su_PositiveState answer) \<or> 0 < go_len (su_NegativeState answer) \<or>
                  0 < go_len (su_VectorClock answer)
               then Recovered (recover_merge now nodeID localAddress answer s)
               else Empty_answer))"

fun recover_seeds ::
  "recover_net \<Rightarrow> string \<Rightarrow> string \<Rightarrow> nat \<Rightarrow> string list \<Rightarrow> recover_error option \<Rightarrow> CounterService
   \<Rightarrow> recover_error option + CounterService" where
  "recover_seeds net nodeID localAddress attempt [] lastErr s = Inl lastErr"
| "recover_seeds net nodeID localAddress attempt (seedAddr # seeds) lastErr s =
     (case recover_visit net nodeID localAddress attempt seedAddr s of
        Recovered s' \<Rightarrow> Inr s'
      | Visit_failed e \<Rightarrow> recover_seeds net nodeID localAddress attempt seeds (Some e) s
      | Empty_answer \<Rightarrow> recover_seeds net nodeID localAddress attempt seeds lastErr s)"

abbreviation maxAttempts :: nat where "maxAttempts \<equiv> 5"

definition recovery_backoff :: "nat \<Rightarrow> duration" where
  "recovery_backoff attempt =
     (let backoff = 250 * millisecond * 2 ^ attempt in if 3 * second < backoff then 3 * second else backoff)"

text \<open>The loop over the attempts, with \<open>left\<close> of them to go; the list holds the sleeps between them.\<close>

fun recover_attempts ::
  "recover_net \<Rightarrow> string \<Rightarrow> string \<Rightarrow> string list \<Rightarrow> nat \<Rightarrow> nat \<Rightarrow> recover_error option \<Rightarrow> CounterService
   \<Rightarrow> recover_error option \<times> duration list \<times> CounterService" where
  "recover_attempts net nodeID localAddress uniqueSeeds attempt 0 lastErr s = (lastErr, [], s)"
| "recover_attempts net nodeID localAddress uniqueSeeds attempt (Suc left) lastErr s =
     (let orderedSeeds = rotateSeeds uniqueSeeds (attempt mod length uniqueSeeds)
      in (case recover_seeds net nodeID localAddress attempt orderedSeeds lastErr s of
            Inr s' \<Rightarrow> (None, [], s')
          | Inl lastErr \<Rightarrow>
              (case recover_attempts net nodeID localAddress uniqueSeeds (attempt + 1) left lastErr s of
                 (err, sleeps, s') \<Rightarrow>
                   (err, if attempt < maxAttempts - 1 then recovery_backoff attempt # sleeps else sleeps, s'))))"

definition recoverStateFromSeedNodes ::
  "recover_net \<Rightarrow> string \<Rightarrow> string \<Rightarrow> string list \<Rightarrow> CounterService
   \<Rightarrow> recover_error option \<times> duration list \<times> CounterService" where
  "recoverStateFromSeedNodes net nodeID localAddress seedNodes s =
     (let uniqueSeeds = uniqueOrderedSeeds seedNodes
      in if length uniqueSeeds = 0 then (Some No_seeds, [], s)
         else recover_attempts net nodeID localAddress uniqueSeeds 0 maxAttempts None s)"

section \<open>Putting a node together\<close>

record Node =
  nd_service :: CounterService
  nd_engine :: GossipEngine
  nd_admin :: AdminService
  nd_auth :: AuthInterceptor
  nd_limiter :: RateLimiter
  nd_swim :: SWIMConfig
  nd_localAddress :: string

text \<open>\<open>time.Duration(n) * time.Second\<close>, in 64 bits.\<close>

definition seconds :: "int \<Rightarrow> duration" where
  "seconds n = sint (word_of_int (n * second) :: int64)"

definition local_address :: "Config \<Rightarrow> string" where
  "local_address cfg =
     (let localAddress = cf_AdvertiseAddress cfg
      in if localAddress = '''' then ''localhost:'' @ decimal (cf_GRPCPort cfg) else localAddress)"

text \<open>
  Everything \<open>main\<close> builds before it starts the servers: \<open>db\<close> is the content of the Redis server and \<open>ping_ok\<close>
  whether it answers, \<open>fs\<close> the file system.
\<close>

definition build_node ::
  "service_env \<Rightarrow> (rat \<Rightarrow> rat) \<Rightarrow> bool \<Rightarrow> bool \<Rightarrow> redis \<Rightarrow> files \<Rightarrow> Config \<Rightarrow> Node" where
  "build_node ev fl ping_ok get_ok db fs cfg =
     (let localAddress = local_address cfg;
          store = (if cf_PersistenceEnabled cfg then (case NewRedisStore ping_ok of Inl _ \<Rightarrow> None | Inr _ \<Rightarrow> Some db) else None);
          walDir = (if cf_WALEnabled cfg then Some (cf_WALDir cfg) else None);
          s = startup ev get_ok (cf_NodeID cfg) (cf_GRPCPort cfg) (cf_CounterShards cfg) store walDir fs;
          M = AddMember (ev_now ev) (cf_NodeID cfg) localAddress (NewMembership (cf_NodeID cfg));
          s = SetCluster M s;
          bully = New \<lparr>bc_NodeID = cf_NodeID cfg, bc_Priority = word_of_int (cf_NodePriority cfg), bc_APIKey = cf_APIKey cfg,
                    bc_Compression = cf_CompressionEnabled cfg, bc_Interval = seconds (cf_ElectionInterval cfg),
                    bc_LeaderTimeout = seconds (cf_HeartbeatTimeout cfg)\<rparr>;
          s = SetBully bully s;
          s = SV_SetPriority (word_of_int (cf_NodePriority cfg)) s;
          g = NewGossipEngine (cf_NodeID cfg) (seconds (cf_GossipInterval cfg));
          g = GE_SetWAL (sv_wal s \<noteq> None) g;
          g = GE_SetClientConfig (cf_APIKey cfg) (cf_CompressionEnabled cfg) g;
          s = SetClientConfig (cf_APIKey cfg) (cf_CompressionEnabled cfg) s;
          s = SetOnReset s;
          a = AD_SetGossip (AD_SetCluster (AD_New (cf_NodeID cfg)));
          mc = \<lparr>mc_NodeID = cf_NodeID cfg, mc_AuthEnabled = cf_AuthEnabled cfg, mc_APIKey = cf_APIKey cfg,
                mc_RateLimitPerSecond = cf_RateLimitPerSecond cfg\<rparr>;
          swim = NewSWIMDetector \<lparr>sw_NodeID = cf_NodeID cfg, sw_APIKey = cf_APIKey cfg,
                   sw_Compression = cf_CompressionEnabled cfg, sw_ProtocolPeriod = seconds (cf_SwimInterval cfg),
                   sw_ProbeTimeout = seconds (cf_SwimProbeTimeout cfg), sw_SuspectToDeadThreshold = cf_SwimSuspectToDead cfg\<rparr>
      in \<lparr>nd_service = s, nd_engine = g, nd_admin = a, nd_auth = NewAuthInterceptor mc,
          nd_limiter = NewRateLimitInterceptor fl (ev_now ev) mc, nd_swim = swim, nd_localAddress = localAddress\<rparr>)"

text \<open>The bootstrap: join the cluster, then recover, with the recovering flag up meanwhile.\<close>

definition bootstrap :: "join_net \<Rightarrow> recover_net \<Rightarrow> go_time \<Rightarrow> string list \<Rightarrow> Node \<Rightarrow> Node" where
  "bootstrap jnet rnet now seedNodes nd =
     (let s = nd_service nd;
          nodeID = sv_nodeID s;
          s = s\<lparr>sv_cluster := map_option (\<lambda>M. snd (joinCluster jnet now nodeID (nd_localAddress nd) seedNodes M)) (sv_cluster s)\<rparr>;
          s = s\<lparr>sv_cluster := map_option (SetRecovering True) (sv_cluster s)\<rparr>;
          s = snd (snd (recoverStateFromSeedNodes rnet nodeID (nd_localAddress nd) seedNodes s));
          s = s\<lparr>sv_cluster := map_option (SetRecovering False) (sv_cluster s)\<rparr>
      in nd\<lparr>nd_service := s\<rparr>)"

text \<open>The interval of \<open>runSnapshotLoop\<close>; each tick is a \<open>Snapshot\<close>.\<close>

definition snapshot_interval :: "duration \<Rightarrow> duration" where
  "snapshot_interval interval = (if interval \<le> 0 then 30 * second else interval)"

section \<open>Learning members\<close>

lemma learn_member_lookup:
  "\<exists>m'. fmlookup (members (learn_member p M)) (pm_NodeId p) = Some m' \<and> m_Address m' = pm_Address p \<and>
     (StatusFromProto (pm_Status p) = StatusAlive \<or> fmlookup (members M) (pm_NodeId p) = None \<longrightarrow>
        m_Status m' = StatusFromProto (pm_Status p))"
  by (simp add: learn_member_def AddOrUpdateMemberStatus_def Let_def setStatus_def SetPriority_def split: option.split)

lemma learn_member_other: "i \<noteq> pm_NodeId p \<Longrightarrow> fmlookup (members (learn_member p M)) i = fmlookup (members M) i"
  by (simp add: learn_member_def AddOrUpdateMemberStatus_def Let_def setStatus_def SetPriority_def split: option.split)

lemma learn_member_nodeID [simp]: "mb_nodeID (learn_member p M) = mb_nodeID M"
  by (simp add: learn_member_def Let_def SetPriority_def with_member_def split: option.split)

lemma learn_member_ok: "membership_ok M \<Longrightarrow> membership_ok (learn_member p M)"
  using membership_step_ok [OF membership_step.priority] AddOrUpdateMemberStatus_ok
  by (simp add: learn_member_def Let_def)

lemma fold_learn_other:
  "i \<notin> pm_NodeId ` set ps \<Longrightarrow> fmlookup (members (fold learn_member ps M)) i = fmlookup (members M) i"
  by (induction ps arbitrary: M) (simp_all add: learn_member_other)

lemma fold_learn_lookup:
  assumes "distinct (map pm_NodeId ps)" and "p \<in> set ps"
  shows "\<exists>m'. fmlookup (members (fold learn_member ps M)) (pm_NodeId p) = Some m' \<and> m_Address m' = pm_Address p \<and>
     (StatusFromProto (pm_Status p) = StatusAlive \<or> fmlookup (members M) (pm_NodeId p) = None \<longrightarrow>
        m_Status m' = StatusFromProto (pm_Status p))"
  using assms
proof (induction ps arbitrary: M)
  case (Cons q ps)
  show ?case
  proof (cases "p = q")
    case True
    with Cons.prems have "pm_NodeId p \<notin> pm_NodeId ` set ps" by simp
    with True learn_member_lookup [of q M] show ?thesis by (simp add: fold_learn_other)
  next
    case False
    with Cons.prems have "p \<in> set ps" "pm_NodeId p \<noteq> pm_NodeId q" "distinct (map pm_NodeId ps)" by (auto simp: rev_image_eqI)
    with Cons.IH [of "learn_member q M"] show ?thesis by (simp add: learn_member_other)
  qed
qed simp

lemma fold_learn_nodeID [simp]: "mb_nodeID (fold learn_member ps M) = mb_nodeID M"
  by (induction ps arbitrary: M) simp_all

lemma fold_learn_ok: "membership_ok M \<Longrightarrow> membership_ok (fold learn_member ps M)"
  by (induction ps arbitrary: M) (simp_all add: learn_member_ok)

lemma learn_lists_nodeID [simp]: "mb_nodeID (fold learn_list ls M) = mb_nodeID M"
  by (induction ls arbitrary: M) (simp_all add: learn_list_def)

lemma learn_lists_ok: "membership_ok M \<Longrightarrow> membership_ok (fold learn_list ls M)"
  by (induction ls arbitrary: M) (simp_all add: learn_list_def fold_learn_ok)

text \<open>The first seed that answers with a member list decides.\<close>

definition join_answers :: "join_net \<Rightarrow> JoinRequest \<Rightarrow> string \<Rightarrow> bool" where
  "join_answers net req seedAddr \<longleftrightarrow> jn_dial net seedAddr \<and> jn_join net seedAddr \<and> jn_lists net seedAddr req \<noteq> []"

lemma join_seeds_found:
  "find (join_answers net req) seeds = Some seedAddr \<Longrightarrow>
   join_seeds net req seeds lastErr M = (None, fold learn_list (jn_lists net seedAddr req) M)"
  by (induction seeds arbitrary: lastErr) (auto simp: join_answers_def Let_def split: if_splits)

lemma join_seeds_silent:
  "find (join_answers net req) seeds = None \<Longrightarrow> snd (join_seeds net req seeds lastErr M) = M"
  by (induction seeds arbitrary: lastErr) (auto simp: join_answers_def Let_def split: if_splits)

lemma joinCluster_cases:
  "\<exists>lists. snd (joinCluster net now nodeID addr seeds M) = fold learn_list lists M"
proof (cases "find (join_answers net \<lparr>jr_NodeId = nodeID, jr_Address = addr, jr_StartupTime = unix_of_time now\<rparr>) seeds")
  case None
  then show ?thesis by (intro exI [of _ "[]"]) (simp add: joinCluster_def join_seeds_silent)
next
  case (Some seedAddr)
  then show ?thesis by (auto simp: joinCluster_def join_seeds_found)
qed

lemma joinCluster_ok: "membership_ok M \<Longrightarrow> membership_ok (snd (joinCluster net now nodeID addr seeds M))"
  using joinCluster_cases [of net now nodeID addr seeds M] learn_lists_ok by auto

lemma joinCluster_nodeID [simp]: "mb_nodeID (snd (joinCluster net now nodeID addr seeds M)) = mb_nodeID M"
  using joinCluster_cases [of net now nodeID addr seeds M] by auto

section \<open>The order of the seeds\<close>

lemma unique_fold:
  "fmdom (fst (fold unique_body seeds (fmempty, []))) = fset_of_list seeds \<and>
   snd (fold unique_body seeds (fmempty, [])) = rev (remdups (rev seeds))"
proof (induction seeds rule: rev_induct)
  case (snoc x seeds)
  obtain seen ordered where f: "fold unique_body seeds (fmempty, []) = (seen, ordered)" by fastforce
  with snoc have s: "fmdom seen = fset_of_list seeds" "ordered = rev (remdups (rev seeds))" by simp_all
  show ?case
  proof (cases "fmlookup seen x")
    case None
    then have "x \<notin> set seeds" using s(1) by (metis fmdom_notI fset_of_list_elem)
    moreover have "unique_body x (seen, ordered) = (fmupd x () seen, ordered @ [x])" using None by (simp add: unique_body_def)
    ultimately show ?thesis by (simp add: f s fset_of_list_append)
  next
    case (Some u)
    then have "x \<in> set seeds" using s(1) by (metis fmdomI fset_of_list_elem)
    moreover have "unique_body x (seen, ordered) = (seen, ordered)" using Some by (simp add: unique_body_def)
    ultimately show ?thesis by (auto simp: f s fset_of_list_append fset_of_list_elem)
  qed
qed simp

lemma uniqueOrderedSeeds_eq: "uniqueOrderedSeeds seeds = rev (remdups (rev seeds))"
  using unique_fold [of seeds] by (simp add: uniqueOrderedSeeds_def)

lemma uniqueOrderedSeeds_set [simp]: "set (uniqueOrderedSeeds seeds) = set seeds"
  and uniqueOrderedSeeds_distinct [simp]: "distinct (uniqueOrderedSeeds seeds)"
  by (simp_all add: uniqueOrderedSeeds_eq)

lemma rotateSeeds_rotate: "rotateSeeds xs k = rotate k xs"
  by (rule nth_equalityI) (auto simp: rotateSeeds_def nth_rotate add.commute)

section \<open>Recovery, visit by visit\<close>

text \<open>The visits in their order: five attempts, each starting one seed further.\<close>

definition visits :: "string list \<Rightarrow> nat \<Rightarrow> nat \<Rightarrow> (nat \<times> string) list" where
  "visits seeds attempt left =
     concat (map (\<lambda>a. map (Pair a) (rotateSeeds seeds (a mod length seeds))) [attempt..<attempt + left])"

text \<open>The answer of a visit that recovers.\<close>

definition useful :: "recover_net \<Rightarrow> string \<Rightarrow> CounterService \<Rightarrow> nat \<times> string \<Rightarrow> StateUpdate option" where
  "useful net nodeID s v =
     (case v of (a, seedAddr) \<Rightarrow>
        if rn_dial net a seedAddr \<and> rn_stream net a seedAddr \<and> rn_send net a seedAddr
        then (case rn_recv net a seedAddr (recovery_update (rn_now net a seedAddr) nodeID s) of
            None \<Rightarrow> None
          | Some r \<Rightarrow> if su_PositiveState r = fmempty \<and> su_NegativeState r = fmempty \<and> su_VectorClock r = fmempty
                      then None else Some r)
        else None)"

lemma go_len_pos [simp]: "0 < go_len m \<longleftrightarrow> m \<noteq> fmempty"
  by (metis go_len_zero neq0_conv)

lemma recover_visit_useful:
  "recover_visit net nodeID addr a seedAddr s = Recovered s' \<longleftrightarrow>
     (\<exists>r. useful net nodeID s (a, seedAddr) = Some r \<and> s' = recover_merge (rn_now net a seedAddr) nodeID addr r s)"
  by (auto simp: recover_visit_def useful_def Let_def split: option.splits if_splits)

lemma recover_visit_other:
  assumes "useful net nodeID s (a, seedAddr) = None"
  shows "\<exists>lastErr'. recover_seeds net nodeID addr a (seedAddr # seeds) lastErr s =
    recover_seeds net nodeID addr a seeds lastErr' s"
  using recover_visit_useful [of net nodeID addr a seedAddr s] assms
  by (cases "recover_visit net nodeID addr a seedAddr s") auto

lemma recover_seeds_found:
  "find (\<lambda>v. useful net nodeID s v \<noteq> None) (map (Pair a) seeds) = Some v \<Longrightarrow>
   recover_seeds net nodeID addr a seeds lastErr s =
     Inr (recover_merge (rn_now net a (snd v)) nodeID addr (the (useful net nodeID s v)) s)"
proof (induction seeds arbitrary: lastErr)
  case (Cons x seeds)
  show ?case
  proof (cases "useful net nodeID s (a, x)")
    case None
    with Cons show ?thesis using recover_visit_other [OF None, of addr seeds lastErr] by (auto simp del: recover_seeds.simps)
  next
    case (Some r)
    then have "recover_visit net nodeID addr a x s = Recovered (recover_merge (rn_now net a x) nodeID addr r s)"
      by (simp add: recover_visit_useful)
    with Some Cons.prems show ?thesis by auto
  qed
qed simp

lemma recover_seeds_none:
  "find (\<lambda>v. useful net nodeID s v \<noteq> None) (map (Pair a) seeds) = None \<Longrightarrow>
   \<exists>e. recover_seeds net nodeID addr a seeds lastErr s = Inl e"
proof (induction seeds arbitrary: lastErr)
  case (Cons x seeds)
  then have None: "useful net nodeID s (a, x) = None" by (auto split: if_splits)
  with Cons show ?case using recover_visit_other [OF None, of addr seeds lastErr]
    by (auto simp del: recover_seeds.simps split: if_splits)
qed simp

lemma visits_Suc:
  "visits seeds a (Suc left) = map (Pair a) (rotateSeeds seeds (a mod length seeds)) @ visits seeds (Suc a) left"
  by (simp add: visits_def upt_rec)

lemma find_append: "find P (xs @ ys) = (case find P xs of None \<Rightarrow> find P ys | Some x \<Rightarrow> Some x)"
  by (induction xs) auto

lemma recover_attempts_useful:
  assumes "a + left = maxAttempts"
  shows "case find (\<lambda>v. useful net nodeID s v \<noteq> None) (visits seeds a left) of
      None \<Rightarrow> snd (recover_attempts net nodeID addr seeds a left lastErr s) = (map recovery_backoff [a..<maxAttempts - 1], s)
    | Some v \<Rightarrow> recover_attempts net nodeID addr seeds a left lastErr s =
        (None, map recovery_backoff [a..<fst v], recover_merge (rn_now net (fst v) (snd v)) nodeID addr (the (useful net nodeID s v)) s) \<and>
        a \<le> fst v \<and> fst v < maxAttempts"
  using assms
proof (induction left arbitrary: a lastErr)
  case 0
  then show ?case by (simp add: visits_def)
next
  case (Suc left)
  let ?seeds = "rotateSeeds seeds (a mod length seeds)"
  show ?case
  proof (cases "find (\<lambda>v. useful net nodeID s v \<noteq> None) (map (Pair a) ?seeds)")
    case (Some v)
    then have "fst v = a" by (auto simp: find_Some_iff)
    with Some Suc.prems show ?thesis
      using recover_seeds_found [OF Some, of addr lastErr] by (simp add: visits_Suc find_append Let_def)
  next
    case None
    then obtain e where e: "recover_seeds net nodeID addr a ?seeds lastErr s = Inl e"
      using recover_seeds_none [OF None] by blast
    from Suc.prems have "a < maxAttempts" "Suc a + left = maxAttempts" by simp_all
    with Suc.IH [of "Suc a" e] None e show ?thesis
      by (auto simp: visits_Suc find_append Let_def upt_conv_Cons split: option.splits prod.splits)
  qed
qed

lemma recover_merge_state [simp]: "state_of (recover_merge now nodeID addr r s) = crdt_merge (state_of s) (update_state r)"
  by (simp add: recover_merge_def Let_def pbToPNCounter_def state_of_def crdt_merge_def update_state_def pn_defs vc_defs)

lemma recover_merge_frame [simp]:
  "sv_files (recover_merge now nodeID addr r s) = sv_files s" "sv_store (recover_merge now nodeID addr r s) = sv_store s"
  "sv_wal (recover_merge now nodeID addr r s) = sv_wal s" "sv_nodeID (recover_merge now nodeID addr r s) = sv_nodeID s"
  "sv_bully (recover_merge now nodeID addr r s) = sv_bully s" "sv_onReset (recover_merge now nodeID addr r s) = sv_onReset s"
  by (simp_all add: recover_merge_def Let_def)

lemma recover_cases:
  assumes "seedNodes \<noteq> []"
  shows "case find (\<lambda>v. useful net nodeID s v \<noteq> None) (visits (uniqueOrderedSeeds seedNodes) 0 maxAttempts) of
      None \<Rightarrow> snd (recoverStateFromSeedNodes net nodeID addr seedNodes s) = (map recovery_backoff [0..<maxAttempts - 1], s)
    | Some v \<Rightarrow> recoverStateFromSeedNodes net nodeID addr seedNodes s =
        (None, map recovery_backoff [0..<fst v], recover_merge (rn_now net (fst v) (snd v)) nodeID addr (the (useful net nodeID s v)) s) \<and>
        fst v < maxAttempts"
proof -
  have "uniqueOrderedSeeds seedNodes \<noteq> []" using assms uniqueOrderedSeeds_set [of seedNodes] by (metis set_empty)
  then have "recoverStateFromSeedNodes net nodeID addr seedNodes s =
      recover_attempts net nodeID addr (uniqueOrderedSeeds seedNodes) 0 maxAttempts None s"
    by (simp add: recoverStateFromSeedNodes_def Let_def)
  then show ?thesis
    using recover_attempts_useful [where a = 0 and left = maxAttempts and net = net and nodeID = nodeID and s = s
        and seeds = "uniqueOrderedSeeds seedNodes" and addr = addr and lastErr = None]
    by (cases "find (\<lambda>v. useful net nodeID s v \<noteq> None) (visits (uniqueOrderedSeeds seedNodes) 0 maxAttempts)") simp_all
qed

text \<open>Attempt \<open>a\<close> visits at position \<open>i\<close> the seed at index \<open>a + i\<close>, counted around.\<close>

lemma visits_attempt:
  assumes "i < length seeds"
  shows "map (Pair a) (rotateSeeds seeds (a mod length seeds)) ! i = (a, seeds ! ((a + i) mod length seeds))"
  using assms by (auto simp: rotateSeeds_def mod_add_left_eq)

lemma length_rotateSeeds [simp]: "length (rotateSeeds seeds k) = length seeds"
  by (simp add: rotateSeeds_def)

lemma visits_cover:
  "set (visits seeds b n) = {(a, seeds ! ((a + i) mod length seeds)) | a i. b \<le> a \<and> a < b + n \<and> i < length seeds}"
proof -
  have "set (map (Pair a) (rotateSeeds seeds (a mod length seeds))) = {(a, seeds ! ((a + i) mod length seeds)) | i. i < length seeds}" for a
    by (auto simp: rotateSeeds_def mod_add_left_eq)
  moreover have "set (visits seeds b n) = (\<Union>a \<in> {b..<b + n}. set (map (Pair a) (rotateSeeds seeds (a mod length seeds))))"
    by (simp add: visits_def)
  ultimately show ?thesis by (simp del: set_map) auto
qed

lemma visits_append: "visits seeds a (m + n) = visits seeds a m @ visits seeds (a + m) n"
proof -
  have "[a..<a + (m + n)] = [a..<a + m] @ [a + m..<a + m + n]" using upt_add_eq_append [of a "a + m" n] by (simp add: add.assoc)
  then show ?thesis by (simp add: visits_def)
qed

lemma find_first_visit:
  assumes "a < maxAttempts" and i: "i < length seeds" and P: "P (a, seeds ! ((a + i) mod length seeds))"
    and none: "\<And>b j. j < length seeds \<Longrightarrow> b < a \<or> b = a \<and> j < i \<Longrightarrow> \<not> P (b, seeds ! ((b + j) mod length seeds))"
  shows "find P (visits seeds 0 maxAttempts) = Some (a, seeds ! ((a + i) mod length seeds))"
proof -
  have "maxAttempts = a + Suc (4 - a)" using assms(1) by simp
  then have vs: "visits seeds 0 maxAttempts =
      visits seeds 0 a @ map (Pair a) (rotateSeeds seeds (a mod length seeds)) @ visits seeds (Suc a) (4 - a)"
    using visits_append [of seeds 0 a "Suc (4 - a)"] visits_Suc [of seeds a "4 - a"] by simp
  have "find P (visits seeds 0 a) = None" unfolding find_None_iff visits_cover using none by auto
  moreover have "find P (map (Pair a) (rotateSeeds seeds (a mod length seeds))) = Some (a, seeds ! ((a + i) mod length seeds))"
    unfolding find_Some_iff using i P none visits_attempt [of _ seeds a]
    by (intro exI [of _ i]) (auto simp del: nth_map)
  ultimately show ?thesis unfolding vs by (simp add: find_append)
qed

lemma recovery_sleeps: "sum_list (map recovery_backoff [0..<a]) \<le> 3750 * millisecond" if "a < maxAttempts"
proof -
  from that have "a = 0 \<or> a = 1 \<or> a = 2 \<or> a = 3 \<or> a = 4" by auto
  then show ?thesis by (elim disjE) (simp_all add: recovery_backoff_def eval_nat_numeral)
qed

section \<open>Properties\<close>

text \<open>C21: recovery takes the first answer that carries any state: with the configured seeds in their order, each counted once, it makes
  at most five attempts, the attempt \<open>a\<close> going around the seeds from the one at index \<open>a\<close>. If a visit gets an answer that is
  not empty and all visits before it, in this order, get none, exactly that answer is merged into the counter and the clock, the call
  succeeds, and it has slept the backoffs of the attempts before; if there is no such visit, the node is left as it was. The sleeps
  add up to at most 3.75 seconds, and nothing is written to the log or the store.\<close>

theorem recovery_spec:
  assumes "recoverStateFromSeedNodes net nodeID addr seedNodes s = (err, sleeps, s')" and "seedNodes \<noteq> []"
    and seeds_def: "seeds = rev (remdups (rev seedNodes))"
    and seed_def: "seed = (\<lambda>a i. seeds ! ((a + i) mod length seeds))"
  shows "(\<forall>a i r. a < 5 \<and> i < length seeds \<and> useful net nodeID s (a, seed a i) = Some r \<and>
        (\<forall>b j. j < length seeds \<and> (b < a \<or> b = a \<and> j < i) \<longrightarrow> useful net nodeID s (b, seed b j) = None) \<longrightarrow>
      err = None \<and> s' = recover_merge (rn_now net a (seed a i)) nodeID addr r s \<and>
      state_of s' = crdt_merge (state_of s) (update_state r) \<and> sleeps = map recovery_backoff [0..<a]) \<and>
    ((\<forall>a i. a < 5 \<and> i < length seeds \<longrightarrow> useful net nodeID s (a, seed a i) = None) \<longrightarrow>
      s' = s \<and> sleeps = map recovery_backoff [0..<4]) \<and>
    sum_list sleeps \<le> 3750 * millisecond \<and>
    sv_files s' = sv_files s \<and> sv_wal s' = sv_wal s \<and> sv_store s' = sv_store s"
proof -
  note cases = recover_cases [OF assms(2), where net = net and nodeID = nodeID and s = s and addr = addr, unfolded assms(1)
      uniqueOrderedSeeds_eq, folded seeds_def]
  let ?P = "\<lambda>v. useful net nodeID s v \<noteq> None"
  have found: "err = None \<and> s' = recover_merge (rn_now net a (seed a i)) nodeID addr r s \<and>
      state_of s' = crdt_merge (state_of s) (update_state r) \<and> sleeps = map recovery_backoff [0..<a]"
    if "a < 5 \<and> i < length seeds \<and> useful net nodeID s (a, seed a i) = Some r \<and>
      (\<forall>b j. j < length seeds \<and> (b < a \<or> b = a \<and> j < i) \<longrightarrow> useful net nodeID s (b, seed b j) = None)" for a i r
    using cases find_first_visit [of a i seeds ?P] that unfolding seed_def by simp
  have none: "s' = s \<and> sleeps = map recovery_backoff [0..<4]"
    if "\<forall>a i. a < 5 \<and> i < length seeds \<longrightarrow> useful net nodeID s (a, seed a i) = None"
  proof -
    have "find ?P (visits seeds 0 maxAttempts) = None" unfolding find_None_iff visits_cover using that by (auto simp: seed_def)
    with cases show ?thesis by simp
  qed
  have rest: "sum_list sleeps \<le> 3750 * millisecond \<and> sv_files s' = sv_files s \<and> sv_wal s' = sv_wal s \<and> sv_store s' = sv_store s"
    using cases recovery_sleeps by (auto split: option.splits)
  show ?thesis
  proof (rule conjI [OF _ conjI [OF _ rest]], intro allI impI)
    fix a i r
    assume "a < 5 \<and> i < length seeds \<and> useful net nodeID s (a, seed a i) = Some r \<and>
      (\<forall>b j. j < length seeds \<and> (b < a \<or> b = a \<and> j < i) \<longrightarrow> useful net nodeID s (b, seed b j) = None)"
    then show "err = None \<and> s' = recover_merge (rn_now net a (seed a i)) nodeID addr r s \<and>
      state_of s' = crdt_merge (state_of s) (update_state r) \<and> sleeps = map recovery_backoff [0..<a]" by (rule found)
  qed (rule impI, rule none)
qed

text \<open>C20: a restarted node catches up with the seed whose answer it takes: when a visit reaches its seed, the seed handles the recovery
  update as every service does, its answer is not empty and no visit before it got such an answer, whatever other seeds there are
  and however often they failed, the call succeeds, the seed holds the merge of both states and the node has merged that into its own;
  the two agree on every count and clock entry above zero. If all counts and clock entries of both were positive, which holds
  when no request carried a negative delta and nothing overflowed, they hold the same state and report the same value for every counter.\<close>

theorem recovery_equals_seed:
  assumes "recoverStateFromSeedNodes net nodeID addr seedNodes s = (err, sleeps, s')"
    and seeds_def: "seeds = rev (remdups (rev seedNodes))"
    and seed_def: "seed = (\<lambda>a i. seeds ! ((a + i) mod length seeds))"
    and "a < 5" and "i < length seeds"
    and earlier: "\<And>b j. j < length seeds \<Longrightarrow> b < a \<or> b = a \<and> j < i \<Longrightarrow> useful net nodeID s (b, seed b j) = None"
    and reached: "rn_dial net a (seed a i)" "rn_stream net a (seed a i)" "rn_send net a (seed a i)"
    and u_def: "u = recovery_update (rn_now net a (seed a i)) nodeID s"
    and recv: "rn_recv net a (seed a i) u = fst (SyncState_recv ev u B)"
    and B'_def: "B' = snd (SyncState_recv ev u B)" and "state_of B' \<noteq> ((fmempty, fmempty), fmempty)"
  shows "err = None \<and> state_of B' = crdt_merge (state_of B) (state_of s) \<and>
    state_of s' = crdt_merge (state_of s) (state_of B') \<and>
    shown_state (state_of s') = shown_state (state_of B') \<and>
    (crdt_ok (state_of s) \<and> crdt_ok (state_of B) \<longrightarrow>
      state_of s' = state_of B' \<and> PN_ValueName name (sv_counter s') = PN_ValueName name (sv_counter B'))"
proof -
  have u: "su_Type u = FULL_STATE" "update_state u = state_of s"
    by (simp_all add: u_def recovery_update_def update_state_def state_of_def pn_defs vc_defs)
  obtain r where r: "rn_recv net a (seed a i) u = Some r" "update_state r = state_of B'"
    using full_reply [OF u(1), of ev B] recv B'_def by auto
  have "useful net nodeID s (a, seed a i) = Some r"
    using reached r assms(13) by (auto simp: useful_def u_def update_state_def)
  with find_first_visit [of a i seeds "\<lambda>v. useful net nodeID s v \<noteq> None"] earlier assms(4,5)
  have found: "find (\<lambda>v. useful net nodeID s v \<noteq> None) (visits seeds 0 maxAttempts) = Some (a, seed a i)"
    by (simp add: seed_def)
  have "seedNodes \<noteq> []" using assms(5) seeds_def by auto
  from recover_cases [OF this, where net = net and nodeID = nodeID and s = s and addr = addr, unfolded assms(1)
      uniqueOrderedSeeds_eq, folded seeds_def]
  have s': "err = None" "state_of s' = crdt_merge (state_of s) (state_of B')"
    using found \<open>useful net nodeID s (a, seed a i) = Some r\<close> r(2) by simp_all
  have B: "state_of B' = crdt_merge (state_of B) (state_of s)" using state_of_recv [of u ev B] u B'_def by simp
  with s' crdt_absorb [of "state_of s" "state_of B"] value_of_state [of s' B' name] show ?thesis
    by (auto simp: crdt_shown.img_absorb)
qed

definition sample_recover_net :: "StateUpdate option \<Rightarrow> recover_net" where
  "sample_recover_net r = \<lparr>rn_now = \<lambda>_ _. 7, rn_dial = \<lambda>_ x. x = ''seed'', rn_stream = \<lambda>_ _. True, rn_send = \<lambda>_ _. True,
     rn_recv = \<lambda>_ _ _. r\<rparr>"

theorem recovery_spec_witness:
  "snd (snd (recoverStateFromSeedNodes (sample_recover_net None) ''a'' ''here'' [''seed'', ''other''] (sample_cluster 0))) = sample_cluster 0"
proof -
  obtain err sleeps s' where r: "recoverStateFromSeedNodes (sample_recover_net None) ''a'' ''here'' [''seed'', ''other''] (sample_cluster 0) =
    (err, sleeps, s')" by (metis prod_cases3)
  have "useful (sample_recover_net None) ''a'' (sample_cluster 0) v = None" for v
    by (cases v) (simp add: useful_def sample_recover_net_def)
  with recovery_spec [OF r _ refl refl] r show ?thesis by simp
qed

text \<open>The second seed is the first that answers, in the first attempt.\<close>

theorem recovery_equals_seed_witness:
  "\<exists>r s'. snd (snd (recoverStateFromSeedNodes (sample_recover_net r) ''a'' ''here'' [''gone'', ''seed'', ''gone''] (sample_cluster 0))) = s' \<and>
     state_of s' = crdt_merge (state_of (sample_cluster 1)) (state_of (sample_cluster 0))"
proof -
  let ?u = "recovery_update 7 ''a'' (sample_cluster 0)" and ?seeds = "[''gone'', ''seed'']"
  let ?B = "snd (SyncState_recv sample_env ?u (sample_cluster 1))"
  let ?net = "sample_recover_net (fst (SyncState_recv sample_env ?u (sample_cluster 1)))"
  obtain err sleeps s' where r: "recoverStateFromSeedNodes ?net ''a'' ''here'' [''gone'', ''seed'', ''gone''] (sample_cluster 0) = (err, sleeps, s')"
    by (metis prod_cases3)
  have seeds: "?seeds = rev (remdups (rev [''gone'', ''seed'', ''gone'']))" by simp
  have none: "useful ?net ''a'' (sample_cluster 0) (b, ?seeds ! ((b + j) mod length ?seeds)) = None"
    if "j < length ?seeds" "b < 0 \<or> b = 0 \<and> j < 1" for b j
    using that by (simp add: useful_def sample_recover_net_def)
  have "clock (sv_clock ?B) \<noteq> fmempty" by code_simp
  then have B: "state_of ?B \<noteq> ((fmempty, fmempty), fmempty)" by (simp add: state_of_def)
  have "err = None \<and> state_of ?B = crdt_merge (state_of (sample_cluster 1)) (state_of (sample_cluster 0)) \<and>
    state_of s' = crdt_merge (state_of (sample_cluster 0)) (state_of ?B) \<and> shown_state (state_of s') = shown_state (state_of ?B) \<and>
    (crdt_ok (state_of (sample_cluster 0)) \<and> crdt_ok (state_of (sample_cluster 1)) \<longrightarrow>
      state_of s' = state_of ?B \<and> PN_ValueName ''likes'' (sv_counter s') = PN_ValueName ''likes'' (sv_counter ?B))"
    by (rule recovery_equals_seed [OF r seeds refl, where a = 0 and i = 1 and u = ?u and ev = sample_env])
      (use none B in \<open>simp_all add: sample_recover_net_def\<close>)
  with sample_cluster_ok have "state_of s' = crdt_merge (state_of (sample_cluster 1)) (state_of (sample_cluster 0))" by metis
  with r show ?thesis by (metis snd_conv)
qed

section \<open>Joining through a seed\<close>

lemma StatusFromProto_ToProto [simp]: "StatusFromProto (ToProto s) = s"
  by (cases s) simp_all

lemma pb_member_fields [simp]:
  "pm_NodeId (pb_member_of m) = m_ID m" "pm_Address (pb_member_of m) = m_Address m" "pm_Status (pb_member_of m) = ToProto (m_Status m)"
  by (simp_all add: pb_member_of_def)

lemma JoinCluster_list:
  assumes "sv_cluster B = Some MB" and "MB' = AddMember (ev_now ev) (jr_NodeId req) (jr_Address req) MB"
  shows "sv_cluster (snd (JoinCluster ev req B)) = Some MB' \<and>
    ml_Members (fst (JoinCluster ev req B)) = map pb_member_of (GetMembers MB')"
proof -
  have "GetMembers MB' \<noteq> []"
  proof -
    obtain m where "fmlookup (members MB') (jr_NodeId req) = Some m"
      using lookup_AddOrUpdateMember_alive assms(2) unfolding AddMember_def by blast
    then have "m \<in> set (GetMembers MB')" by (auto simp: set_GetMembers)
    then show ?thesis by auto
  qed
  with assms show ?thesis by (simp add: JoinCluster_def Let_def)
qed

text \<open>C22: what a join makes known: when the first seed that can be reached handles the join request, the call succeeds, the seed has
  the new node as an Alive member at its advertised address, and the new node has every member that the seed knows, itself
  included, at the address the seed has for it, the members that are new to it with the seed's status. The other members hear of
  the new node only later, through gossip and heartbeats.\<close>

theorem join_makes_known:
  assumes "seedNodes = unreachable @ seedAddr # rest" and "\<And>x. x \<in> set unreachable \<Longrightarrow> \<not> jn_dial net x"
    and "jn_dial net seedAddr" and "jn_join net seedAddr"
    and "req = \<lparr>jr_NodeId = nodeID, jr_Address = localAddress, jr_StartupTime = unix_of_time now\<rparr>"
    and "jn_lists net seedAddr req = [fst (JoinCluster ev req B)]"
    and "sv_cluster B = Some MB" and "membership_ok MB"
    and "joinCluster net now nodeID localAddress seedNodes M = (err, M')"
  shows "err = None \<and> (\<exists>MB'. sv_cluster (snd (JoinCluster ev req B)) = Some MB' \<and>
    (\<exists>m. fmlookup (members MB') nodeID = Some m \<and> m_Status m = StatusAlive \<and> m_Address m = localAddress) \<and>
    (\<forall>i m. fmlookup (members MB') i = Some m \<longrightarrow>
       (\<exists>m'. fmlookup (members M') i = Some m' \<and> m_Address m' = m_Address m \<and>
          (fmlookup (members M) i = None \<longrightarrow> m_Status m' = m_Status m))))"
proof -
  define MB' where "MB' = AddMember (ev_now ev) (jr_NodeId req) (jr_Address req) MB"
  note list = JoinCluster_list [OF assms(7) MB'_def]
  have "\<forall>x \<in> set unreachable. \<not> join_answers net req x" using assms(2) by (simp add: join_answers_def)
  then have "find (join_answers net req) unreachable = None" by (metis find_None_iff)
  then have "find (join_answers net req) seedNodes = Some seedAddr"
    using assms(1,3,4,6) by (simp add: find_append join_answers_def)
  with assms(5,6,9) have join: "err = None" "M' = learn_list (fst (JoinCluster ev req B)) M"
    by (simp_all add: joinCluster_def join_seeds_found)
  have ok: "membership_ok MB'"
    using assms(8) AddOrUpdateMemberStatus_ok by (simp add: MB'_def AddMember_def AddOrUpdateMember_def)
  have distinct: "distinct (map pm_NodeId (map pb_member_of (GetMembers MB')))"
    using GetMembers_distinct [OF ok] by (simp add: o_def)
  have known: "\<exists>m'. fmlookup (members M') i = Some m' \<and> m_Address m' = m_Address m \<and>
      (fmlookup (members M) i = None \<longrightarrow> m_Status m' = m_Status m)" if m: "fmlookup (members MB') i = Some m" for i m
  proof -
    have "m_ID m = i" "m \<in> set (GetMembers MB')" using membership_okD [OF ok m] m by (auto simp: member_ok_def set_GetMembers)
    with fold_learn_lookup [OF distinct, of "pb_member_of m" M] show ?thesis
      by (auto simp: join(2) learn_list_def list)
  qed
  moreover have "\<exists>m. fmlookup (members MB') nodeID = Some m \<and> m_Status m = StatusAlive \<and> m_Address m = localAddress"
    using lookup_AddOrUpdateMember_alive [of nodeID localAddress "ev_now ev" MB] assms(5) by (auto simp: MB'_def AddMember_def)
  ultimately show ?thesis using join(1) list by blast
qed

definition sample_join_net :: "MemberList \<Rightarrow> join_net" where
  "sample_join_net ml = \<lparr>jn_dial = \<lambda>x. x = ''seed'', jn_join = \<lambda>_. True, jn_lists = \<lambda>_ _. [ml], jn_eof = \<lambda>_. True\<rparr>"

theorem join_makes_known_witness:
  "\<exists>ml M'. joinCluster (sample_join_net ml) 7 ''c'' ''there'' [''gone'', ''seed''] (NewMembership ''c'') = (None, M') \<and>
     fmlookup (members M') ''b'' \<noteq> None"
proof -
  let ?req = "\<lparr>jr_NodeId = ''c'', jr_Address = ''there'', jr_StartupTime = unix_of_time 7\<rparr>"
  let ?B = "SetCluster sample_table (NewCounterService ''a'' 5000 fmempty)"
  let ?net = "sample_join_net (fst (JoinCluster sample_env ?req ?B))"
  obtain err M' where j: "joinCluster ?net 7 ''c'' ''there'' [''gone'', ''seed''] (NewMembership ''c'') = (err, M')" by fastforce
  have net: "jn_dial ?net ''seed''" "jn_join ?net ''seed''" "jn_lists ?net ''seed'' ?req = [fst (JoinCluster sample_env ?req ?B)]"
    "\<not> jn_dial ?net ''gone''" by (simp_all add: sample_join_net_def)
  have seeds: "[''gone'', ''seed''] = [''gone''] @ ''seed'' # []" by simp
  have B: "sv_cluster ?B = Some sample_table" by (simp add: SetCluster_def)
  obtain m where m: "fmlookup (members sample_table) ''b'' = Some m" using sample_table_lookup by blast
  have "fmlookup (members (AddMember (ev_now sample_env) ''c'' ''there'' sample_table)) ''b'' = Some m"
    using m by (simp add: AddMember_def AddOrUpdateMember_def AddOrUpdateMemberStatus_def Let_def split: option.split)
  with join_makes_known [OF seeds _ net(1,2) refl net(3) B sample_table_ok j] net(4) JoinCluster_list [OF B refl, of sample_env ?req]
  have "err = None" "fmlookup (members M') ''b'' \<noteq> None" by auto
  with j show ?thesis by blast
qed

end
