(* ===== verification/Node_Run.thy ===== *)
theory Node_Run
  imports Server_Main
begin

text \<open>
  A running node as a state machine: the handlers of its services and the ticks of its background loops, in any order,
  as \<open>main\<close> starts them. Each rule is one call; while an exchange of the gossip engine, a SWIM probe or an election waits
  for the network, other handlers may run.
\<close>

section \<open>Steps\<close>

text \<open>The RPC handlers that change the service.\<close>

inductive handler_step :: "CounterService \<Rightarrow> CounterService \<Rightarrow> bool" where
  increment: "handler_step s (snd (Increment ev ireq s))"
| decrement: "handler_step s (snd (Decrement ev dreq s))"
| create: "handler_step s (snd (CreateCounter name tags s))"
| coordinator: "handler_step s (snd (SV_Coordinator ev creq s))"
| join: "handler_step s (snd (JoinCluster ev jreq s))"
| heartbeat: "handler_step s (snd (Heartbeat remote hreq s))"
| sync: "handler_step s (snd (SyncState_recv ev u s))"

text \<open>An announcement that arrives while an election waits.\<close>

inductive announcement :: "Bully \<Rightarrow> Bully \<Rightarrow> bool" where
  announcement: "announcement b (snd (HandleCoordinator now creq b))"

text \<open>What the other loops and handlers do to the member table meanwhile.\<close>

abbreviation table_run :: "Membership \<Rightarrow> Membership \<Rightarrow> bool" where
  "table_run \<equiv> membership_step\<^sup>*\<^sup>*"

definition on_table :: "(Membership \<Rightarrow> Membership) \<Rightarrow> Node \<Rightarrow> Node" where
  "on_table f nd = nd\<lparr>nd_service := (nd_service nd)\<lparr>sv_cluster := map_option f (sv_cluster (nd_service nd))\<rparr>\<rparr>"

text \<open>What other goroutines do to the service while a gossip exchange waits for the network: handlers, resets, snapshots, steps of the member
  table and of the election.\<close>

inductive service_step :: "CounterService \<Rightarrow> CounterService \<Rightarrow> bool" where
  handled: "handler_step s s' \<Longrightarrow> service_step s s'"
| reset_meanwhile: "Reset ev name s = (resp, called, s') \<Longrightarrow> service_step s s'"
| snapshot_meanwhile: "service_step s (Snapshot ev s)"
| table_meanwhile: "sv_cluster s = Some M \<Longrightarrow> membership_step M M' \<Longrightarrow> service_step s (s\<lparr>sv_cluster := Some M'\<rparr>)"
| election_meanwhile: "sv_cluster s = Some M \<Longrightarrow> sv_bully s = Some b \<Longrightarrow> (\<And>b. announcement\<^sup>*\<^sup>* b (others b)) \<Longrightarrow>
    service_step s (s\<lparr>sv_bully := Some (fst (Run_tick reply ctx_done now M others b))\<rparr>)"

inductive node_step :: "Node \<Rightarrow> Node \<Rightarrow> bool" where
  handler: "handler_step (nd_service nd) s' \<Longrightarrow> node_step nd (nd\<lparr>nd_service := s'\<rparr>)"
| reset: "Reset ev name (nd_service nd) = (resp, called, s') \<Longrightarrow>
    node_step nd (nd\<lparr>nd_service := s', nd_engine := (if called then InvalidateBaselines (nd_engine nd) else nd_engine nd)\<rparr>)"
| snapshot: "node_step nd (nd\<lparr>nd_service := Snapshot ev (nd_service nd)\<rparr>)"
| add_node: "node_step nd (on_table (\<lambda>M. snd (AD_AddNode quote now i addr (nd_admin nd) M)) nd)"
| remove_node: "node_step nd (on_table (\<lambda>M. snd (AD_RemoveNode quote i (nd_admin nd) M)) nd)"
| force_sync: "sv_cluster (nd_service nd) = Some M \<Longrightarrow> AD_ForceSync (nd_admin nd) M (nd_engine nd) = (resp, g', launched) \<Longrightarrow>
    node_step nd (nd\<lparr>nd_engine := g'\<rparr>)"
| gossip_tick: "sv_cluster (nd_service nd) = Some M \<Longrightarrow> node_step nd (nd\<lparr>nd_engine := fst (gossip shuffle M (nd_engine nd))\<rparr>)"
| gossip_round: "service_step\<^sup>*\<^sup>* (nd_service nd) (others (nd_service nd)) \<Longrightarrow>
    gossipToPeer ev net others addr (nd_engine nd) (nd_service nd) = (result, g', s') \<Longrightarrow>
    node_step nd (nd\<lparr>nd_service := s', nd_engine := round_done addr g'\<rparr>)"
| heartbeats: "node_step nd (on_table (sendHeartbeats hnet now (sv_nodeID (nd_service nd)) (nd_localAddress nd) (sv_bully (nd_service nd))) nd)"
| failure_tick: "node_step nd (on_table (failure_tick now threshold) nd)"
| swim: "(\<And>M. table_run M (others' M)) \<Longrightarrow> node_step nd (on_table (swim_round sh sh' now pnet (nd_swim nd) others') nd)"
| election: "sv_cluster (nd_service nd) = Some M \<Longrightarrow> sv_bully (nd_service nd) = Some b \<Longrightarrow>
    (\<And>b. announcement\<^sup>*\<^sup>* b (others'' b)) \<Longrightarrow>
    node_step nd (nd\<lparr>nd_service := (nd_service nd)\<lparr>sv_bully := Some (fst (Run_tick reply ctx_done now M others'' b))\<rparr>\<rparr>)"
| contest: "sv_cluster (nd_service nd) = Some M \<Longrightarrow> sv_bully (nd_service nd) = Some b \<Longrightarrow>
    (\<And>b. announcement\<^sup>*\<^sup>* b (others'' b)) \<Longrightarrow>
    node_step nd (nd\<lparr>nd_service := (nd_service nd)\<lparr>sv_bully := Some (fst (StartElection reply ctx_done now M others'' b))\<rparr>\<rparr>)"
| call: "node_step nd (nd\<lparr>nd_limiter := snd (RL_Allow fl now (nd_limiter nd))\<rparr>)"
| learn: "node_step nd (on_table (learn_list memberList) nd)"
| recovering: "node_step nd (on_table (SetRecovering flag) nd)"
| recover: "node_step nd (nd\<lparr>nd_service := recover_merge now (sv_nodeID (nd_service nd)) (nd_localAddress nd) answer (nd_service nd)\<rparr>)"

text \<open>
  The states of a node that was built from a configuration. The servers listen before the node joins the cluster, so its
  handlers run from the start; \<open>learn\<close>, \<open>recovering\<close> and \<open>recover\<close> are what the bootstrap does between two waits for the
  network.
\<close>

inductive node_reachable :: "Config \<Rightarrow> Node \<Rightarrow> bool" for cfg where
  built: "node_reachable cfg (build_node ev fl ping_ok get_ok db fs cfg)"
| step: "node_reachable cfg nd \<Longrightarrow> node_step nd nd' \<Longrightarrow> node_reachable cfg nd'"

inductive_cases handler_stepE: "handler_step s s'"

section \<open>The invariant\<close>

text \<open>The parts of a node agree on who they are, the member table is well formed, and the engine logs exactly
  when the service does.\<close>

definition service_wired :: "string \<Rightarrow> CounterService \<Rightarrow> bool" where
  "service_wired i s \<longleftrightarrow> sv_nodeID s = i \<and> pn_nodeID (sv_counter s) = i \<and> sv_onReset s \<and>
     (\<exists>M. sv_cluster s = Some M \<and> membership_ok M \<and> mb_nodeID M = i) \<and>
     (\<exists>b. sv_bully s = Some b \<and> b_nodeID b = i \<and> b_priority b = sv_priority s)"

definition node_ok :: "string \<Rightarrow> Node \<Rightarrow> bool" where
  "node_ok i nd \<longleftrightarrow> service_wired i (nd_service nd) \<and> ge_nodeID (nd_engine nd) = i \<and>
     (ge_hasWAL (nd_engine nd) \<longleftrightarrow> sv_wal (nd_service nd) \<noteq> None) \<and>
     ad_nodeID (nd_admin nd) = i \<and> ad_hasMembership (nd_admin nd) \<and> ad_hasGossip (nd_admin nd)"

section \<open>The member table\<close>

lemma membership_step_nodeID: "membership_step M M' \<Longrightarrow> mb_nodeID M' = mb_nodeID M"
proof (induction rule: membership_step.induct)
  case (discovered M now nodes)
  have "mb_nodeID (fold (\<lambda>(i, addr) M. if i = mb_nodeID M then M else AddMember now i addr M) xs M) = mb_nodeID M" for xs
    by (induction xs arbitrary: M) (auto simp: AddMember_def AddOrUpdateMember_def)
  then show ?case by (simp add: AddDiscoveredNodes_def go_range_def)
qed (simp_all add: member_defs with_member_def MarkStale_eq SetRecovering_def ApplyMembership_def split: option.split)

definition table_ok :: "string \<Rightarrow> Membership \<Rightarrow> bool" where
  "table_ok i M \<longleftrightarrow> membership_ok M \<and> mb_nodeID M = i"

lemma table_step_ok: "membership_step M M' \<Longrightarrow> table_ok i M \<Longrightarrow> table_ok i M'"
  by (simp add: table_ok_def membership_step_ok membership_step_nodeID)

lemma table_run_ok: "table_run M M' \<Longrightarrow> table_ok i M \<Longrightarrow> table_ok i M'"
  by (induction rule: rtranclp_induct) (auto intro: table_step_ok)

lemma table_add [simp]: "table_ok i M \<Longrightarrow> table_ok i (AddOrUpdateMember j addr act hb M)"
  unfolding AddOrUpdateMember_def Let_def by (rule table_step_ok [OF membership_step.add_or_update])

lemmas table_steps = membership_step.intros [THEN table_step_ok]

lemma table_heartbeats [simp]: "table_ok i M \<Longrightarrow> table_ok i (sendHeartbeats hnet now n addr bully M)"
  by (simp add: table_ok_def sendHeartbeats_ok)

lemma table_learn [simp]: "table_ok i M \<Longrightarrow> table_ok i (learn_list l M)"
  using learn_lists_ok [of M "[l]"] by (simp add: table_ok_def learn_list_def)

lemma table_join [simp]: "table_ok i M \<Longrightarrow> table_ok i (snd (joinCluster jnet now n addr seeds M))"
  by (simp add: table_ok_def joinCluster_ok)

lemma table_ops_ok [simp]:
  assumes "table_ok i M"
  shows "table_ok i (AddMember now j addr M)" "table_ok i (SetPriority j p M)" "table_ok i (ApplyMembership sts M)"
    "table_ok i (SetRecovering r M)" "table_ok i (failure_tick now threshold M)" "table_ok i (UpdateHeartbeat now j M)"
    "table_ok i (snd (AD_AddNode quote now j addr a M))" "table_ok i (snd (AD_RemoveNode quote j a M))"
    "table_ok i (round_failed cfg j M)"
  using assms table_steps [OF assms]
  by (simp_all add: AddMember_def failure_tick_def AD_AddNode_def AD_RemoveNode_def round_failed_def Let_def
      split: option.split Status.split)

lemma table_swim [simp]:
  assumes "table_ok i M" and "\<And>M. table_run M (others M)"
  shows "table_ok i (swim_round sh sh' now pnet cfg others M)"
  using table_run_ok [OF assms(2) assms(1)] assms(1) by (simp add: swim_round_def Let_def split: option.split)

section \<open>The service\<close>

text \<open>What the handlers never change, and the table they keep well formed.\<close>

definition wiring :: "CounterService \<Rightarrow> string \<times> string \<times> bool \<times> bool \<times> int64" where
  "wiring s = (sv_nodeID s, pn_nodeID (sv_counter s), sv_onReset s, sv_wal s = None, sv_priority s)"

lemma wiring_walAppend [simp]: "wiring (walAppend ev op k d p n c s) = wiring s"
  "sv_bully (walAppend ev op k d p n c s) = sv_bully s"
  by (simp_all add: wiring_def walAppend_def split: option.split prod.split)

lemma wiring_persist [simp]: "wiring (persist ev s) = wiring s" "sv_bully (persist ev s) = sv_bully s"
  by (simp_all add: wiring_def persist_def split: option.split prod.split)

lemma wiring_merge [simp]: "wiring (merge_remote p n c s) = wiring s" "sv_bully (merge_remote p n c s) = sv_bully s"
  "sv_cluster (merge_remote p n c s) = sv_cluster s"
  by (simp_all add: wiring_def merge_remote_eq)

lemma service_wired_alt:
  "service_wired i s \<longleftrightarrow> sv_nodeID s = i \<and> pn_nodeID (sv_counter s) = i \<and> sv_onReset s \<and>
     pred_option (table_ok i) (sv_cluster s) \<and> sv_cluster s \<noteq> None \<and>
     (\<exists>b. sv_bully s = Some b \<and> b_nodeID b = i \<and> b_priority b = sv_priority s)"
  by (auto simp: service_wired_def table_ok_def)

lemma service_wiredI:
  assumes "service_wired i s" and "wiring s' = wiring s" and "sv_bully s' = sv_bully s"
    and "\<And>M. sv_cluster s = Some M \<Longrightarrow> table_ok i M \<Longrightarrow> \<exists>M'. sv_cluster s' = Some M' \<and> table_ok i M'"
  shows "service_wired i s' \<and> (sv_wal s' = None \<longleftrightarrow> sv_wal s = None)"
  using assms by (fastforce simp: service_wired_def wiring_def table_ok_def)

lemma service_reportI:
  assumes "service_wired i s" and "wiring s' = wiring s \<and> sv_bully s' = sv_bully s \<and>
    (\<forall>M. sv_cluster s = Some M \<longrightarrow> (\<exists>sts. sv_cluster s' = Some M \<or> sv_cluster s' = Some (ApplyMembership sts M)))"
  shows "service_wired i s' \<and> (sv_wal s' = None \<longleftrightarrow> sv_wal s = None)"
proof (rule service_wiredI [OF assms(1)])
  fix M
  assume "sv_cluster s = Some M" and M: "table_ok i M"
  then obtain sts where "sv_cluster s' = Some M \<or> sv_cluster s' = Some (ApplyMembership sts M)" using assms(2) by blast
  with M table_ops_ok(3) [OF M, of sts] show "\<exists>M'. sv_cluster s' = Some M' \<and> table_ok i M'" by auto
qed (use assms(2) in auto)

lemma wiring_fields [simp]:
  "wiring (s\<lparr>sv_counter := PN_IncrementName k d (sv_counter s)\<rparr>) = wiring s"
  "wiring (s\<lparr>sv_counter := PN_DecrementName k d (sv_counter s)\<rparr>) = wiring s"
  "wiring (s\<lparr>sv_counter := PN_ResetName k (sv_counter s)\<rparr>) = wiring s"
  "wiring (s\<lparr>sv_clock := c\<rparr>) = wiring s" "wiring (s\<lparr>sv_cluster := M\<rparr>) = wiring s" "wiring (s\<lparr>sv_tags := t\<rparr>) = wiring s"
  "wiring (s\<lparr>sv_lastSyncClock := l\<rparr>) = wiring s" "wiring (s\<lparr>sv_bully := b\<rparr>) = wiring s"
  by (simp_all add: wiring_def pn_defs)

lemma snapshot_wiring:
  "wiring (Snapshot ev s) = wiring s \<and> sv_bully (Snapshot ev s) = sv_bully s \<and> sv_cluster (Snapshot ev s) = sv_cluster s"
  by (auto simp: Snapshot_def snapshot_save_def snapshot_truncate_def wiring_def split: option.split prod.split sum.split bool.split)

lemma reset_wiring:
  "Reset ev name s = (resp, called, s') \<Longrightarrow> wiring s' = wiring s \<and> sv_bully s' = sv_bully s \<and> sv_cluster s' = sv_cluster s"
  by (auto simp: Reset_def Let_def)

lemma mergeRemoteState_wiring:
  "wiring (mergeRemoteState ev u g s) = wiring s \<and> sv_bully (mergeRemoteState ev u g s) = sv_bully s \<and>
   (\<forall>M. sv_cluster s = Some M \<longrightarrow> (\<exists>sts. sv_cluster (mergeRemoteState ev u g s) = Some M \<or>
      sv_cluster (mergeRemoteState ev u g s) = Some (ApplyMembership sts M)))"
  by (auto simp: mergeRemoteState_def Let_def split: option.split)

lemma sync_wiring:
  "wiring (snd (SyncState_recv ev u s)) = wiring s \<and> sv_bully (snd (SyncState_recv ev u s)) = sv_bully s \<and>
   (\<forall>M. sv_cluster s = Some M \<longrightarrow> (\<exists>sts. sv_cluster (snd (SyncState_recv ev u s)) = Some M \<or>
      sv_cluster (snd (SyncState_recv ev u s)) = Some (ApplyMembership sts M)))"
  by (auto simp: SyncState_recv_def buildDeltaReply_def Let_def split: option.split prod.split)

lemma Coordinator_keeps: "b_nodeID (snd (HandleCoordinator now req b)) = b_nodeID b \<and> b_priority (snd (HandleCoordinator now req b)) = b_priority b"
  by (simp add: HandleCoordinator_def Let_def)

lemma handler_step_ok:
  assumes "handler_step s s'" and "service_wired i s"
  shows "service_wired i s' \<and> (sv_wal s' = None \<longleftrightarrow> sv_wal s = None)"
  using assms(1)
proof cases
  case (increment ev req)
  show ?thesis by (rule service_wiredI [OF assms(2)]) (simp_all add: increment Increment_def Let_def)
next
  case (decrement ev req)
  show ?thesis by (rule service_wiredI [OF assms(2)]) (simp_all add: decrement Decrement_def Let_def)
next
  case (create name tags)
  show ?thesis by (rule service_wiredI [OF assms(2)]) (simp_all add: create CreateCounter_def Let_def)
next
  case (coordinator ev req)
  with assms(2) Coordinator_keeps show ?thesis
    by (auto simp: service_wired_def SV_Coordinator_def split: prod.splits) (metis snd_conv)+
next
  case (join ev req)
  show ?thesis by (rule service_wiredI [OF assms(2)]) (simp_all add: join JoinCluster_def Let_def split: option.split)
next
  case (heartbeat remote req)
  show ?thesis by (rule service_wiredI [OF assms(2)]) (simp_all add: heartbeat Heartbeat_def Let_def split: option.split)
next
  case (sync ev u)
  with sync_wiring [of ev u s] show ?thesis by (intro service_reportI [OF assms(2)]) simp
qed

section \<open>The engine and the election\<close>

lemma launch_keeps: "ge_nodeID (fst (fold launch_body ps (g, l))) = ge_nodeID g \<and> ge_hasWAL (fst (fold launch_body ps (g, l))) = ge_hasWAL g"
  by (induction ps arbitrary: g l) (auto simp: launch_body_def)

lemma gossip_keeps: "ge_nodeID (fst (gossip sh M g)) = ge_nodeID g \<and> ge_hasWAL (fst (gossip sh M g)) = ge_hasWAL g"
  using launch_keeps by (simp add: gossip_def Let_def)

lemma ForceSync_keeps:
  assumes "AD_ForceSync a M g = (resp, g', launched)"
  shows "ge_nodeID g' = ge_nodeID g \<and> ge_hasWAL g' = ge_hasWAL g"
  using assms launch_keeps [of "GetAlivePeers M" g "[]"]
  by (auto simp: AD_ForceSync_def ForceSync_def Let_def split: if_splits prod.splits)

lemma stream_keeps:
  "getOrCreateStream d st a g = (ok, g') \<Longrightarrow> ge_nodeID g' = ge_nodeID g \<and> ge_hasWAL g' = ge_hasWAL g"
  by (auto simp: getOrCreateStream_def split: option.splits if_splits)

lemma evict_keeps [simp]: "ge_nodeID (evictConn a g) = ge_nodeID g" "ge_hasWAL (evictConn a g) = ge_hasWAL g"
  by (simp_all add: evictConn_def split: option.split)

lemma sync_loop_keeps:
  "ge_nodeID (snd (sync_loop net a i n st g)) = ge_nodeID g \<and> ge_hasWAL (snd (sync_loop net a i n st g)) = ge_hasWAL g"
proof (induction net a i n st g rule: sync_loop.induct)
  case (2 net a i n st g)
  obtain ok g1 where 1: "(if st then (True, g) else getOrCreateStream (net_dial net (i + 1)) (net_stream net (i + 1)) a g) = (ok, g1)"
    by fastforce
  then have "ge_nodeID g1 = ge_nodeID g" "ge_hasWAL g1 = ge_hasWAL g" by (auto dest: stream_keeps split: if_splits)
  with 2 [OF 1 [symmetric]] show ?case unfolding sync_loop.simps 1 by (cases ok) (simp_all split: option.split)
qed simp

lemma deliver_keeps:
  assumes "deliver ev net others a b c g s = (res, g', s')"
  shows "ge_nodeID g' = ge_nodeID g \<and> ge_hasWAL g' = ge_hasWAL g \<and> (s' = others s \<or> (\<exists>r g1. s' = mergeRemoteState ev r g1 (others s)))"
proof -
  obtain ok g1 where 1: "getOrCreateStream (net_dial net 0) (net_stream net 0) a g = (ok, g1)" by fastforce
  obtain r g2 where 2: "sync_loop net a 0 (ge_maxRetries g1) True g1 = (r, g2)" by fastforce
  from assms stream_keeps [OF 1] sync_loop_keeps [of net a 0 "ge_maxRetries g1" True g1] show ?thesis
    by (cases ok; cases r) (auto simp: deliver_def Let_def 1 2)
qed

lemma gossipToPeer_keeps:
  assumes "gossipToPeer ev net others a g s = (res, g', s')"
  shows "ge_nodeID g' = ge_nodeID g \<and> ge_hasWAL g' = ge_hasWAL g \<and>
    (s' = s \<or> s' = others s \<or> (\<exists>r g1. s' = mergeRemoteState ev r g1 (others s)))"
proof -
  obtain b g1 where b: "breaker a g = (b, g1)" by fastforce
  then have g1: "ge_nodeID g1 = ge_nodeID g" "ge_hasWAL g1 = ge_hasWAL g" by (auto simp: breaker_def Let_def split: option.splits)
  show ?thesis
  proof (cases "Allow (ev_now ev) b")
    case True
    from assms g1 show ?thesis unfolding gossipToPeer_eq [OF b True]
      by (auto split: option.splits dest!: deliver_keeps)
  next
    case False
    with assms b g1 show ?thesis by (simp add: gossipToPeer_def)
  qed
qed

lemma announcements_keep: "announcement\<^sup>*\<^sup>* b b' \<Longrightarrow> b_nodeID b' = b_nodeID b \<and> b_priority b' = b_priority b"
  by (induction rule: rtranclp_induct) (auto elim!: announcement.cases simp: Coordinator_keeps)

lemma Run_tick_keeps:
  assumes "\<And>b. announcement\<^sup>*\<^sup>* b (others b)"
  shows "b_nodeID (fst (Run_tick reply ctx now M others b)) = b_nodeID b \<and> b_priority (fst (Run_tick reply ctx now M others b)) = b_priority b"
    and "b_nodeID (fst (StartElection reply ctx now M others b)) = b_nodeID b \<and> b_priority (fst (StartElection reply ctx now M others b)) = b_priority b"
proof -
  have "b_nodeID (others b) = b_nodeID b" "b_priority (others b) = b_priority b" for b using announcements_keep [OF assms] by auto
  then show "b_nodeID (fst (Run_tick reply ctx now M others b)) = b_nodeID b \<and> b_priority (fst (Run_tick reply ctx now M others b)) = b_priority b"
    and "b_nodeID (fst (StartElection reply ctx now M others b)) = b_nodeID b \<and> b_priority (fst (StartElection reply ctx now M others b)) = b_priority b"
    by (simp_all add: Run_tick_def StartElection_def BecomeLeader_def Let_def)
qed

lemma service_step_ok:
  assumes "service_step s s'" and "service_wired i s"
  shows "service_wired i s' \<and> (sv_wal s' = None \<longleftrightarrow> sv_wal s = None)"
  using assms(1)
proof cases
  case handled
  then show ?thesis using assms(2) by (rule handler_step_ok)
next
  case (reset_meanwhile ev name resp called)
  from reset_wiring [OF this] show ?thesis by (intro service_wiredI [OF assms(2)]) auto
next
  case (snapshot_meanwhile ev)
  with snapshot_wiring [of ev s] show ?thesis by (intro service_wiredI [OF assms(2)]) auto
next
  case (table_meanwhile M M')
  have "table_ok i M" using assms(2) table_meanwhile(2) by (auto simp: service_wired_def table_ok_def)
  from table_step_ok [OF table_meanwhile(3) this] assms(2) table_meanwhile(1) show ?thesis
    by (auto simp: service_wired_def table_ok_def)
next
  case (election_meanwhile M b others reply ctx_done now)
  with assms(2) Run_tick_keeps(1) [OF election_meanwhile(4), of reply ctx_done now M b] show ?thesis
    by (auto simp: service_wired_def)
qed

lemma service_run_ok:
  assumes "service_step\<^sup>*\<^sup>* s s'" and "service_wired i s"
  shows "service_wired i s' \<and> (sv_wal s' = None \<longleftrightarrow> sv_wal s = None)"
  using assms by (induction rule: rtranclp_induct) (auto dest: service_step_ok)

section \<open>The whole node\<close>

lemma on_table_ok:
  assumes "node_ok i nd" and "\<And>M. table_ok i M \<Longrightarrow> table_ok i (f M)"
  shows "node_ok i (on_table f nd)"
proof -
  have "service_wired i (nd_service (on_table f nd)) \<and> (sv_wal (nd_service (on_table f nd)) = None \<longleftrightarrow> sv_wal (nd_service nd) = None)"
    using assms by (intro service_wiredI [of i "nd_service nd"]) (auto simp: node_ok_def on_table_def)
  with assms(1) show ?thesis by (simp add: node_ok_def on_table_def)
qed

lemma node_okI:
  assumes "node_ok i nd" and "service_wired i s' \<and> (sv_wal s' = None \<longleftrightarrow> sv_wal (nd_service nd) = None)"
    and "ge_nodeID g' = ge_nodeID (nd_engine nd) \<and> ge_hasWAL g' = ge_hasWAL (nd_engine nd)"
  shows "node_ok i (nd\<lparr>nd_service := s', nd_engine := g'\<rparr>)"
  using assms by (simp add: node_ok_def)

lemma node_okD: "node_ok i nd \<Longrightarrow> service_wired i (nd_service nd)"
  by (simp add: node_ok_def)

lemma gossip_round_ok:
  assumes ok: "node_ok i nd" and others: "service_step\<^sup>*\<^sup>* (nd_service nd) (others (nd_service nd))"
    and round: "gossipToPeer ev net others addr (nd_engine nd) (nd_service nd) = (result, g', s')"
  shows "node_ok i (nd\<lparr>nd_service := s', nd_engine := round_done addr g'\<rparr>)"
proof -
  note o = service_run_ok [OF others node_okD [OF ok]]
  note keeps = gossipToPeer_keeps [OF round]
  have "service_wired i s' \<and> (sv_wal s' = None \<longleftrightarrow> sv_wal (nd_service nd) = None)"
    using keeps
  proof (elim conjE disjE exE)
    fix r g1 assume "s' = mergeRemoteState ev r g1 (others (nd_service nd))"
    with service_reportI [OF conjunct1 [OF o] mergeRemoteState_wiring] o show ?thesis by simp
  qed (use o node_okD [OF ok] in simp_all)
  moreover have "ge_nodeID (round_done addr g') = ge_nodeID (nd_engine nd) \<and> ge_hasWAL (round_done addr g') = ge_hasWAL (nd_engine nd)"
    using keeps by (simp add: round_done_def)
  ultimately show ?thesis by (rule node_okI [OF ok])
qed

lemma node_step_ok:
  assumes "node_step nd nd'" and ok: "node_ok i nd"
  shows "node_ok i nd'"
  using assms(1)
proof cases
  case (handler s')
  from handler_step_ok [OF handler(2) node_okD [OF ok]] handler(1) show ?thesis
    using node_okI [OF ok, of s' "nd_engine nd"] by simp
next
  case (reset ev name resp called s')
  have "service_wired i s' \<and> (sv_wal s' = None \<longleftrightarrow> sv_wal (nd_service nd) = None)"
    using reset_wiring [OF reset(2)] by (intro service_wiredI [OF node_okD [OF ok]]) auto
  then show ?thesis unfolding reset(1) by (rule node_okI [OF ok]) (simp add: InvalidateBaselines_def)
next
  case (snapshot ev)
  have "service_wired i (Snapshot ev (nd_service nd)) \<and> (sv_wal (Snapshot ev (nd_service nd)) = None \<longleftrightarrow> sv_wal (nd_service nd) = None)"
    using snapshot_wiring [of ev "nd_service nd"] by (intro service_wiredI [OF node_okD [OF ok]]) auto
  with snapshot show ?thesis using node_okI [OF ok, of _ "nd_engine nd"] by simp
next
  case (force_sync M resp g' launched)
  then show ?thesis using ForceSync_keeps node_okI [OF ok, of "nd_service nd" g'] node_okD [OF ok] by simp
next
  case (gossip_tick M shuffle)
  then show ?thesis using gossip_keeps [of shuffle M "nd_engine nd"] ok by (simp add: node_ok_def)
next
  case (gossip_round others ev net addr result g' s')
  then show ?thesis using gossip_round_ok [OF ok] by blast
next
  case (election M b others'' reply ctx_done now)
  with ok Run_tick_keeps(1) [OF election(4), of reply ctx_done now M b] show ?thesis
    by (auto simp: node_ok_def service_wired_def)
next
  case (contest M b others'' reply ctx_done now)
  with ok Run_tick_keeps(2) [OF contest(4), of reply ctx_done now M b] show ?thesis
    by (auto simp: node_ok_def service_wired_def)
next
  case (call fl now)
  with ok show ?thesis by (simp add: node_ok_def)
next
  case (recover now answer)
  have "service_wired i (recover_merge now (sv_nodeID (nd_service nd)) (nd_localAddress nd) answer (nd_service nd)) \<and>
      (sv_wal (recover_merge now (sv_nodeID (nd_service nd)) (nd_localAddress nd) answer (nd_service nd)) = None \<longleftrightarrow> sv_wal (nd_service nd) = None)"
    by (rule service_wiredI [OF node_okD [OF ok]]) (auto simp: recover_merge_def Let_def wiring_def pbToPNCounter_def pn_defs)
  with recover show ?thesis using node_okI [OF ok, of _ "nd_engine nd"] by simp
qed (auto intro: on_table_ok [OF ok] table_swim)

lemma replay_wiring: "wiring (fold replay_entry es s) = wiring s"
proof (induction es arbitrary: s)
  case (Cons e es)
  have "wiring (replay_entry e s) = wiring s" by (simp add: wiring_def merge_remote_eq pn_defs)
  with Cons show ?case by (simp del: replay_entry.simps)
qed simp

lemma startup_ids:
  "sv_nodeID (startup ev get_ok nodeID port shards store walDir fs) = nodeID \<and>
   pn_nodeID (sv_counter (startup ev get_ok nodeID port shards store walDir fs)) = nodeID"
proof -
  define s1 where "s1 = SetShardCount shards (NewCounterService nodeID port fs)"
  define s2 where "s2 = (case store of None \<Rightarrow> s1 | Some db \<Rightarrow>
    (let s = SetStore db s1 in (case RS_Load get_ok nodeID db of Inl _ \<Rightarrow> s | Inr persisted \<Rightarrow> Restore persisted s)))"
  have ids: "sv_nodeID s2 = nodeID" "pn_nodeID (sv_counter s2) = nodeID"
    by (simp_all add: s2_def s1_def SetShardCount_def NewCounterService_def SetStore_def Restore_def merge_remote_eq Let_def pn_defs
        split: option.split sum.split)
  have replay: "sv_nodeID (fold replay_entry es s) = sv_nodeID s" "pn_nodeID (sv_counter (fold replay_entry es s)) = pn_nodeID (sv_counter s)"
    for es s using replay_wiring [of es s] by (simp_all add: wiring_def)
  show ?thesis
    unfolding startup_def Let_def s1_def [symmetric] s2_def [unfolded Let_def, symmetric]
    using ids by (simp add: ReplayWAL_def SetWAL_def replay split: option.split sum.split prod.split)
qed

lemma build_node_ok: "node_ok (cf_NodeID cfg) (build_node ev fl ping_ok get_ok db fs cfg)"
  using startup_ids
  by (simp add: build_node_def Let_def node_ok_def service_wired_def SetOnReset_def SetClientConfig_def SV_SetPriority_def SetBully_def
      SetCluster_def New_def GE_SetClientConfig_def GE_SetWAL_def NewGossipEngine_def AD_SetGossip_def AD_SetCluster_def AD_New_def
      AddMember_def AddOrUpdateMember_def AddOrUpdateMemberStatus_ok NewMembership_def membership_ok_def [of "\<lparr>mb_nodeID = _, members = _, recovering = _\<rparr>"])

section \<open>The bootstrap without interruption\<close>

lemma node_run_reachable: "node_step\<^sup>*\<^sup>* nd nd' \<Longrightarrow> node_reachable cfg nd \<Longrightarrow> node_reachable cfg nd'"
  by (induction rule: rtranclp_induct) (auto intro: node_reachable.step)

lemma node_run_ok: "node_step\<^sup>*\<^sup>* nd nd' \<Longrightarrow> node_ok i nd \<Longrightarrow> node_ok i nd'"
  by (induction rule: rtranclp_induct) (auto intro: node_step_ok)

lemma learn_run: "node_step\<^sup>*\<^sup>* nd (on_table (fold learn_list ls) nd)"
proof (induction ls arbitrary: nd)
  case Nil
  then show ?case by (simp add: on_table_def option.map_id0 [unfolded id_def])
next
  case (Cons l ls)
  from Cons [of "on_table (learn_list l) nd"] have "node_step\<^sup>*\<^sup>* (on_table (learn_list l) nd) (on_table (fold learn_list (l # ls)) nd)"
    by (simp add: on_table_def option.map_comp o_def)
  then show ?case by (meson converse_rtranclp_into_rtranclp node_step.learn)
qed

lemma recover_run:
  "node_step\<^sup>*\<^sup>* nd (nd\<lparr>nd_service :=
     snd (snd (recoverStateFromSeedNodes net (sv_nodeID (nd_service nd)) (nd_localAddress nd) seeds (nd_service nd)))\<rparr>)"
proof (cases "seeds = []")
  case True
  then show ?thesis by (simp add: recoverStateFromSeedNodes_def uniqueOrderedSeeds_def)
next
  case False
  from recover_cases [OF False, where net = net and nodeID = "sv_nodeID (nd_service nd)" and s = "nd_service nd" and addr = "nd_localAddress nd"]
  show ?thesis by (auto intro: r_into_rtranclp node_step.recover split: option.splits)
qed

lemma bootstrap_run: "node_step\<^sup>*\<^sup>* nd (bootstrap jnet rnet now seeds nd)"
proof -
  let ?j = "\<lambda>M. snd (joinCluster jnet now (sv_nodeID (nd_service nd)) (nd_localAddress nd) seeds M)"
  obtain ls where j: "on_table ?j nd = on_table (fold learn_list ls) nd"
  proof (cases "sv_cluster (nd_service nd)")
    case (Some M)
    with that joinCluster_cases [of jnet now "sv_nodeID (nd_service nd)" "nd_localAddress nd" seeds M] show ?thesis
      by (auto simp: on_table_def)
  qed (simp add: on_table_def that)
  let ?nd1 = "on_table (SetRecovering True) (on_table ?j nd)"
  let ?nd2 = "?nd1\<lparr>nd_service := snd (snd (recoverStateFromSeedNodes rnet (sv_nodeID (nd_service ?nd1)) (nd_localAddress ?nd1) seeds (nd_service ?nd1)))\<rparr>"
  have 1: "node_step\<^sup>*\<^sup>* nd (on_table ?j nd)" unfolding j by (rule learn_run)
  have 2: "node_step\<^sup>*\<^sup>* ?nd1 ?nd2" by (rule recover_run)
  have "node_step\<^sup>*\<^sup>* nd ?nd1" using 1 node_step.recovering by (rule rtranclp.rtrancl_into_rtrancl)
  from this 2 have "node_step\<^sup>*\<^sup>* nd ?nd2" by (rule rtranclp_trans)
  from this node_step.recovering have "node_step\<^sup>*\<^sup>* nd (on_table (SetRecovering False) ?nd2)" by (rule rtranclp.rtrancl_into_rtrancl)
  then show ?thesis by (simp add: bootstrap_def on_table_def Let_def)
qed

lemma bootstrap_reachable: "node_reachable cfg nd \<Longrightarrow> node_reachable cfg (bootstrap jnet rnet now seeds nd)"
  by (rule node_run_reachable [OF bootstrap_run])

lemma node_reachable_ok: "node_reachable cfg nd \<Longrightarrow> node_ok (cf_NodeID cfg) nd"
  by (induction rule: node_reachable.induct) (auto intro: build_node_ok node_step_ok)

section \<open>Properties\<close>

text \<open>C9: whatever requests, ticks, exchanges and elections a running node goes through, in any order and interleaved with other
  handlers while it waits for the network: the service, the counter, the gossip engine, the election and the
  administration keep the configured node id, the member table stays well formed and keeps the
  local id, and the gossip engine logs remote merges exactly when the service has a log.\<close>

theorem node_invariant:
  assumes "node_reachable cfg nd"
  shows "\<exists>M b. sv_cluster (nd_service nd) = Some M \<and> membership_ok M \<and> mb_nodeID M = cf_NodeID cfg \<and>
    sv_bully (nd_service nd) = Some b \<and> b_nodeID b = cf_NodeID cfg \<and> b_priority b = sv_priority (nd_service nd) \<and>
    sv_nodeID (nd_service nd) = cf_NodeID cfg \<and> pn_nodeID (sv_counter (nd_service nd)) = cf_NodeID cfg \<and>
    ge_nodeID (nd_engine nd) = cf_NodeID cfg \<and> ad_nodeID (nd_admin nd) = cf_NodeID cfg \<and>
    (ge_hasWAL (nd_engine nd) \<longleftrightarrow> sv_wal (nd_service nd) \<noteq> None)"
  using node_reachable_ok [OF assms] by (auto simp: node_ok_def service_wired_def)

definition sample_node :: Node where
  "sample_node = bootstrap (sample_join_net \<lparr>ml_Members = [], ml_Version = 0\<rparr>) (sample_recover_net None) 7 []
     (build_node sample_env id False False fmempty fmempty sample_config)"

theorem node_invariant_witness:
  "\<exists>M. sv_cluster (nd_service (sample_node\<lparr>nd_service := Snapshot sample_env (nd_service sample_node)\<rparr>)) = Some M \<and> membership_ok M \<and>
     mb_nodeID M = ''a''"
proof -
  have cfg: "cf_SeedNodes sample_config = []" "cf_NodeID sample_config = ''a''" by (simp_all add: sample_config_def)
  have "node_reachable sample_config sample_node"
    unfolding sample_node_def by (intro bootstrap_reachable node_reachable.built)
  from node_reachable.step [OF this node_step.snapshot, of sample_env]
  have "node_reachable sample_config (sample_node\<lparr>nd_service := Snapshot sample_env (nd_service sample_node)\<rparr>)" .
  from node_invariant [OF this] cfg show ?thesis by auto
qed

end
