(* ===== verification/Dashboard.thy ===== *)
theory Dashboard
  imports Service
begin

text \<open>
  \<open>internal/dashboard/dashboard.go\<close>: the view of the whole cluster that the web dashboard shows. The network is a record with what
  \<open>GetNodeInfo\<close> and \<open>ListCounters\<close> at an address return, and what the metrics registry holds; \<open>nil\<close> pointers
  are \<open>None\<close>. The HTTP handlers around the view are left out.
\<close>

section \<open>Views\<close>

record NodeView =
  nv_NodeID :: string
  nv_Address :: string
  nv_Status :: string
  nv_IsActive :: bool
  nv_IsLeader :: bool
  nv_LeaderID :: string
  nv_Priority :: int64
  nv_CounterValue :: int64
  nv_Version :: string
  nv_LastSeen :: int
  nv_Reachable :: bool

record CounterView =
  cv_Name :: string
  cv_Value :: int64
  cv_Shard :: uint32
  cv_Tags :: "string list"
  cv_Contributors :: "string list"

record GossipStats =
  gs_SentTotal :: int64
  gs_ReceivedTotal :: int64

record ClusterView =
  vw_Self :: "NodeView option"
  vw_Nodes :: "NodeView list"
  vw_Counters :: "CounterView list"
  vw_Gossip :: GossipStats

record Dashboard =
  db_nodeID :: string
  db_membership :: "Membership option"
  db_service :: "CounterService option"

text \<open>A metric of the registry is its counter value, if it has one.\<close>

record dash_net =
  dn_info :: "string \<Rightarrow> NodeInfo option"
  dn_counters :: "string \<Rightarrow> CounterInfo list option"
  dn_gather :: "(string \<times> rat option list) list option"

section \<open>Polling\<close>

definition nodeViewFromInfo :: "NodeInfo \<Rightarrow> bool \<Rightarrow> NodeView" where
  "nodeViewFromInfo info reachable =
     \<lparr>nv_NodeID = ni_NodeId info, nv_Address = ni_Address info, nv_Status = ''Alive'', nv_IsActive = True,
      nv_IsLeader = ni_IsLeader info, nv_LeaderID = ni_LeaderId info, nv_Priority = ni_Priority info,
      nv_CounterValue = ni_CounterValue info, nv_Version = ni_Version info, nv_LastSeen = ni_LastSeen info,
      nv_Reachable = reachable\<rparr>"

definition pollNode :: "dash_net \<Rightarrow> service_env \<Rightarrow> string \<Rightarrow> CounterService option \<Rightarrow> Membership \<Rightarrow> NodeView option" where
  "pollNode net ev nodeID svc M =
     (case svc of
        Some s \<Rightarrow> Some (nodeViewFromInfo (GetNodeInfo ev s) True)
      | None \<Rightarrow>
          (case GetMember nodeID M of
             None \<Rightarrow> None
           | Some member \<Rightarrow> map_option (\<lambda>info. nodeViewFromInfo info True) (dn_info net (m_Address member))))"

definition pollCounters :: "dash_net \<Rightarrow> string \<Rightarrow> CounterInfo list option" where
  "pollCounters net address = (if address = '''' then None else dn_counters net address)"

text \<open>\<open>int64(total)\<close> drops the fraction; \<open>fl\<close> rounds each sum to a \<open>float64\<close>.\<close>

definition sumCounterValues :: "(rat \<Rightarrow> rat) \<Rightarrow> rat option list \<Rightarrow> int64" where
  "sumCounterValues fl metrics =
     (let total = fold (\<lambda>m total. case m of Some v \<Rightarrow> fl (total + v) | None \<Rightarrow> total) metrics 0
      in word_of_int (if 0 \<le> total then \<lfloor>total\<rfloor> else \<lceil>total\<rceil>))"

definition family_body :: "(rat \<Rightarrow> rat) \<Rightarrow> string \<times> rat option list \<Rightarrow> GossipStats \<Rightarrow> GossipStats" where
  "family_body fl family stats =
     (if fst family = ''gossip_messages_sent_total'' then stats\<lparr>gs_SentTotal := sumCounterValues fl (snd family)\<rparr>
      else if fst family = ''gossip_messages_received_total'' then stats\<lparr>gs_ReceivedTotal := sumCounterValues fl (snd family)\<rparr>
      else stats)"

definition pollGossip :: "(rat \<Rightarrow> rat) \<Rightarrow> dash_net \<Rightarrow> GossipStats" where
  "pollGossip fl net =
     (let stats = \<lparr>gs_SentTotal = 0, gs_ReceivedTotal = 0\<rparr>
      in (case dn_gather net of None \<Rightarrow> stats | Some families \<Rightarrow> fold (family_body fl) families stats))"

section \<open>The cluster view\<close>

text \<open>The entry of one member: what polling returned, with the gaps filled from the member table.\<close>

definition fill_view :: "Member \<Rightarrow> NodeView option \<Rightarrow> NodeView" where
  "fill_view member polled =
     (let nv = (case polled of
            Some nv \<Rightarrow> nv
          | None \<Rightarrow> \<lparr>nv_NodeID = m_ID member, nv_Address = m_Address member, nv_Status = Status_String (m_Status member),
              nv_IsActive = m_IsActive member, nv_IsLeader = False, nv_LeaderID = '''', nv_Priority = m_Priority member,
              nv_CounterValue = 0, nv_Version = '''', nv_LastSeen = unix_of_time (m_LastHeartbeat member),
              nv_Reachable = False\<rparr>);
          nv = (if nv_Address nv = '''' then nv\<lparr>nv_Address := m_Address member\<rparr> else nv);
          nv = (if nv_Status nv = '''' then nv\<lparr>nv_Status := Status_String (m_Status member)\<rparr> else nv)
      in if nv_Priority nv = 0 then nv\<lparr>nv_Priority := m_Priority member\<rparr> else nv)"

text \<open>The loop over the members. \<open>Self\<close> is shared with its entry in the list, so that filling the gaps of one fills
  those of the other; the pair holds \<open>Self\<close> and the list.\<close>

definition member_body ::
  "dash_net \<Rightarrow> service_env \<Rightarrow> string \<Rightarrow> Membership \<Rightarrow> Member \<Rightarrow> NodeView option \<times> NodeView list \<Rightarrow> NodeView option \<times> NodeView list" where
  "member_body net ev nodeID M member acc =
     (case acc of (self, nodes) \<Rightarrow>
        if m_ID member = nodeID
        then (let nv = fill_view member self in (if self = None then None else Some nv, nodes @ [nv]))
        else (self, nodes @ [fill_view member (pollNode net ev (m_ID member) None M)]))"

definition counter_view_of :: "CounterInfo \<Rightarrow> CounterView" where
  "counter_view_of ci = \<lparr>cv_Name = ci_Name ci, cv_Value = ci_CurrentValue ci, cv_Shard = ci_Shard ci, cv_Tags = ci_Tags ci, cv_Contributors = []\<rparr>"

definition agg_body :: "string \<Rightarrow> CounterInfo \<Rightarrow> CounterView gomap \<Rightarrow> CounterView gomap" where
  "agg_body nodeID ci counterAgg =
     (case fmlookup counterAgg (ci_Name ci) of
        None \<Rightarrow> counterAgg
      | Some existing \<Rightarrow>
          (let existing = (if sint (cv_Value existing) < sint (ci_CurrentValue ci) then existing\<lparr>cv_Value := ci_CurrentValue ci\<rparr> else existing);
               existing = existing\<lparr>cv_Contributors := cv_Contributors existing @ [nodeID]\<rparr>
           in fmupd (ci_Name ci) existing counterAgg))"

definition node_agg :: "dash_net \<Rightarrow> NodeView \<Rightarrow> CounterView gomap \<Rightarrow> CounterView gomap" where
  "node_agg net nv counterAgg =
     (case pollCounters net (nv_Address nv) of
        None \<Rightarrow> counterAgg | Some agg \<Rightarrow> fold (agg_body (nv_NodeID nv)) agg counterAgg)"

text \<open>\<open>None\<close> is the panic of \<open>Shard\<close> in the local \<open>ListCounters\<close>.\<close>

definition BuildClusterView :: "(rat \<Rightarrow> rat) \<Rightarrow> dash_net \<Rightarrow> service_env \<Rightarrow> Dashboard \<Rightarrow> ClusterView option" where
  "BuildClusterView fl net ev d =
     (let self = (case db_service d of
            None \<Rightarrow> None | Some s \<Rightarrow> pollNode net ev (db_nodeID d) (Some s) (NewMembership []));
          (self, nodes) = (case db_membership d of
            None \<Rightarrow> (self, []) | Some M \<Rightarrow> fold (member_body net ev (db_nodeID d) M) (GetMembers M) (self, []));
          local = (case db_service d of None \<Rightarrow> Some [] | Some s \<Rightarrow> ListCounters '''' s)
      in map_option (\<lambda>infos.
           (let counterAgg = fold (\<lambda>ci agg. fmupd (ci_Name ci) (counter_view_of ci) agg) infos fmempty;
                counterAgg = fold (node_agg net) nodes counterAgg
            in \<lparr>vw_Self = self, vw_Nodes = nodes, vw_Counters = map snd (sorted_list_of_fmap counterAgg),
                vw_Gossip = pollGossip fl net\<rparr>)) local)"

section \<open>The aggregation, one counter at a time\<close>

text \<open>The counters that the nodes report, each with the node that reports it.\<close>

definition reports :: "dash_net \<Rightarrow> NodeView list \<Rightarrow> (string \<times> CounterInfo) list" where
  "reports net nodes =
     concat (map (\<lambda>nv. case pollCounters net (nv_Address nv) of None \<Rightarrow> [] | Some agg \<Rightarrow> map (Pair (nv_NodeID nv)) agg) nodes)"

lemma fold_node_agg: "fold (node_agg net) nodes agg = fold (\<lambda>(n, ci). agg_body n ci) (reports net nodes) agg"
  by (induction nodes arbitrary: agg) (simp_all add: reports_def node_agg_def fold_map o_def split: option.split)

definition larger :: "CounterInfo \<Rightarrow> int64 \<Rightarrow> int64" where
  "larger ci v = (if sint v < sint (ci_CurrentValue ci) then ci_CurrentValue ci else v)"

lemma sint_fold_larger: "sint (fold larger cis v) = Max (insert (sint v) (sint ` ci_CurrentValue ` set cis))"
proof (induction cis arbitrary: v)
  case (Cons ci cis)
  have "sint (larger ci v) = max (sint v) (sint (ci_CurrentValue ci))" by (simp add: larger_def)
  with Cons [of "larger ci v"] show ?case by (cases "cis = []") (auto simp: max.assoc Max_insert2 image_image Max.insert)
qed simp

lemma agg_body_lookup:
  "fmlookup (agg_body n ci agg) name =
     (if ci_Name ci = name
      then map_option (\<lambda>c. c\<lparr>cv_Value := larger ci (cv_Value c), cv_Contributors := cv_Contributors c @ [n]\<rparr>) (fmlookup agg name)
      else fmlookup agg name)"
  by (auto simp: agg_body_def Let_def larger_def split: option.split)

lemma fold_agg_lookup:
  "fmlookup (fold (\<lambda>(n, ci). agg_body n ci) rs agg) name =
     map_option (\<lambda>c. c\<lparr>cv_Value := fold larger (map snd (filter (\<lambda>r. ci_Name (snd r) = name) rs)) (cv_Value c),
         cv_Contributors := cv_Contributors c @ map fst (filter (\<lambda>r. ci_Name (snd r) = name) rs)\<rparr>) (fmlookup agg name)"
proof (induction rs arbitrary: agg)
  case Nil
  then show ?case by (simp add: option.map_ident_strong)
next
  case (Cons r rs)
  obtain n ci where r: "r = (n, ci)" by (cases r)
  show ?case by (cases "fmlookup agg name") (simp_all add: r Cons.IH agg_body_lookup)
qed

lemma fold_view_infos:
  assumes "distinct (map ci_Name infos)"
  shows "fmlookup (fold (\<lambda>ci agg. fmupd (ci_Name ci) (counter_view_of ci) agg) infos agg) name =
    (case find (\<lambda>ci. ci_Name ci = name) infos of Some ci \<Rightarrow> Some (counter_view_of ci) | None \<Rightarrow> fmlookup agg name)"
  using assms
proof (induction infos arbitrary: agg)
  case (Cons ci infos)
  have "find (\<lambda>x. ci_Name x = ci_Name ci) infos = None" using Cons.prems
    by (simp add: find_None_iff) (metis imageI)
  with Cons show ?case by (auto split: option.split)
qed simp

section \<open>The node list\<close>

lemma member_body_eq:
  "m_ID m \<noteq> nodeID \<Longrightarrow> member_body net ev nodeID M m (self, nodes) = (self, nodes @ [fill_view m (pollNode net ev (m_ID m) None M)])"
  "m_ID m = nodeID \<Longrightarrow> member_body net ev nodeID M m (self, nodes) = (map_option (\<lambda>_. fill_view m self) self, nodes @ [fill_view m self])"
  by (simp_all add: member_body_def Let_def option.case_eq_if map_option_case split: option.split)

lemma fold_members_other:
  "\<forall>m \<in> set ms. m_ID m \<noteq> nodeID \<Longrightarrow>
   fold (member_body net ev nodeID M) ms (self, nodes) = (self, nodes @ map (\<lambda>m. fill_view m (pollNode net ev (m_ID m) None M)) ms)"
  by (induction ms arbitrary: nodes) (simp_all add: member_body_eq)

lemma fold_members:
  assumes "distinct (map m_ID ms)"
  shows "snd (fold (member_body net ev nodeID M) ms (self, nodes)) =
    nodes @ map (\<lambda>m. fill_view m (if m_ID m = nodeID then self else pollNode net ev (m_ID m) None M)) ms"
  using assms
proof (induction ms arbitrary: nodes)
  case (Cons m ms)
  show ?case
  proof (cases "m_ID m = nodeID")
    case True
    with Cons.prems have "\<forall>x \<in> set ms. m_ID x \<noteq> nodeID" by (simp, metis imageI)
    with True show ?thesis by (simp add: member_body_eq fold_members_other)
  next
    case False
    with Cons show ?thesis by (simp add: member_body_eq)
  qed
qed simp

text \<open>The counters shown: those of the local list, with the largest reported value.\<close>

lemma shown_counters:
  fixes rs infos
  defines "agg \<equiv> fold (\<lambda>(n, ci). agg_body n ci) rs (fold (\<lambda>ci agg. fmupd (ci_Name ci) (counter_view_of ci) agg) infos fmempty)"
  assumes "distinct (map ci_Name infos)" and "sorted (map ci_Name infos)"
  shows "map cv_Name (map snd (sorted_list_of_fmap agg)) = map ci_Name infos"
    and "\<forall>c \<in> set (map snd (sorted_list_of_fmap agg)). \<exists>i \<in> set infos. ci_Name i = cv_Name c \<and>
      sint (cv_Value c) = Max (insert (sint (ci_CurrentValue i)) (sint ` ci_CurrentValue ` {ci. \<exists>n. (n, ci) \<in> set rs \<and> ci_Name ci = cv_Name c}))"
proof -
  have look: "fmlookup agg name = (case find (\<lambda>ci. ci_Name ci = name) infos of None \<Rightarrow> None
      | Some i \<Rightarrow> Some ((counter_view_of i)\<lparr>cv_Value := fold larger (map snd (filter (\<lambda>r. ci_Name (snd r) = name) rs)) (ci_CurrentValue i),
          cv_Contributors := map fst (filter (\<lambda>r. ci_Name (snd r) = name) rs)\<rparr>))" for name
    unfolding agg_def fold_agg_lookup fold_view_infos [OF assms(2)] by (simp add: counter_view_of_def split: option.split)
  have entry: "\<exists>i \<in> set infos. ci_Name i = name \<and> cv_Name c = name \<and>
      cv_Value c = fold larger (map snd (filter (\<lambda>r. ci_Name (snd r) = name) rs)) (ci_CurrentValue i)"
    if "fmlookup agg name = Some c" for name c
    using that by (auto simp: look counter_view_of_def find_Some_iff split: option.splits intro!: bexI [of _ "_ ! _"])
  have "fmdom agg = fset_of_list (map ci_Name infos)"
    by (rule fset_eqI) (auto simp: fmlookup_dom_iff look fset_of_list_elem find_None_iff find_Some_iff split: option.split)
  then have "sorted_list_of_fset (fmdom agg) = map ci_Name infos"
    using sorted_list_of_set.idem_if_sorted_distinct [OF assms(3,2)] by (simp add: sorted_list_of_fset.rep_eq fset_of_list.rep_eq)
  moreover have "map cv_Name (map snd (sorted_list_of_fmap agg)) = map fst (sorted_list_of_fmap agg)"
  proof -
    have "cv_Name (snd e) = fst e" if "e \<in> set (sorted_list_of_fmap agg)" for e
      using entry [of "fst e" "snd e"] that by (auto simp: set_sorted_list_of_fmap [symmetric])
    then show ?thesis unfolding map_map by (intro map_cong) auto
  qed
  ultimately show "map cv_Name (map snd (sorted_list_of_fmap agg)) = map ci_Name infos" by simp
  show "\<forall>c \<in> set (map snd (sorted_list_of_fmap agg)). \<exists>i \<in> set infos. ci_Name i = cv_Name c \<and>
      sint (cv_Value c) = Max (insert (sint (ci_CurrentValue i)) (sint ` ci_CurrentValue ` {ci. \<exists>n. (n, ci) \<in> set rs \<and> ci_Name ci = cv_Name c}))"
  proof
    fix c
    assume "c \<in> set (map snd (sorted_list_of_fmap agg))"
    then obtain name where "fmlookup agg name = Some c" by (auto simp: set_sorted_list_of_fmap)
    from entry [OF this] obtain i where i: "i \<in> set infos" "ci_Name i = name" "cv_Name c = name"
      "cv_Value c = fold larger (map snd (filter (\<lambda>r. ci_Name (snd r) = name) rs)) (ci_CurrentValue i)" by blast
    have "set (map snd (filter (\<lambda>r. ci_Name (snd r) = name) rs)) = {ci. \<exists>n. (n, ci) \<in> set rs \<and> ci_Name ci = name}" by force
    with i show "\<exists>i \<in> set infos. ci_Name i = cv_Name c \<and> sint (cv_Value c) =
      Max (insert (sint (ci_CurrentValue i)) (sint ` ci_CurrentValue ` {ci. \<exists>n. (n, ci) \<in> set rs \<and> ci_Name ci = cv_Name c}))"
      using sint_fold_larger [of "map snd (filter (\<lambda>r. ci_Name (snd r) = name) rs)" "ci_CurrentValue i"] by auto
  qed
qed

section \<open>Properties\<close>

text \<open>C40: the dashboard shows every member exactly once, in the order of their ids, polled where the node answers and from
  the member table, marked unreachable, where it does not; and the counters that the local node lists, each
  once and in the order of their names, with the largest of the local value and the values that the polled nodes
  report for it. A counter that only other nodes know is not shown.\<close>

theorem BuildClusterView_spec:
  assumes "db_service d = Some s" and "db_membership d = Some M" and "membership_ok M" and "Shard '''' s \<noteq> None"
  shows "\<exists>view infos. BuildClusterView fl net ev d = Some view \<and> ListCounters '''' s = Some infos \<and>
    vw_Nodes view = map (\<lambda>m. fill_view m
      (if m_ID m = db_nodeID d then Some (nodeViewFromInfo (GetNodeInfo ev s) True) else pollNode net ev (m_ID m) None M)) (GetMembers M) \<and>
    map cv_Name (vw_Counters view) = map ci_Name infos \<and>
    (\<forall>c \<in> set (vw_Counters view). sint (cv_Value c) =
       Max (insert (sint (PN_ValueName (cv_Name c) (sv_counter s)))
         (sint ` ci_CurrentValue ` {ci. \<exists>n. (n, ci) \<in> set (reports net (vw_Nodes view)) \<and> ci_Name ci = cv_Name c})))"
proof -
  obtain infos where infos: "ListCounters '''' s = Some infos" "sorted (map ci_Name infos)" "distinct (map ci_Name infos)"
    "\<forall>i \<in> set infos. ci_CurrentValue i = PN_ValueName (ci_Name i) (sv_counter s)"
    using ListCounters_ok [OF assms(4), of "''''"] by (elim exE conjE) (rule that, assumption+, blast)
  obtain view where view: "BuildClusterView fl net ev d = Some view"
    by (simp add: BuildClusterView_def assms(1,2) infos(1) case_prod_beta Let_def)
  let ?agg = "fold (\<lambda>(n, ci). agg_body n ci) (reports net (vw_Nodes view)) (fold (\<lambda>ci agg. fmupd (ci_Name ci) (counter_view_of ci) agg) infos fmempty)"
  have nodes: "vw_Nodes view = map (\<lambda>m. fill_view m
      (if m_ID m = db_nodeID d then Some (nodeViewFromInfo (GetNodeInfo ev s) True) else pollNode net ev (m_ID m) None M)) (GetMembers M)"
    and counters: "vw_Counters view = map snd (sorted_list_of_fmap ?agg)"
    using view fold_members [OF GetMembers_distinct [OF assms(3)], of net ev "db_nodeID d" M "Some (nodeViewFromInfo (GetNodeInfo ev s) True)" "[]"]
    by (auto simp: BuildClusterView_def assms(1,2) infos(1) pollNode_def [of _ _ _ "Some s"] fold_node_agg Let_def split: prod.splits)
  note agg = shown_counters [OF infos(3,2), of "reports net (vw_Nodes view)"]
  have "\<forall>c \<in> set (vw_Counters view). sint (cv_Value c) =
       Max (insert (sint (PN_ValueName (cv_Name c) (sv_counter s)))
         (sint ` ci_CurrentValue ` {ci. \<exists>n. (n, ci) \<in> set (reports net (vw_Nodes view)) \<and> ci_Name ci = cv_Name c}))"
  proof
    fix c
    assume "c \<in> set (vw_Counters view)"
    then obtain i where "i \<in> set infos" "ci_Name i = cv_Name c" "sint (cv_Value c) = Max (insert (sint (ci_CurrentValue i))
        (sint ` ci_CurrentValue ` {ci. \<exists>n. (n, ci) \<in> set (reports net (vw_Nodes view)) \<and> ci_Name ci = cv_Name c}))"
      using agg(2) unfolding counters by blast
    with infos(4) show "sint (cv_Value c) = Max (insert (sint (PN_ValueName (cv_Name c) (sv_counter s)))
         (sint ` ci_CurrentValue ` {ci. \<exists>n. (n, ci) \<in> set (reports net (vw_Nodes view)) \<and> ci_Name ci = cv_Name c}))" by simp
  qed
  moreover have "map cv_Name (vw_Counters view) = map ci_Name infos" using agg(1) unfolding counters .
  ultimately show ?thesis using view infos(1) nodes by blast
qed

definition sample_dashboard :: Dashboard where
  "sample_dashboard = \<lparr>db_nodeID = ''a'', db_membership = Some (AddMember 5 ''b'' ''addr'' (NewMembership ''a'')),
     db_service = Some (NewCounterService ''a'' 5000 fmempty)\<rparr>"

theorem BuildClusterView_spec_witness:
  "\<exists>view. BuildClusterView id \<lparr>dn_info = \<lambda>_. None, dn_counters = \<lambda>_. None, dn_gather = None\<rparr> sample_env sample_dashboard = Some view \<and>
     map nv_NodeID (vw_Nodes view) = [''b''] \<and> map nv_Reachable (vw_Nodes view) = [False]"
proof -
  let ?M = "AddMember 5 ''b'' ''addr'' (NewMembership ''a'')" and ?s = "NewCounterService ''a'' 5000 fmempty"
  have d: "db_service sample_dashboard = Some ?s" "db_membership sample_dashboard = Some ?M" by (simp_all add: sample_dashboard_def)
  have ok: "membership_ok ?M" unfolding AddMember_def AddOrUpdateMember_def Let_def
    by (intro AddOrUpdateMemberStatus_ok) (simp add: NewMembership_def membership_ok_def)
  have "Shard '''' ?s \<noteq> None" by (simp add: Shard_def NewCounterService_def)
  from BuildClusterView_spec [OF d ok this, of id "\<lparr>dn_info = \<lambda>_. None, dn_counters = \<lambda>_. None, dn_gather = None\<rparr>" sample_env]
  obtain view where view: "BuildClusterView id \<lparr>dn_info = \<lambda>_. None, dn_counters = \<lambda>_. None, dn_gather = None\<rparr> sample_env sample_dashboard = Some view"
    "vw_Nodes view = map (\<lambda>m. fill_view m (if m_ID m = ''a'' then Some (nodeViewFromInfo (GetNodeInfo sample_env ?s) True)
        else pollNode \<lparr>dn_info = \<lambda>_. None, dn_counters = \<lambda>_. None, dn_gather = None\<rparr> sample_env (m_ID m) None ?M)) (GetMembers ?M)"
    by (auto simp: sample_dashboard_def)
  have "GetMembers ?M = [\<lparr>m_ID = ''b'', m_Address = ''addr'', m_Status = StatusAlive, m_IsActive = True, m_CounterValue = 0,
      m_LastHeartbeat = 5, m_SuspectCount = 0, m_Priority = 0\<rparr>]" by code_simp
  with view show ?thesis by (simp add: pollNode_def GetMember_def fill_view_def Let_def split: option.split)
qed

end
