(* ===== verification/Gateway.thy ===== *)
theory Gateway
  imports Node_Run Dashboard
begin

text \<open>
  The HTTP/JSON gateway: \<open>internal/gateway/gateway.go\<close>, the in-process half of the generated
  \<open>api/proto/counter.pb.gw.go\<close> that it registers, and the two pages of \<open>internal/dashboard\<close>.

  The grpc-gateway runtime is not part of the repository. What the code calls of it is the record \<open>gw_runtime\<close>: which
  registered route its mux picks for a request, whether \<open>AnnotateIncomingContext\<close> accepts the headers, what the
  marshaler stores into the request message when it decodes the body, and what \<open>PopulateQueryParameters\<close> stores
  there from the form. The mux sees the routes in the order in which they are registered.
\<close>

section \<open>Requests, replies and the runtime\<close>

text \<open>\<open>hq_Form\<close> is what \<open>req.ParseForm\<close> makes of the query, \<open>None\<close> when it fails.\<close>

type_synonym form = "string list gomap"

record http_request =
  hq_Method :: string
  hq_Path :: string
  hq_Header :: "string list gomap"
  hq_Body :: string
  hq_Form :: "form option"

text \<open>\<open>NewPattern version ops pool verb\<close> is a compiled pattern, \<open>Template\<close> a path that \<open>HandlePath\<close> compiles.\<close>

datatype pattern = NewPattern nat "nat list" "string list" string | Template string

type_synonym route_key = "string \<times> pattern"

datatype decode_error = EOF | Malformed

type_synonym 'm decoder = "string \<Rightarrow> 'm \<Rightarrow> decode_error option \<times> 'm"

record gw_runtime =
  gr_pick :: "route_key list \<Rightarrow> http_request \<Rightarrow> route_key option"
  gr_annotate :: "http_request \<Rightarrow> string \<Rightarrow> string \<Rightarrow> bool"
  gr_Increment :: "IncrementRequest decoder"
  gr_Decrement :: "DecrementRequest decoder"
  gr_Reset :: "ResetRequest decoder"
  gr_CreateCounter :: "CreateCounterRequest decoder"
  gr_AddNode :: "AddNodeRequest decoder"
  gr_RemoveNode :: "RemoveNodeRequest decoder"
  gr_ForceSync :: "unit decoder"
  gr_GetValue :: "form \<Rightarrow> GetValueRequest \<Rightarrow> bool \<times> GetValueRequest"
  gr_ListCounters :: "form \<Rightarrow> ListCountersRequest \<Rightarrow> bool \<times> ListCountersRequest"

datatype message =
  CounterResponse_msg CounterResponse | NodeInfo_msg NodeInfo | CounterInfo_msg CounterInfo
  | ListCountersResponse_msg "CounterInfo list" | AdminResponse_msg AdminResponse | ForceSyncResponse_msg ForceSyncResponse

datatype gw_error = InvalidArgument | Annotate_failed | Admin_failed admin_error | Rpc_failed rpc_error

text \<open>What a handler gives back: a message or an error, or the panic of \<open>Shard\<close>, which \<open>net/http\<close> recovers.\<close>

datatype answer = Answered message | Failed gw_error | Panicked

text \<open>What is written to the client. \<open>Not_routed\<close> stands for the reply of the mux itself when no route fits.\<close>

datatype http_reply =
  ForwardResponse message | HTTPError gw_error | Connection_aborted | Html_page | Json_view ClusterView | Not_routed

section \<open>The services, called in process\<close>

text \<open>Everything the services need besides the node: the environment of the handlers, \<open>%q\<close>, and for the dashboard the
  network and the rounding of \<open>float64\<close>.\<close>

record gw_env =
  gx_ev :: service_env
  gx_quote :: "string \<Rightarrow> string"
  gx_net :: dash_net
  gx_fl :: "rat \<Rightarrow> rat"

definition answer_of :: "('a \<Rightarrow> message) \<Rightarrow> 'a option \<Rightarrow> answer" where
  "answer_of msg x = (case x of None \<Rightarrow> Panicked | Some y \<Rightarrow> Answered (msg y))"

definition call_Increment :: "gw_env \<Rightarrow> IncrementRequest \<Rightarrow> Node \<Rightarrow> answer \<times> Node" where
  "call_Increment x req nd =
     (case Increment (gx_ev x) req (nd_service nd) of (r, s) \<Rightarrow> (Answered (CounterResponse_msg r), nd\<lparr>nd_service := s\<rparr>))"

definition call_Decrement :: "gw_env \<Rightarrow> DecrementRequest \<Rightarrow> Node \<Rightarrow> answer \<times> Node" where
  "call_Decrement x req nd =
     (case Decrement (gx_ev x) req (nd_service nd) of (r, s) \<Rightarrow> (Answered (CounterResponse_msg r), nd\<lparr>nd_service := s\<rparr>))"

definition call_GetValue :: "gw_env \<Rightarrow> GetValueRequest \<Rightarrow> Node \<Rightarrow> answer \<times> Node" where
  "call_GetValue x req nd = (Answered (CounterResponse_msg (GetValue (gx_ev x) (gv_CounterName req) (nd_service nd))), nd)"

definition call_GetNodeInfo :: "gw_env \<Rightarrow> Node \<Rightarrow> answer \<times> Node" where
  "call_GetNodeInfo x nd = (Answered (NodeInfo_msg (GetNodeInfo (gx_ev x) (nd_service nd))), nd)"

text \<open>The callback that \<open>main\<close> registers is \<open>InvalidateBaselines\<close> of the gossip engine.\<close>

definition call_Reset :: "gw_env \<Rightarrow> ResetRequest \<Rightarrow> Node \<Rightarrow> answer \<times> Node" where
  "call_Reset x req nd =
     (case Reset (gx_ev x) (rs_CounterName req) (nd_service nd) of
        (r, called, s) \<Rightarrow>
          (Answered (CounterResponse_msg r),
           nd\<lparr>nd_service := s, nd_engine := (if called then InvalidateBaselines (nd_engine nd) else nd_engine nd)\<rparr>))"

definition call_CreateCounter :: "gw_env \<Rightarrow> CreateCounterRequest \<Rightarrow> Node \<Rightarrow> answer \<times> Node" where
  "call_CreateCounter x req nd =
     (case CreateCounter (cc_Name req) (cc_Tags req) (nd_service nd) of
        (info, s) \<Rightarrow> (answer_of CounterInfo_msg info, nd\<lparr>nd_service := s\<rparr>))"

definition call_ListCounters :: "gw_env \<Rightarrow> ListCountersRequest \<Rightarrow> Node \<Rightarrow> answer \<times> Node" where
  "call_ListCounters x req nd = (answer_of ListCountersResponse_msg (ListCounters (lc_Tag req) (nd_service nd)), nd)"

text \<open>The admin service shares the member table with the counter service.\<close>

definition table_of :: "Node \<Rightarrow> Membership" where
  "table_of nd = (case sv_cluster (nd_service nd) of None \<Rightarrow> NewMembership '''' | Some M \<Rightarrow> M)"

definition answer_admin :: "admin_error + AdminResponse \<Rightarrow> answer" where
  "answer_admin r = (case r of Inl e \<Rightarrow> Failed (Admin_failed e) | Inr m \<Rightarrow> Answered (AdminResponse_msg m))"

definition call_AddNode :: "gw_env \<Rightarrow> AddNodeRequest \<Rightarrow> Node \<Rightarrow> answer \<times> Node" where
  "call_AddNode x req nd =
     (let add = AD_AddNode (gx_quote x) (ev_now (gx_ev x)) (an_NodeId req) (an_Address req) (nd_admin nd)
      in (answer_admin (fst (add (table_of nd))), on_table (\<lambda>M. snd (add M)) nd))"

definition call_RemoveNode :: "gw_env \<Rightarrow> RemoveNodeRequest \<Rightarrow> Node \<Rightarrow> answer \<times> Node" where
  "call_RemoveNode x req nd =
     (let rem = AD_RemoveNode (gx_quote x) (rm_NodeId req) (nd_admin nd)
      in (answer_admin (fst (rem (table_of nd))), on_table (\<lambda>M. snd (rem M)) nd))"

definition call_ForceSync :: "gw_env \<Rightarrow> Node \<Rightarrow> answer \<times> Node" where
  "call_ForceSync x nd =
     (case AD_ForceSync (nd_admin nd) (table_of nd) (nd_engine nd) of
        (r, g, launched) \<Rightarrow> (Answered (ForceSyncResponse_msg r), nd\<lparr>nd_engine := g\<rparr>))"

section \<open>The generated handlers\<close>

text \<open>The request message before anything is stored into it.\<close>

definition zero_Increment :: IncrementRequest where
  "zero_Increment = \<lparr>ir_Delta = 0, ir_ClientId = '''', ir_Timestamp = 0, ir_CounterName = ''''\<rparr>"

definition zero_Decrement :: DecrementRequest where
  "zero_Decrement = \<lparr>dr_Delta = 0, dr_ClientId = '''', dr_Timestamp = 0, dr_CounterName = ''''\<rparr>"

text \<open>\<open>Decode\<close> into the message, then the call unless the error is one other than the end of the body.\<close>

definition with_body :: "'m decoder \<Rightarrow> 'm \<Rightarrow> ('m \<Rightarrow> Node \<Rightarrow> answer \<times> Node) \<Rightarrow> http_request \<Rightarrow> Node \<Rightarrow> answer \<times> Node" where
  "with_body decode protoReq server req nd =
     (case decode (hq_Body req) protoReq of
        (err, protoReq) \<Rightarrow>
          if err \<noteq> None \<and> err \<noteq> Some EOF then (Failed InvalidArgument, nd) else server protoReq nd)"

definition with_form ::
  "(form \<Rightarrow> 'm \<Rightarrow> bool \<times> 'm) \<Rightarrow> 'm \<Rightarrow> ('m \<Rightarrow> Node \<Rightarrow> answer \<times> Node) \<Rightarrow> http_request \<Rightarrow> Node \<Rightarrow> answer \<times> Node" where
  "with_form populate protoReq server req nd =
     (case hq_Form req of
        None \<Rightarrow> (Failed InvalidArgument, nd)
      | Some vals \<Rightarrow>
          (case populate vals protoReq of
             (ok, protoReq) \<Rightarrow> if \<not> ok then (Failed InvalidArgument, nd) else server protoReq nd))"

definition local_request_CounterService_Increment_0 :: "gw_runtime \<Rightarrow> gw_env \<Rightarrow> http_request \<Rightarrow> Node \<Rightarrow> answer \<times> Node" where
  "local_request_CounterService_Increment_0 rt x = with_body (gr_Increment rt) zero_Increment (call_Increment x)"

definition local_request_CounterService_Decrement_0 :: "gw_runtime \<Rightarrow> gw_env \<Rightarrow> http_request \<Rightarrow> Node \<Rightarrow> answer \<times> Node" where
  "local_request_CounterService_Decrement_0 rt x = with_body (gr_Decrement rt) zero_Decrement (call_Decrement x)"

definition local_request_CounterService_GetValue_0 :: "gw_runtime \<Rightarrow> gw_env \<Rightarrow> http_request \<Rightarrow> Node \<Rightarrow> answer \<times> Node" where
  "local_request_CounterService_GetValue_0 rt x =
     with_form (gr_GetValue rt) \<lparr>gv_NodeId = '''', gv_CounterName = ''''\<rparr> (call_GetValue x)"

definition local_request_CounterService_GetNodeInfo_0 :: "gw_runtime \<Rightarrow> gw_env \<Rightarrow> http_request \<Rightarrow> Node \<Rightarrow> answer \<times> Node" where
  "local_request_CounterService_GetNodeInfo_0 rt x req = call_GetNodeInfo x"

definition local_request_CounterService_Reset_0 :: "gw_runtime \<Rightarrow> gw_env \<Rightarrow> http_request \<Rightarrow> Node \<Rightarrow> answer \<times> Node" where
  "local_request_CounterService_Reset_0 rt x =
     with_body (gr_Reset rt) \<lparr>rs_NodeId = '''', rs_CounterName = ''''\<rparr> (call_Reset x)"

definition local_request_CounterService_CreateCounter_0 :: "gw_runtime \<Rightarrow> gw_env \<Rightarrow> http_request \<Rightarrow> Node \<Rightarrow> answer \<times> Node" where
  "local_request_CounterService_CreateCounter_0 rt x =
     with_body (gr_CreateCounter rt) \<lparr>cc_Name = '''', cc_Tags = []\<rparr> (call_CreateCounter x)"

definition local_request_CounterService_ListCounters_0 :: "gw_runtime \<Rightarrow> gw_env \<Rightarrow> http_request \<Rightarrow> Node \<Rightarrow> answer \<times> Node" where
  "local_request_CounterService_ListCounters_0 rt x =
     with_form (gr_ListCounters rt) \<lparr>lc_Tag = ''''\<rparr> (call_ListCounters x)"

definition local_request_AdminService_AddNode_0 :: "gw_runtime \<Rightarrow> gw_env \<Rightarrow> http_request \<Rightarrow> Node \<Rightarrow> answer \<times> Node" where
  "local_request_AdminService_AddNode_0 rt x =
     with_body (gr_AddNode rt) \<lparr>an_NodeId = '''', an_Address = ''''\<rparr> (call_AddNode x)"

definition local_request_AdminService_RemoveNode_0 :: "gw_runtime \<Rightarrow> gw_env \<Rightarrow> http_request \<Rightarrow> Node \<Rightarrow> answer \<times> Node" where
  "local_request_AdminService_RemoveNode_0 rt x = with_body (gr_RemoveNode rt) \<lparr>rm_NodeId = ''''\<rparr> (call_RemoveNode x)"

definition local_request_AdminService_ForceSync_0 :: "gw_runtime \<Rightarrow> gw_env \<Rightarrow> http_request \<Rightarrow> Node \<Rightarrow> answer \<times> Node" where
  "local_request_AdminService_ForceSync_0 rt x = with_body (gr_ForceSync rt) () (\<lambda>_. call_ForceSync x)"

section \<open>Registration\<close>

type_synonym http_handler = "http_request \<Rightarrow> Node \<Rightarrow> http_reply \<times> Node"

type_synonym routes = "(route_key \<times> http_handler) list"

text \<open>The closure that is registered for every method; the methods differ in the name of the RPC, the path and the
  local request.\<close>

definition handle_rpc ::
  "gw_runtime \<Rightarrow> string \<Rightarrow> string \<Rightarrow> (http_request \<Rightarrow> Node \<Rightarrow> answer \<times> Node) \<Rightarrow> http_handler" where
  "handle_rpc rt rpcName path local_request req nd =
     (if \<not> gr_annotate rt req rpcName path then (HTTPError Annotate_failed, nd)
      else (case local_request req nd of
          (Failed e, nd) \<Rightarrow> (HTTPError e, nd)
        | (Panicked, nd) \<Rightarrow> (Connection_aborted, nd)
        | (Answered resp, nd) \<Rightarrow> (ForwardResponse resp, nd)))"

definition pattern_CounterService_Increment_0 :: pattern where
  "pattern_CounterService_Increment_0 = NewPattern 1 [2, 0, 2, 1, 2, 2] [''v1'', ''counter'', ''increment''] ''''"

definition pattern_CounterService_Decrement_0 :: pattern where
  "pattern_CounterService_Decrement_0 = NewPattern 1 [2, 0, 2, 1, 2, 2] [''v1'', ''counter'', ''decrement''] ''''"

definition pattern_CounterService_GetValue_0 :: pattern where
  "pattern_CounterService_GetValue_0 = NewPattern 1 [2, 0, 2, 1, 2, 2] [''v1'', ''counter'', ''value''] ''''"

definition pattern_CounterService_GetNodeInfo_0 :: pattern where
  "pattern_CounterService_GetNodeInfo_0 = NewPattern 1 [2, 0, 2, 1, 2, 2] [''v1'', ''node'', ''info''] ''''"

definition pattern_CounterService_Reset_0 :: pattern where
  "pattern_CounterService_Reset_0 = NewPattern 1 [2, 0, 2, 1, 2, 2] [''v1'', ''counter'', ''reset''] ''''"

definition pattern_CounterService_CreateCounter_0 :: pattern where
  "pattern_CounterService_CreateCounter_0 = NewPattern 1 [2, 0, 2, 1] [''v1'', ''counter''] ''''"

definition pattern_CounterService_ListCounters_0 :: pattern where
  "pattern_CounterService_ListCounters_0 = NewPattern 1 [2, 0, 2, 1] [''v1'', ''counters''] ''''"

definition pattern_AdminService_AddNode_0 :: pattern where
  "pattern_AdminService_AddNode_0 = NewPattern 1 [2, 0, 2, 1, 2, 2] [''v1'', ''admin'', ''add-node''] ''''"

definition pattern_AdminService_RemoveNode_0 :: pattern where
  "pattern_AdminService_RemoveNode_0 = NewPattern 1 [2, 0, 2, 1, 2, 2] [''v1'', ''admin'', ''remove-node''] ''''"

definition pattern_AdminService_ForceSync_0 :: pattern where
  "pattern_AdminService_ForceSync_0 = NewPattern 1 [2, 0, 2, 1, 2, 2] [''v1'', ''admin'', ''force-sync''] ''''"

lemmas pattern_defs =
  pattern_CounterService_Increment_0_def pattern_CounterService_Decrement_0_def pattern_CounterService_GetValue_0_def
  pattern_CounterService_GetNodeInfo_0_def pattern_CounterService_Reset_0_def pattern_CounterService_CreateCounter_0_def
  pattern_CounterService_ListCounters_0_def pattern_AdminService_AddNode_0_def pattern_AdminService_RemoveNode_0_def
  pattern_AdminService_ForceSync_0_def

definition RegisterCounterServiceHandlerServer :: "gw_runtime \<Rightarrow> gw_env \<Rightarrow> routes \<Rightarrow> routes" where
  "RegisterCounterServiceHandlerServer rt x mux = mux @
     [((''POST'', pattern_CounterService_Increment_0), handle_rpc rt ''/counter.CounterService/Increment''
         ''/v1/counter/increment'' (local_request_CounterService_Increment_0 rt x)),
      ((''POST'', pattern_CounterService_Decrement_0), handle_rpc rt ''/counter.CounterService/Decrement''
         ''/v1/counter/decrement'' (local_request_CounterService_Decrement_0 rt x)),
      ((''GET'', pattern_CounterService_GetValue_0), handle_rpc rt ''/counter.CounterService/GetValue''
         ''/v1/counter/value'' (local_request_CounterService_GetValue_0 rt x)),
      ((''GET'', pattern_CounterService_GetNodeInfo_0), handle_rpc rt ''/counter.CounterService/GetNodeInfo''
         ''/v1/node/info'' (local_request_CounterService_GetNodeInfo_0 rt x)),
      ((''POST'', pattern_CounterService_Reset_0), handle_rpc rt ''/counter.CounterService/Reset''
         ''/v1/counter/reset'' (local_request_CounterService_Reset_0 rt x)),
      ((''POST'', pattern_CounterService_CreateCounter_0), handle_rpc rt ''/counter.CounterService/CreateCounter''
         ''/v1/counter'' (local_request_CounterService_CreateCounter_0 rt x)),
      ((''GET'', pattern_CounterService_ListCounters_0), handle_rpc rt ''/counter.CounterService/ListCounters''
         ''/v1/counters'' (local_request_CounterService_ListCounters_0 rt x))]"

definition RegisterAdminServiceHandlerServer :: "gw_runtime \<Rightarrow> gw_env \<Rightarrow> routes \<Rightarrow> routes" where
  "RegisterAdminServiceHandlerServer rt x mux = mux @
     [((''POST'', pattern_AdminService_AddNode_0), handle_rpc rt ''/counter.AdminService/AddNode''
         ''/v1/admin/add-node'' (local_request_AdminService_AddNode_0 rt x)),
      ((''POST'', pattern_AdminService_RemoveNode_0), handle_rpc rt ''/counter.AdminService/RemoveNode''
         ''/v1/admin/remove-node'' (local_request_AdminService_RemoveNode_0 rt x)),
      ((''POST'', pattern_AdminService_ForceSync_0), handle_rpc rt ''/counter.AdminService/ForceSync''
         ''/v1/admin/force-sync'' (local_request_AdminService_ForceSync_0 rt x))]"

section \<open>The dashboard pages and the gateway server\<close>

text \<open>\<open>dashboard.New\<close> as \<open>main\<close> calls it, over the member table and the service of the node.\<close>

definition node_dashboard :: "Node \<Rightarrow> Dashboard" where
  "node_dashboard nd = \<lparr>db_nodeID = sv_nodeID (nd_service nd), db_membership = sv_cluster (nd_service nd),
     db_service = Some (nd_service nd)\<rparr>"

definition dash_Index :: http_handler where
  "dash_Index req nd = (Html_page, nd)"

definition dash_Cluster :: "gw_env \<Rightarrow> http_handler" where
  "dash_Cluster x req nd =
     (case BuildClusterView (gx_fl x) (gx_net x) (gx_ev x) (node_dashboard nd) of
        None \<Rightarrow> (Connection_aborted, nd) | Some view \<Rightarrow> (Json_view view, nd))"

text \<open>The options say whether an admin service and a dashboard are given.\<close>

definition gateway_New :: "gw_runtime \<Rightarrow> gw_env \<Rightarrow> bool \<Rightarrow> bool \<Rightarrow> routes" where
  "gateway_New rt x hasAdmin hasDashboard =
     (let mux = RegisterCounterServiceHandlerServer rt x [];
          mux = (if hasAdmin then RegisterAdminServiceHandlerServer rt x mux else mux)
      in if hasDashboard
         then mux @ [((''GET'', Template ''/api/cluster''), dash_Cluster x), ((''GET'', Template ''/''), dash_Index)]
         else mux)"

text \<open>One request through the mux. The keys are pairwise different, so each names one handler.\<close>

definition gateway_serve :: "gw_runtime \<Rightarrow> routes \<Rightarrow> http_handler" where
  "gateway_serve rt mux req nd =
     (case gr_pick rt (map fst mux) req of
        None \<Rightarrow> (Not_routed, nd)
      | Some k \<Rightarrow> (case map_of mux k of None \<Rightarrow> (Not_routed, nd) | Some h \<Rightarrow> h req nd))"

section \<open>What the runtime promises\<close>

text \<open>The operation 2 of a compiled pattern pushes a literal of the pool; a pattern of literals spells one path.\<close>

fun spelled :: "string list \<Rightarrow> nat list \<Rightarrow> string option" where
  "spelled pool [] = Some []"
| "spelled pool (Suc (Suc 0) # i # ops) =
     (if i < length pool then map_option (\<lambda>rest. CHR ''/'' # pool ! i @ rest) (spelled pool ops) else None)"
| "spelled pool ops = None"

fun literal_path :: "pattern \<Rightarrow> string option" where
  "literal_path (NewPattern version ops pool verb) = (if version = 1 \<and> verb = '''' then spelled pool ops else None)"
| "literal_path (Template t) = (if set t \<inter> set ''{}*:'' = {} then Some t else None)"

text \<open>
  The documented behaviour of the mux that the gateway relies on: when all the routes are literal and no two of them agree
  in method and path, a request without a method override is handed to the route with its method and path.
\<close>

definition literal_mux :: "(route_key list \<Rightarrow> http_request \<Rightarrow> route_key option) \<Rightarrow> bool" where
  "literal_mux pick \<longleftrightarrow>
     (\<forall>keys req k. (\<forall>k' \<in> set keys. literal_path (snd k') \<noteq> None) \<and>
        distinct (map (\<lambda>k'. (fst k', literal_path (snd k'))) keys) \<and>
        fmlookup (hq_Header req) ''X-Http-Method-Override'' = None \<and> colon_free (hq_Path req) \<and>
        k \<in> set keys \<and> fst k = hq_Method req \<and> literal_path (snd k) = Some (hq_Path req)
        \<longrightarrow> pick keys req = Some k)"

text \<open>
  Also documented: without a method override the mux only hands a request to a registered route with the method of the request, except that
  a \<open>POST\<close> of a form may fall back to a \<open>GET\<close> route; and where all the routes are literal, only to one with its path.
\<close>

definition form_fallback :: "http_request \<Rightarrow> bool" where
  "form_fallback req \<longleftrightarrow>
     hq_Method req = ''POST'' \<and>
     (case fmlookup (hq_Header req) ''Content-Type'' of Some (v # vs) \<Rightarrow> v = ''application/x-www-form-urlencoded'' | _ \<Rightarrow> False)"

definition strict_mux :: "(route_key list \<Rightarrow> http_request \<Rightarrow> route_key option) \<Rightarrow> bool" where
  "strict_mux pick \<longleftrightarrow>
     (\<forall>keys req k. fmlookup (hq_Header req) ''X-Http-Method-Override'' = None \<and> pick keys req = Some k \<longrightarrow>
        k \<in> set keys \<and> (fst k = hq_Method req \<or> form_fallback req \<and> fst k = ''GET'') \<and>
        ((\<forall>k' \<in> set keys. literal_path (snd k') \<noteq> None) \<and> colon_free (hq_Path req) \<longrightarrow> literal_path (snd k) = Some (hq_Path req)))"

section \<open>The reference: the annotations of the service definition\<close>

datatype rpc =
  Rpc_Increment | Rpc_Decrement | Rpc_GetValue | Rpc_GetNodeInfo | Rpc_Reset | Rpc_CreateCounter | Rpc_ListCounters
  | Rpc_AddNode | Rpc_RemoveNode | Rpc_ForceSync

text \<open>The options \<open>google.api.http\<close> of \<open>counter.proto\<close>.\<close>

fun http_rule :: "rpc \<Rightarrow> string \<times> string" where
  "http_rule Rpc_Increment = (''POST'', ''/v1/counter/increment'')"
| "http_rule Rpc_Decrement = (''POST'', ''/v1/counter/decrement'')"
| "http_rule Rpc_GetValue = (''GET'', ''/v1/counter/value'')"
| "http_rule Rpc_GetNodeInfo = (''GET'', ''/v1/node/info'')"
| "http_rule Rpc_Reset = (''POST'', ''/v1/counter/reset'')"
| "http_rule Rpc_CreateCounter = (''POST'', ''/v1/counter'')"
| "http_rule Rpc_ListCounters = (''GET'', ''/v1/counters'')"
| "http_rule Rpc_AddNode = (''POST'', ''/v1/admin/add-node'')"
| "http_rule Rpc_RemoveNode = (''POST'', ''/v1/admin/remove-node'')"
| "http_rule Rpc_ForceSync = (''POST'', ''/v1/admin/force-sync'')"

fun full_method :: "rpc \<Rightarrow> string" where
  "full_method Rpc_Increment = ''/counter.CounterService/Increment''"
| "full_method Rpc_Decrement = ''/counter.CounterService/Decrement''"
| "full_method Rpc_GetValue = ''/counter.CounterService/GetValue''"
| "full_method Rpc_GetNodeInfo = ''/counter.CounterService/GetNodeInfo''"
| "full_method Rpc_Reset = ''/counter.CounterService/Reset''"
| "full_method Rpc_CreateCounter = ''/counter.CounterService/CreateCounter''"
| "full_method Rpc_ListCounters = ''/counter.CounterService/ListCounters''"
| "full_method Rpc_AddNode = ''/counter.AdminService/AddNode''"
| "full_method Rpc_RemoveNode = ''/counter.AdminService/RemoveNode''"
| "full_method Rpc_ForceSync = ''/counter.AdminService/ForceSync''"

text \<open>A body (\<open>body: "*"\<close>) or the query as a message, \<open>None\<close> when the request is refused.\<close>

definition body_message :: "'m decoder \<Rightarrow> 'm \<Rightarrow> http_request \<Rightarrow> 'm option" where
  "body_message decode zero req =
     (case decode (hq_Body req) zero of (Some Malformed, m) \<Rightarrow> None | (Some EOF, m) \<Rightarrow> Some m | (None, m) \<Rightarrow> Some m)"

definition query_message :: "(form \<Rightarrow> 'm \<Rightarrow> bool \<times> 'm) \<Rightarrow> 'm \<Rightarrow> http_request \<Rightarrow> 'm option" where
  "query_message populate zero req =
     Option.bind (hq_Form req) (\<lambda>vals. if fst (populate vals zero) then Some (snd (populate vals zero)) else None)"

definition serve_message :: "('m \<Rightarrow> Node \<Rightarrow> answer \<times> Node) \<Rightarrow> 'm option \<Rightarrow> Node \<Rightarrow> answer \<times> Node" where
  "serve_message handler m nd = (case m of None \<Rightarrow> (Failed InvalidArgument, nd) | Some m \<Rightarrow> handler m nd)"

fun rpc_answer :: "gw_runtime \<Rightarrow> gw_env \<Rightarrow> rpc \<Rightarrow> http_request \<Rightarrow> Node \<Rightarrow> answer \<times> Node" where
  "rpc_answer rt x Rpc_Increment req = serve_message (call_Increment x) (body_message (gr_Increment rt) zero_Increment req)"
| "rpc_answer rt x Rpc_Decrement req = serve_message (call_Decrement x) (body_message (gr_Decrement rt) zero_Decrement req)"
| "rpc_answer rt x Rpc_GetValue req =
     serve_message (call_GetValue x) (query_message (gr_GetValue rt) \<lparr>gv_NodeId = '''', gv_CounterName = ''''\<rparr> req)"
| "rpc_answer rt x Rpc_GetNodeInfo req = call_GetNodeInfo x"
| "rpc_answer rt x Rpc_Reset req =
     serve_message (call_Reset x) (body_message (gr_Reset rt) \<lparr>rs_NodeId = '''', rs_CounterName = ''''\<rparr> req)"
| "rpc_answer rt x Rpc_CreateCounter req =
     serve_message (call_CreateCounter x) (body_message (gr_CreateCounter rt) \<lparr>cc_Name = '''', cc_Tags = []\<rparr> req)"
| "rpc_answer rt x Rpc_ListCounters req =
     serve_message (call_ListCounters x) (query_message (gr_ListCounters rt) \<lparr>lc_Tag = ''''\<rparr> req)"
| "rpc_answer rt x Rpc_AddNode req =
     serve_message (call_AddNode x) (body_message (gr_AddNode rt) \<lparr>an_NodeId = '''', an_Address = ''''\<rparr> req)"
| "rpc_answer rt x Rpc_RemoveNode req =
     serve_message (call_RemoveNode x) (body_message (gr_RemoveNode rt) \<lparr>rm_NodeId = ''''\<rparr> req)"
| "rpc_answer rt x Rpc_ForceSync req = serve_message (\<lambda>_. call_ForceSync x) (body_message (gr_ForceSync rt) () req)"

fun reply_to :: "answer \<Rightarrow> http_reply" where
  "reply_to (Answered m) = ForwardResponse m"
| "reply_to (Failed e) = HTTPError e"
| "reply_to Panicked = Connection_aborted"

lemma with_body_message: "with_body decode zero server req = serve_message server (body_message decode zero req)"
  by (rule ext) (auto simp: with_body_def serve_message_def body_message_def split: prod.split option.split decode_error.split)

lemma with_form_query: "with_form populate zero server req = serve_message server (query_message populate zero req)"
  by (rule ext) (auto simp: with_form_def serve_message_def query_message_def split: prod.split option.split)

lemma handle_rpc_eq:
  "handle_rpc rt rpcName path local req nd =
     (if gr_annotate rt req rpcName path then map_prod reply_to id (local req nd) else (HTTPError Annotate_failed, nd))"
  by (auto simp: handle_rpc_def split: prod.split answer.split)

lemmas local_request_defs =
  local_request_CounterService_Increment_0_def local_request_CounterService_Decrement_0_def
  local_request_CounterService_GetValue_0_def local_request_CounterService_GetNodeInfo_0_def
  local_request_CounterService_Reset_0_def local_request_CounterService_CreateCounter_0_def
  local_request_CounterService_ListCounters_0_def local_request_AdminService_AddNode_0_def
  local_request_AdminService_RemoveNode_0_def local_request_AdminService_ForceSync_0_def

lemmas call_defs =
  call_Increment_def call_Decrement_def call_GetValue_def call_GetNodeInfo_def call_Reset_def call_CreateCounter_def
  call_ListCounters_def call_AddNode_def call_RemoveNode_def call_ForceSync_def

section \<open>The table of routes\<close>

text \<open>The pattern that is registered for each method.\<close>

fun rpc_pattern :: "rpc \<Rightarrow> pattern" where
  "rpc_pattern Rpc_Increment = pattern_CounterService_Increment_0"
| "rpc_pattern Rpc_Decrement = pattern_CounterService_Decrement_0"
| "rpc_pattern Rpc_GetValue = pattern_CounterService_GetValue_0"
| "rpc_pattern Rpc_GetNodeInfo = pattern_CounterService_GetNodeInfo_0"
| "rpc_pattern Rpc_Reset = pattern_CounterService_Reset_0"
| "rpc_pattern Rpc_CreateCounter = pattern_CounterService_CreateCounter_0"
| "rpc_pattern Rpc_ListCounters = pattern_CounterService_ListCounters_0"
| "rpc_pattern Rpc_AddNode = pattern_AdminService_AddNode_0"
| "rpc_pattern Rpc_RemoveNode = pattern_AdminService_RemoveNode_0"
| "rpc_pattern Rpc_ForceSync = pattern_AdminService_ForceSync_0"

lemma rpc_pattern_path: "literal_path (rpc_pattern r) = Some (snd (http_rule r))"
  by (cases r) (simp_all add: pattern_defs eval_nat_numeral)

lemma rpc_path_plain: "colon_free (snd (http_rule r))"
  by (cases r) simp_all

abbreviation rpcs :: "rpc list" where
  "rpcs \<equiv> [Rpc_Increment, Rpc_Decrement, Rpc_GetValue, Rpc_GetNodeInfo, Rpc_Reset, Rpc_CreateCounter, Rpc_ListCounters,
     Rpc_AddNode, Rpc_RemoveNode, Rpc_ForceSync]"

lemma all_rpcs: "r \<in> set rpcs"
  by (cases r) simp_all

definition rpc_route :: "gw_runtime \<Rightarrow> gw_env \<Rightarrow> rpc \<Rightarrow> route_key \<times> http_handler" where
  "rpc_route rt x r = ((fst (http_rule r), rpc_pattern r), handle_rpc rt (full_method r) (snd (http_rule r)) (rpc_answer rt x r))"

lemma gateway_New_eq:
  "gateway_New rt x True True =
     map (rpc_route rt x) rpcs @ [((''GET'', Template ''/api/cluster''), dash_Cluster x), ((''GET'', Template ''/''), dash_Index)]"
  by (simp add: gateway_New_def RegisterCounterServiceHandlerServer_def RegisterAdminServiceHandlerServer_def rpc_route_def
      local_request_defs with_body_message with_form_query handle_rpc_eq fun_eq_iff)

lemmas pattern_paths = rpc_pattern_path [of Rpc_Increment, simplified] rpc_pattern_path [of Rpc_Decrement, simplified]
  rpc_pattern_path [of Rpc_GetValue, simplified] rpc_pattern_path [of Rpc_GetNodeInfo, simplified]
  rpc_pattern_path [of Rpc_Reset, simplified] rpc_pattern_path [of Rpc_CreateCounter, simplified]
  rpc_pattern_path [of Rpc_ListCounters, simplified] rpc_pattern_path [of Rpc_AddNode, simplified]
  rpc_pattern_path [of Rpc_RemoveNode, simplified] rpc_pattern_path [of Rpc_ForceSync, simplified]

lemma gateway_keys:
  "\<forall>k \<in> set (map fst (gateway_New rt x True True)). literal_path (snd k) \<noteq> None"
  "distinct (map (\<lambda>k. (fst k, literal_path (snd k))) (map fst (gateway_New rt x True True)))"
  by (simp_all add: gateway_New_eq rpc_route_def pattern_paths)

lemma rpc_route_in: "rpc_route rt x r \<in> set (gateway_New rt x True True)"
  unfolding gateway_New_eq set_append set_map by (intro UnI1 imageI all_rpcs)

lemma gateway_lookup:
  "map_of (gateway_New rt x True True) (fst (http_rule r), rpc_pattern r) =
     Some (handle_rpc rt (full_method r) (snd (http_rule r)) (rpc_answer rt x r))"
proof (rule map_of_is_SomeI)
  show "distinct (map fst (gateway_New rt x True True))" using gateway_keys(2) [of rt x] unfolding distinct_map by (rule conjunct1)
  show "((fst (http_rule r), rpc_pattern r), handle_rpc rt (full_method r) (snd (http_rule r)) (rpc_answer rt x r))
    \<in> set (gateway_New rt x True True)"
    using rpc_route_in [of rt x r] by (simp only: rpc_route_def)
qed

lemma literal_muxD:
  assumes "literal_mux pick" and "\<forall>k' \<in> set keys. literal_path (snd k') \<noteq> None"
    and "distinct (map (\<lambda>k'. (fst k', literal_path (snd k'))) keys)"
    and "fmlookup (hq_Header req) ''X-Http-Method-Override'' = None" and "colon_free (hq_Path req)"
    and "k \<in> set keys" and "fst k = hq_Method req" and "literal_path (snd k) = Some (hq_Path req)"
  shows "pick keys req = Some k"
  using assms unfolding literal_mux_def by blast

lemma gateway_routed:
  assumes "literal_mux (gr_pick rt)" and "http_rule r = (hq_Method req, hq_Path req)"
    and "fmlookup (hq_Header req) ''X-Http-Method-Override'' = None"
  shows "gateway_serve rt (gateway_New rt x True True) req =
    handle_rpc rt (full_method r) (hq_Path req) (rpc_answer rt x r) req"
proof -
  have "(fst (http_rule r), rpc_pattern r) \<in> set (map fst (gateway_New rt x True True))"
    using imageI [OF rpc_route_in [of rt x r], of fst] unfolding set_map by (simp only: rpc_route_def fst_conv)
  then have "gr_pick rt (map fst (gateway_New rt x True True)) req = Some (fst (http_rule r), rpc_pattern r)"
    using rpc_path_plain [of r] rpc_pattern_path [of r]
    by (intro literal_muxD [OF assms(1) gateway_keys assms(3)]) (simp_all only: assms(2) fst_conv snd_conv not_False_eq_True)
  then show ?thesis unfolding gateway_serve_def by (intro ext) (simp only: gateway_lookup option.case, simp only: assms(2) snd_conv)
qed

text \<open>Whatever the mux picks: the state stays, or one of the methods is called.\<close>

lemma gateway_routes:
  assumes "(k, h) \<in> set (gateway_New rt x True True)"
  obtains r where "h = handle_rpc rt (full_method r) (snd (http_rule r)) (rpc_answer rt x r)"
    | "h = dash_Cluster x" | "h = dash_Index"
proof -
  from assms have "(\<exists>r. (k, h) = rpc_route rt x r) \<or> h = dash_Cluster x \<or> h = dash_Index"
    unfolding gateway_New_eq set_append set_map by (elim UnE imageE) auto
  with that show ?thesis by (auto simp: rpc_route_def)
qed

lemma gateway_serve_cases:
  "snd (gateway_serve rt (gateway_New rt x True True) req nd) = nd \<or>
   (\<exists>r. gateway_serve rt (gateway_New rt x True True) req nd = map_prod reply_to id (rpc_answer rt x r req nd))"
proof -
  have "snd (h req nd) = nd \<or> (\<exists>r. h req nd = map_prod reply_to id (rpc_answer rt x r req nd))"
    if "(k, h) \<in> set (gateway_New rt x True True)" for k h
    using gateway_routes [OF that] by cases (auto simp: handle_rpc_eq dash_Cluster_def dash_Index_def split: option.split)
  then show ?thesis by (auto simp: gateway_serve_def split: option.split dest: map_of_SomeD)
qed

section \<open>Requests as steps of the node\<close>

lemma serve_message_run: "(\<And>m. node_step\<^sup>*\<^sup>* nd (snd (handler m nd))) \<Longrightarrow> node_step\<^sup>*\<^sup>* nd (snd (serve_message handler m nd))"
  by (simp add: serve_message_def split: option.split)

lemma handler_run: "handler_step (nd_service nd) s' \<Longrightarrow> node_step\<^sup>*\<^sup>* nd (nd\<lparr>nd_service := s'\<rparr>)"
  by (rule r_into_rtranclp) (rule node_step.handler)

lemma call_run:
  assumes "node_ok i nd"
  shows "node_step\<^sup>*\<^sup>* nd (snd (call_Increment x ireq nd))" "node_step\<^sup>*\<^sup>* nd (snd (call_Decrement x dreq nd))"
    "node_step\<^sup>*\<^sup>* nd (snd (call_GetValue x greq nd))" "node_step\<^sup>*\<^sup>* nd (snd (call_GetNodeInfo x nd))"
    "node_step\<^sup>*\<^sup>* nd (snd (call_Reset x rreq nd))" "node_step\<^sup>*\<^sup>* nd (snd (call_CreateCounter x creq nd))"
    "node_step\<^sup>*\<^sup>* nd (snd (call_ListCounters x lreq nd))" "node_step\<^sup>*\<^sup>* nd (snd (call_AddNode x areq nd))"
    "node_step\<^sup>*\<^sup>* nd (snd (call_RemoveNode x mreq nd))" "node_step\<^sup>*\<^sup>* nd (snd (call_ForceSync x nd))"
proof -
  show "node_step\<^sup>*\<^sup>* nd (snd (call_Increment x ireq nd))"
    using handler_run [OF handler_step.increment] by (simp add: call_Increment_def split: prod.split) (metis snd_conv)
  show "node_step\<^sup>*\<^sup>* nd (snd (call_Decrement x dreq nd))"
    using handler_run [OF handler_step.decrement] by (simp add: call_Decrement_def split: prod.split) (metis snd_conv)
  show "node_step\<^sup>*\<^sup>* nd (snd (call_CreateCounter x creq nd))"
    using handler_run [OF handler_step.create] by (simp add: call_CreateCounter_def split: prod.split) (metis snd_conv)
  show "node_step\<^sup>*\<^sup>* nd (snd (call_Reset x rreq nd))"
  proof (cases "Reset (gx_ev x) (rs_CounterName rreq) (nd_service nd)")
    case (fields r called s)
    from r_into_rtranclp [of node_step, OF node_step.reset [OF fields]] show ?thesis by (simp add: call_Reset_def fields)
  qed
  show "node_step\<^sup>*\<^sup>* nd (snd (call_AddNode x areq nd))" "node_step\<^sup>*\<^sup>* nd (snd (call_RemoveNode x mreq nd))"
    by (auto simp: call_AddNode_def call_RemoveNode_def Let_def intro: r_into_rtranclp node_step.add_node node_step.remove_node)
  show "node_step\<^sup>*\<^sup>* nd (snd (call_ForceSync x nd))"
    using assms by (auto simp: call_ForceSync_def table_of_def node_ok_def service_wired_def
        split: prod.split intro!: r_into_rtranclp node_step.force_sync)
qed (simp_all add: call_GetValue_def call_GetNodeInfo_def call_ListCounters_def)

lemma rpc_answer_run: "node_ok i nd \<Longrightarrow> node_step\<^sup>*\<^sup>* nd (snd (rpc_answer rt x r req nd))"
  by (cases r) (simp_all add: serve_message_run call_run)

lemma gateway_run: "node_ok i nd \<Longrightarrow> node_step\<^sup>*\<^sup>* nd (snd (gateway_serve rt (gateway_New rt x True True) req nd))"
  using gateway_serve_cases [of rt x req nd] rpc_answer_run by (metis id_apply rtranclp.rtrancl_refl snd_map_prod)

section \<open>The interceptors are not asked\<close>

definition with_guards :: "AuthInterceptor \<Rightarrow> RateLimiter \<Rightarrow> Node \<Rightarrow> Node" where
  "with_guards a limiter nd = nd\<lparr>nd_auth := a, nd_limiter := limiter\<rparr>"

text \<open>A handler that neither reads nor writes what guards the gRPC server.\<close>

definition blind :: "(Node \<Rightarrow> 'r \<times> Node) \<Rightarrow> bool" where
  "blind f \<longleftrightarrow> (\<forall>a limiter nd. f (with_guards a limiter nd) = map_prod id (with_guards a limiter) (f nd))"

lemma call_blind [simp]:
  "blind (call_Increment x ireq)" "blind (call_Decrement x dreq)" "blind (call_GetValue x greq)" "blind (call_GetNodeInfo x)"
  "blind (call_Reset x rreq)" "blind (call_CreateCounter x creq)" "blind (call_ListCounters x lreq)"
  "blind (call_AddNode x areq)" "blind (call_RemoveNode x mreq)" "blind (call_ForceSync x)"
  by (simp_all add: blind_def with_guards_def call_defs Let_def table_of_def on_table_def split: prod.split)

lemma blind_message [simp]: "(\<And>m. blind (handler m)) \<Longrightarrow> blind (serve_message handler m)"
  by (cases m) (auto simp: blind_def serve_message_def)

lemma rpc_answer_blind: "blind (rpc_answer rt x r req)"
  by (cases r) simp_all

lemma handle_rpc_blind: "blind (local req) \<Longrightarrow> blind (handle_rpc rt rpcName path local req)"
  by (simp add: blind_def handle_rpc_eq prod.map_comp o_def id_def)

lemma dash_blind: "blind (dash_Index req)" "blind (dash_Cluster x req)"
  by (auto simp: blind_def dash_Index_def dash_Cluster_def node_dashboard_def with_guards_def split: option.split)

lemma gateway_blind: "blind (gateway_serve rt (gateway_New rt x True True) req)"
proof -
  have "blind (h req)" if "(k, h) \<in> set (gateway_New rt x True True)" for k h
    using gateway_routes [OF that] by cases (auto intro: handle_rpc_blind rpc_answer_blind dash_blind)
  then show ?thesis by (auto simp: blind_def gateway_serve_def split: option.split dest: map_of_SomeD)
qed

lemma full_method_guarded: "\<not> allowlist (full_method r)"
  by (cases r) (simp_all add: allowlist_def HasPrefix_def)

section \<open>Properties\<close>

lemma GET_unchanged: "fst (http_rule r) = ''GET'' \<Longrightarrow> snd (rpc_answer rt x r req nd) = nd"
  by (cases r) (simp_all add: serve_message_def call_defs split: option.split)

text \<open>What the route that serves a request tells about it.\<close>

lemma gateway_served:
  assumes "strict_mux (gr_pick rt)" and "fmlookup (hq_Header req) ''X-Http-Method-Override'' = None"
  obtains "gateway_serve rt (gateway_New rt x True True) req nd = (Not_routed, nd)"
  | r where "fst (http_rule r) = hq_Method req \<or> form_fallback req \<and> fst (http_rule r) = ''GET''"
      "colon_free (hq_Path req) \<Longrightarrow> snd (http_rule r) = hq_Path req"
      "gateway_serve rt (gateway_New rt x True True) req nd =
        handle_rpc rt (full_method r) (snd (http_rule r)) (rpc_answer rt x r) req nd"
  | path where "hq_Method req = ''GET'' \<or> form_fallback req" "path \<in> {''/api/cluster'', ''/''}"
      "colon_free (hq_Path req) \<Longrightarrow> hq_Path req = path"
      "snd (gateway_serve rt (gateway_New rt x True True) req nd) = nd"
proof (cases "gr_pick rt (map fst (gateway_New rt x True True)) req")
  case None
  with that(1) show ?thesis by (simp add: gateway_serve_def)
next
  case (Some k)
  note s = assms(1) [unfolded strict_mux_def, rule_format, OF conjI [OF assms(2) Some]]
  show ?thesis
  proof (cases "map_of (gateway_New rt x True True) k")
    case None
    with Some that(1) show ?thesis by (simp add: gateway_serve_def)
  next
    case (Some h)
    then have serve: "gateway_serve rt (gateway_New rt x True True) req nd = h req nd"
      using \<open>gr_pick rt _ req = Some k\<close> by (simp add: gateway_serve_def)
    have path: "literal_path (snd k) = Some (hq_Path req)" if "colon_free (hq_Path req)" using s gateway_keys(1) [of rt x] that by blast
    have "(k, h) \<in> set (gateway_New rt x True True)" using Some by (rule map_of_SomeD)
    then consider r where "(k, h) = rpc_route rt x r"
      | "(k, h) = ((''GET'', Template ''/api/cluster''), dash_Cluster x)" | "(k, h) = ((''GET'', Template ''/''), dash_Index)"
      unfolding gateway_New_eq set_append set_map by auto
    then show ?thesis
    proof cases
      case 1
      with s path serve show ?thesis
        by (intro that(2) [of r]) (auto simp: rpc_route_def rpc_pattern_path)
    next
      case 2
      with s path serve show ?thesis by (intro that(3) [of "''/api/cluster''"]) (auto simp: dash_Cluster_def split: option.split)
    next
      case 3
      with s path serve show ?thesis by (intro that(3) [of "''/''"]) (auto simp: dash_Index_def)
    qed
  qed
qed

text \<open>C24: the gateway serves exactly the methods that the annotations of \<open>counter.proto\<close> list, and the two pages of the dashboard. A
  request with the method and the path of an annotation calls that method with the message read from its body or its query, forwards its
  answer, turns an error into an HTTP error, and refuses what cannot be read without calling anything. A request with any other method and
  path (and no form that may be posted to a \<open>GET\<close> route) is not routed and changes nothing. A \<open>GET\<close>, whatever its path, never changes the
  node, and whatever changes the node is a \<open>POST\<close> that an annotation lists. The mux is the documented one, the request has no method override,
  and paths are without colons, which the mux may read as verbs.\<close>

theorem gateway_dispatch:
  assumes "literal_mux (gr_pick rt)" and "strict_mux (gr_pick rt)"
    and "fmlookup (hq_Header req) ''X-Http-Method-Override'' = None"
    and "out = gateway_serve rt (gateway_New rt x True True) req nd"
  shows "(\<forall>r. http_rule r = (hq_Method req, hq_Path req) \<longrightarrow>
      out = (if gr_annotate rt req (full_method r) (hq_Path req) then map_prod reply_to id (rpc_answer rt x r req nd)
             else (HTTPError Annotate_failed, nd))) \<and>
    ((\<forall>r. http_rule r \<noteq> (hq_Method req, hq_Path req)) \<and>
       (hq_Method req, hq_Path req) \<notin> {(''GET'', ''/api/cluster''), (''GET'', ''/'')} \<and>
       \<not> form_fallback req \<and> colon_free (hq_Path req) \<longrightarrow> out = (Not_routed, nd)) \<and>
    (hq_Method req = ''GET'' \<longrightarrow> snd out = nd) \<and>
    (snd out \<noteq> nd \<and> colon_free (hq_Path req) \<longrightarrow>
       hq_Method req = ''POST'' \<and> (\<exists>r. http_rule r = (hq_Method req, hq_Path req)))"
proof -
  have annotated: "out = (if gr_annotate rt req (full_method r) (hq_Path req) then map_prod reply_to id (rpc_answer rt x r req nd)
      else (HTTPError Annotate_failed, nd))" if "http_rule r = (hq_Method req, hq_Path req)" for r
    unfolding assms(4) gateway_routed [OF assms(1) that assms(3)] handle_rpc_eq by simp
  have kind: "fst (http_rule r) = ''GET'' \<or> fst (http_rule r) = ''POST''" for r by (cases r) simp_all
  have quiet: "snd (handle_rpc rt n path (rpc_answer rt x r) req nd) = nd" if "fst (http_rule r) = ''GET''" for n path r
    using GET_unchanged [OF that] by (simp add: handle_rpc_eq)
  have fallback: "hq_Method req = ''POST''" if "form_fallback req" using that by (simp add: form_fallback_def)
  have "((\<forall>r. http_rule r \<noteq> (hq_Method req, hq_Path req)) \<and>
       (hq_Method req, hq_Path req) \<notin> {(''GET'', ''/api/cluster''), (''GET'', ''/'')} \<and>
       \<not> form_fallback req \<and> colon_free (hq_Path req) \<longrightarrow> out = (Not_routed, nd)) \<and>
    (hq_Method req = ''GET'' \<longrightarrow> snd out = nd) \<and>
    (snd out \<noteq> nd \<and> colon_free (hq_Path req) \<longrightarrow>
       hq_Method req = ''POST'' \<and> (\<exists>r. http_rule r = (hq_Method req, hq_Path req)))"
    unfolding assms(4)
  proof (rule gateway_served [OF assms(2,3), of x nd], goal_cases)
    case 1
    then show ?case by simp
  next
    case (2 r)
    have "http_rule r = (hq_Method req, hq_Path req)" if "fst (http_rule r) = hq_Method req" "colon_free (hq_Path req)"
      using that 2(2) by (metis prod.collapse)
    with 2 quiet [of r] kind [of r] fallback show ?case by (metis snd_conv)
  next
    case (3 path)
    then show ?case by auto
  qed
  with annotated show ?thesis by blast
qed

text \<open>A runtime for the examples: its mux compares method and path, it accepts all headers, an empty body is the end of the
  file, and the body of an increment is the name of the counter.\<close>

definition plain_pick :: "route_key list \<Rightarrow> http_request \<Rightarrow> route_key option" where
  "plain_pick keys req = find (\<lambda>k. fst k = hq_Method req \<and> literal_path (snd k) = Some (hq_Path req)) keys"

definition plain_decode :: "(string \<Rightarrow> 'm \<Rightarrow> 'm) \<Rightarrow> 'm decoder" where
  "plain_decode store body m = (if body = '''' then (Some EOF, m) else if body = ''?'' then (Some Malformed, m) else (None, store body m))"

definition sample_runtime :: gw_runtime where
  "sample_runtime = \<lparr>gr_pick = plain_pick, gr_annotate = (\<lambda>_ _ _. True),
     gr_Increment = plain_decode (\<lambda>body m. m\<lparr>ir_CounterName := body\<rparr>), gr_Decrement = plain_decode (\<lambda>body m. m\<lparr>dr_CounterName := body\<rparr>),
     gr_Reset = plain_decode (\<lambda>body m. m\<lparr>rs_CounterName := body\<rparr>), gr_CreateCounter = plain_decode (\<lambda>body m. m\<lparr>cc_Name := body\<rparr>),
     gr_AddNode = plain_decode (\<lambda>body m. m\<lparr>an_NodeId := body\<rparr>), gr_RemoveNode = plain_decode (\<lambda>body m. m\<lparr>rm_NodeId := body\<rparr>),
     gr_ForceSync = plain_decode (\<lambda>body m. m), gr_GetValue = (\<lambda>vals m. (True, m)), gr_ListCounters = (\<lambda>vals m. (True, m))\<rparr>"

definition sample_dash_net :: dash_net where
  "sample_dash_net = \<lparr>dn_info = (\<lambda>_. None), dn_counters = (\<lambda>_. None), dn_gather = None\<rparr>"

definition sample_gw_env :: gw_env where
  "sample_gw_env = \<lparr>gx_ev = sample_env, gx_quote = id, gx_net = sample_dash_net, gx_fl = id\<rparr>"

definition sample_request :: "string \<Rightarrow> string \<Rightarrow> string \<Rightarrow> http_request" where
  "sample_request method path body = \<lparr>hq_Method = method, hq_Path = path, hq_Header = fmempty, hq_Body = body, hq_Form = Some fmempty\<rparr>"

lemma plain_pickD: "plain_pick keys req = Some k \<Longrightarrow> k \<in> set keys \<and> fst k = hq_Method req \<and> literal_path (snd k) = Some (hq_Path req)"
  unfolding plain_pick_def find_Some_iff by (elim exE conjE) simp

lemma plain_pick_literal: "literal_mux plain_pick"
  unfolding literal_mux_def
proof (intro allI impI, elim conjE)
  fix keys :: "route_key list" and req :: http_request and k
  assume distinct: "distinct (map (\<lambda>k'. (fst k', literal_path (snd k'))) keys)"
    and k: "k \<in> set keys" "fst k = hq_Method req" "literal_path (snd k) = Some (hq_Path req)"
  have "plain_pick keys req \<noteq> None" using k unfolding plain_pick_def find_None_iff by blast
  then obtain k' where k': "plain_pick keys req = Some k'" by blast
  from plain_pickD [OF k'] k have "k' \<in> set keys" "(fst k', literal_path (snd k')) = (fst k, literal_path (snd k))" by simp_all
  with k(1) distinct have "k' = k" unfolding distinct_map inj_on_def by blast
  with k' show "plain_pick keys req = Some k" by simp
qed

lemma plain_pick_strict: "strict_mux plain_pick"
  unfolding strict_mux_def using plain_pickD by blast

theorem gateway_dispatch_witness:
  "fst (gateway_serve sample_runtime (gateway_New sample_runtime sample_gw_env True True)
     (sample_request ''POST'' ''/v1/counter/increment'' ''?'') sample_node) = HTTPError InvalidArgument \<and>
   gateway_serve sample_runtime (gateway_New sample_runtime sample_gw_env True True)
     (sample_request ''DELETE'' ''/v1/counter'' '''') sample_node = (Not_routed, sample_node)"
proof -
  let ?p = "sample_request ''POST'' ''/v1/counter/increment'' ''?''" and ?d = "sample_request ''DELETE'' ''/v1/counter'' ''''"
  have mux: "literal_mux (gr_pick sample_runtime)" "strict_mux (gr_pick sample_runtime)"
    by (simp_all add: sample_runtime_def plain_pick_literal plain_pick_strict)
  have none: "http_rule r \<noteq> (''DELETE'', ''/v1/counter'')" for r by (cases r) simp_all
  have rule: "http_rule Rpc_Increment = (hq_Method ?p, hq_Path ?p)" by (simp add: sample_request_def)
  have annotated: "gr_annotate sample_runtime ?p m pth" for m pth by (simp add: sample_runtime_def)
  have answer: "rpc_answer sample_runtime sample_gw_env Rpc_Increment ?p sample_node = (Failed InvalidArgument, sample_node)"
    by (simp add: sample_runtime_def sample_request_def plain_decode_def serve_message_def body_message_def)
  have "fmlookup (hq_Header ?p) ''X-Http-Method-Override'' = None" "fmlookup (hq_Header ?d) ''X-Http-Method-Override'' = None"
    by (simp_all add: sample_request_def)
  note d = gateway_dispatch [OF mux this(1) refl, of sample_gw_env sample_node] gateway_dispatch [OF mux this(2) refl, of sample_gw_env sample_node]
  have "gateway_serve sample_runtime (gateway_New sample_runtime sample_gw_env True True) ?p sample_node =
      (HTTPError InvalidArgument, sample_node)"
    using d(1) [THEN conjunct1, THEN spec [of _ Rpc_Increment], THEN mp, OF rule]
    by (simp only: annotated answer if_True map_prod_simp reply_to.simps id_apply)
  moreover have "gateway_serve sample_runtime (gateway_New sample_runtime sample_gw_env True True) ?d sample_node = (Not_routed, sample_node)"
    by (rule d(2) [THEN conjunct2, THEN conjunct1, THEN mp]) (simp add: sample_request_def form_fallback_def none)
  ultimately show ?thesis by (simp only: fst_conv simp_thms)
qed

text \<open>An HTTP request does to the node at most what one call of a handler does: whatever route the mux picks, the node
  takes steps of its state machine, so that the invariant of a running node is kept.\<close>

theorem gateway_keeps_invariant:
  assumes "node_reachable cfg nd"
  shows "node_reachable cfg (snd (gateway_serve rt (gateway_New rt x True True) req nd))"
  using node_run_reachable [OF gateway_run [OF node_reachable_ok [OF assms]] assms] .

theorem gateway_keeps_invariant_witness:
  "node_reachable sample_config (snd (gateway_serve sample_runtime (gateway_New sample_runtime sample_gw_env True True)
     (sample_request ''POST'' ''/v1/counter/increment'' ''likes'') sample_node))"
  unfolding sample_node_def by (intro gateway_keeps_invariant bootstrap_reachable node_reachable.built)

text \<open>C25: the gateway calls the services in process, past the interceptors: the reply to an HTTP request and what it
  does to the node do not depend on the API key or on the limiter, whose tokens it does not use, although a call of the
  same method over gRPC without the key is refused.\<close>

theorem gateway_bypasses_auth:
  assumes "ai_enabled a" and "\<not> authorized a md"
  shows "gateway_serve rt (gateway_New rt x True True) req (with_guards a limiter nd) =
      map_prod id (with_guards a limiter) (gateway_serve rt (gateway_New rt x True True) req nd) \<and>
    server_call fl now a (full_method r) md handler (limiter, nd) = (Inl Unauthenticated, limiter, nd)"
  using assms gateway_blind [of rt x req]
  by (simp add: blind_def server_call_def auth_Unary_def auth_check_def full_method_guarded)

definition sample_guard :: AuthInterceptor where
  "sample_guard = \<lparr>ai_nodeID = ''a'', ai_enabled = True, ai_apiKey = ''k''\<rparr>"

theorem gateway_bypasses_auth_witness:
  "gateway_serve sample_runtime (gateway_New sample_runtime sample_gw_env True True)
      (sample_request ''POST'' ''/v1/admin/remove-node'' ''b'') (with_guards sample_guard (NewRateLimiter id 0 1) sample_node) =
      map_prod id (with_guards sample_guard (NewRateLimiter id 0 1))
        (gateway_serve sample_runtime (gateway_New sample_runtime sample_gw_env True True)
          (sample_request ''POST'' ''/v1/admin/remove-node'' ''b'') sample_node) \<and>
   server_call id 0 sample_guard (full_method Rpc_RemoveNode) None (\<lambda>nd. ((), nd)) (NewRateLimiter id 0 1, sample_node) =
     (Inl Unauthenticated, NewRateLimiter id 0 1, sample_node)"
  by (rule gateway_bypasses_auth) (simp_all add: sample_guard_def authorized_def)

end
