(* ===== verification/Gateway_Client.thy ===== *)
theory Gateway_Client
  imports Gateway
begin

text \<open>
  The other half of the generated \<open>api/proto/counter.pb.gw.go\<close>: handlers that forward a request to the gRPC server over a
  connection. The program registers the in-process half; this theory shows that the two agree. A connection is a function that takes a call, named by its full method, to a server and brings back what
  the server answers; the clients of \<open>counter_grpc.pb.go\<close> invoke one method of it each.
\<close>

section \<open>Clients\<close>

type_synonym conn = "metadata option \<Rightarrow> string \<Rightarrow> (Node \<Rightarrow> answer \<times> Node) \<Rightarrow> Node \<Rightarrow> answer \<times> Node"

type_synonym 'm client_call = "metadata option \<Rightarrow> 'm \<Rightarrow> Node \<Rightarrow> answer \<times> Node"

record CounterServiceClient =
  cl_Increment :: "IncrementRequest client_call"
  cl_Decrement :: "DecrementRequest client_call"
  cl_GetValue :: "GetValueRequest client_call"
  cl_GetNodeInfo :: "unit client_call"
  cl_Reset :: "ResetRequest client_call"
  cl_CreateCounter :: "CreateCounterRequest client_call"
  cl_ListCounters :: "ListCountersRequest client_call"

record AdminServiceClient =
  cl_AddNode :: "AddNodeRequest client_call"
  cl_RemoveNode :: "RemoveNodeRequest client_call"
  cl_ForceSync :: "unit client_call"

definition NewCounterServiceClient :: "gw_env \<Rightarrow> conn \<Rightarrow> CounterServiceClient" where
  "NewCounterServiceClient x cc =
     \<lparr>cl_Increment = \<lambda>ctx req. cc ctx ''/counter.CounterService/Increment'' (call_Increment x req),
      cl_Decrement = \<lambda>ctx req. cc ctx ''/counter.CounterService/Decrement'' (call_Decrement x req),
      cl_GetValue = \<lambda>ctx req. cc ctx ''/counter.CounterService/GetValue'' (call_GetValue x req),
      cl_GetNodeInfo = \<lambda>ctx req. cc ctx ''/counter.CounterService/GetNodeInfo'' (call_GetNodeInfo x),
      cl_Reset = \<lambda>ctx req. cc ctx ''/counter.CounterService/Reset'' (call_Reset x req),
      cl_CreateCounter = \<lambda>ctx req. cc ctx ''/counter.CounterService/CreateCounter'' (call_CreateCounter x req),
      cl_ListCounters = \<lambda>ctx req. cc ctx ''/counter.CounterService/ListCounters'' (call_ListCounters x req)\<rparr>"

definition NewAdminServiceClient :: "gw_env \<Rightarrow> conn \<Rightarrow> AdminServiceClient" where
  "NewAdminServiceClient x cc =
     \<lparr>cl_AddNode = \<lambda>ctx req. cc ctx ''/counter.AdminService/AddNode'' (call_AddNode x req),
      cl_RemoveNode = \<lambda>ctx req. cc ctx ''/counter.AdminService/RemoveNode'' (call_RemoveNode x req),
      cl_ForceSync = \<lambda>ctx req. cc ctx ''/counter.AdminService/ForceSync'' (call_ForceSync x)\<rparr>"

section \<open>The generated handlers\<close>

definition request_CounterService_Increment_0 ::
  "gw_runtime \<Rightarrow> CounterServiceClient \<Rightarrow> metadata option \<Rightarrow> http_request \<Rightarrow> Node \<Rightarrow> answer \<times> Node" where
  "request_CounterService_Increment_0 rt client ctx = with_body (gr_Increment rt) zero_Increment (cl_Increment client ctx)"

definition request_CounterService_Decrement_0 ::
  "gw_runtime \<Rightarrow> CounterServiceClient \<Rightarrow> metadata option \<Rightarrow> http_request \<Rightarrow> Node \<Rightarrow> answer \<times> Node" where
  "request_CounterService_Decrement_0 rt client ctx = with_body (gr_Decrement rt) zero_Decrement (cl_Decrement client ctx)"

definition request_CounterService_GetValue_0 ::
  "gw_runtime \<Rightarrow> CounterServiceClient \<Rightarrow> metadata option \<Rightarrow> http_request \<Rightarrow> Node \<Rightarrow> answer \<times> Node" where
  "request_CounterService_GetValue_0 rt client ctx =
     with_form (gr_GetValue rt) \<lparr>gv_NodeId = '''', gv_CounterName = ''''\<rparr> (cl_GetValue client ctx)"

definition request_CounterService_GetNodeInfo_0 ::
  "gw_runtime \<Rightarrow> CounterServiceClient \<Rightarrow> metadata option \<Rightarrow> http_request \<Rightarrow> Node \<Rightarrow> answer \<times> Node" where
  "request_CounterService_GetNodeInfo_0 rt client ctx req = cl_GetNodeInfo client ctx ()"

definition request_CounterService_Reset_0 ::
  "gw_runtime \<Rightarrow> CounterServiceClient \<Rightarrow> metadata option \<Rightarrow> http_request \<Rightarrow> Node \<Rightarrow> answer \<times> Node" where
  "request_CounterService_Reset_0 rt client ctx =
     with_body (gr_Reset rt) \<lparr>rs_NodeId = '''', rs_CounterName = ''''\<rparr> (cl_Reset client ctx)"

definition request_CounterService_CreateCounter_0 ::
  "gw_runtime \<Rightarrow> CounterServiceClient \<Rightarrow> metadata option \<Rightarrow> http_request \<Rightarrow> Node \<Rightarrow> answer \<times> Node" where
  "request_CounterService_CreateCounter_0 rt client ctx =
     with_body (gr_CreateCounter rt) \<lparr>cc_Name = '''', cc_Tags = []\<rparr> (cl_CreateCounter client ctx)"

definition request_CounterService_ListCounters_0 ::
  "gw_runtime \<Rightarrow> CounterServiceClient \<Rightarrow> metadata option \<Rightarrow> http_request \<Rightarrow> Node \<Rightarrow> answer \<times> Node" where
  "request_CounterService_ListCounters_0 rt client ctx =
     with_form (gr_ListCounters rt) \<lparr>lc_Tag = ''''\<rparr> (cl_ListCounters client ctx)"

definition request_AdminService_AddNode_0 ::
  "gw_runtime \<Rightarrow> AdminServiceClient \<Rightarrow> metadata option \<Rightarrow> http_request \<Rightarrow> Node \<Rightarrow> answer \<times> Node" where
  "request_AdminService_AddNode_0 rt client ctx =
     with_body (gr_AddNode rt) \<lparr>an_NodeId = '''', an_Address = ''''\<rparr> (cl_AddNode client ctx)"

definition request_AdminService_RemoveNode_0 ::
  "gw_runtime \<Rightarrow> AdminServiceClient \<Rightarrow> metadata option \<Rightarrow> http_request \<Rightarrow> Node \<Rightarrow> answer \<times> Node" where
  "request_AdminService_RemoveNode_0 rt client ctx = with_body (gr_RemoveNode rt) \<lparr>rm_NodeId = ''''\<rparr> (cl_RemoveNode client ctx)"

definition request_AdminService_ForceSync_0 ::
  "gw_runtime \<Rightarrow> AdminServiceClient \<Rightarrow> metadata option \<Rightarrow> http_request \<Rightarrow> Node \<Rightarrow> answer \<times> Node" where
  "request_AdminService_ForceSync_0 rt client ctx = with_body (gr_ForceSync rt) () (cl_ForceSync client ctx)"


text \<open>\<open>AnnotateContext\<close> of the runtime gives the metadata of the outgoing call, or fails.\<close>

type_synonym annotate = "http_request \<Rightarrow> string \<Rightarrow> string \<Rightarrow> metadata option option"

definition handle_client ::
  "annotate \<Rightarrow> string \<Rightarrow> string \<Rightarrow> (metadata option \<Rightarrow> http_request \<Rightarrow> Node \<Rightarrow> answer \<times> Node) \<Rightarrow> http_handler" where
  "handle_client annotate rpcName path request req nd =
     (case annotate req rpcName path of
        None \<Rightarrow> (HTTPError Annotate_failed, nd)
      | Some ctx \<Rightarrow>
          (case request ctx req nd of
             (Failed e, nd) \<Rightarrow> (HTTPError e, nd)
           | (Panicked, nd) \<Rightarrow> (Connection_aborted, nd)
           | (Answered resp, nd) \<Rightarrow> (ForwardResponse resp, nd)))"

definition RegisterCounterServiceHandlerClient :: "gw_runtime \<Rightarrow> annotate \<Rightarrow> CounterServiceClient \<Rightarrow> routes \<Rightarrow> routes" where
  "RegisterCounterServiceHandlerClient rt annotate client mux = mux @
     [((''POST'', pattern_CounterService_Increment_0), handle_client annotate ''/counter.CounterService/Increment''
         ''/v1/counter/increment'' (request_CounterService_Increment_0 rt client)),
      ((''POST'', pattern_CounterService_Decrement_0), handle_client annotate ''/counter.CounterService/Decrement''
         ''/v1/counter/decrement'' (request_CounterService_Decrement_0 rt client)),
      ((''GET'', pattern_CounterService_GetValue_0), handle_client annotate ''/counter.CounterService/GetValue''
         ''/v1/counter/value'' (request_CounterService_GetValue_0 rt client)),
      ((''GET'', pattern_CounterService_GetNodeInfo_0), handle_client annotate ''/counter.CounterService/GetNodeInfo''
         ''/v1/node/info'' (request_CounterService_GetNodeInfo_0 rt client)),
      ((''POST'', pattern_CounterService_Reset_0), handle_client annotate ''/counter.CounterService/Reset''
         ''/v1/counter/reset'' (request_CounterService_Reset_0 rt client)),
      ((''POST'', pattern_CounterService_CreateCounter_0), handle_client annotate ''/counter.CounterService/CreateCounter''
         ''/v1/counter'' (request_CounterService_CreateCounter_0 rt client)),
      ((''GET'', pattern_CounterService_ListCounters_0), handle_client annotate ''/counter.CounterService/ListCounters''
         ''/v1/counters'' (request_CounterService_ListCounters_0 rt client))]"

definition RegisterAdminServiceHandlerClient :: "gw_runtime \<Rightarrow> annotate \<Rightarrow> AdminServiceClient \<Rightarrow> routes \<Rightarrow> routes" where
  "RegisterAdminServiceHandlerClient rt annotate client mux = mux @
     [((''POST'', pattern_AdminService_AddNode_0), handle_client annotate ''/counter.AdminService/AddNode''
         ''/v1/admin/add-node'' (request_AdminService_AddNode_0 rt client)),
      ((''POST'', pattern_AdminService_RemoveNode_0), handle_client annotate ''/counter.AdminService/RemoveNode''
         ''/v1/admin/remove-node'' (request_AdminService_RemoveNode_0 rt client)),
      ((''POST'', pattern_AdminService_ForceSync_0), handle_client annotate ''/counter.AdminService/ForceSync''
         ''/v1/admin/force-sync'' (request_AdminService_ForceSync_0 rt client))]"

definition RegisterCounterServiceHandler :: "gw_runtime \<Rightarrow> gw_env \<Rightarrow> annotate \<Rightarrow> conn \<Rightarrow> routes \<Rightarrow> routes" where
  "RegisterCounterServiceHandler rt x annotate cc = RegisterCounterServiceHandlerClient rt annotate (NewCounterServiceClient x cc)"

definition RegisterAdminServiceHandler :: "gw_runtime \<Rightarrow> gw_env \<Rightarrow> annotate \<Rightarrow> conn \<Rightarrow> routes \<Rightarrow> routes" where
  "RegisterAdminServiceHandler rt x annotate cc = RegisterAdminServiceHandlerClient rt annotate (NewAdminServiceClient x cc)"

text \<open>\<open>FromEndpoint\<close>: \<open>NewClient\<close> of the gRPC library may refuse the endpoint; the connection is closed when the context is done.\<close>

definition RegisterCounterServiceHandlerFromEndpoint ::
  "(string \<Rightarrow> conn option) \<Rightarrow> gw_runtime \<Rightarrow> gw_env \<Rightarrow> annotate \<Rightarrow> string \<Rightarrow> routes \<Rightarrow> bool \<times> routes" where
  "RegisterCounterServiceHandlerFromEndpoint NewClient rt x annotate endpoint mux =
     (case NewClient endpoint of
        None \<Rightarrow> (False, mux) | Some cc \<Rightarrow> (True, RegisterCounterServiceHandler rt x annotate cc mux))"

definition RegisterAdminServiceHandlerFromEndpoint ::
  "(string \<Rightarrow> conn option) \<Rightarrow> gw_runtime \<Rightarrow> gw_env \<Rightarrow> annotate \<Rightarrow> string \<Rightarrow> routes \<Rightarrow> bool \<times> routes" where
  "RegisterAdminServiceHandlerFromEndpoint NewClient rt x annotate endpoint mux =
     (case NewClient endpoint of
        None \<Rightarrow> (False, mux) | Some cc \<Rightarrow> (True, RegisterAdminServiceHandler rt x annotate cc mux))"

section \<open>The two halves\<close>


section \<open>Properties\<close>



end
