(* ===== verification/Lifecycle.thy ===== *)
theory Lifecycle
  imports Node_Run
begin

text \<open>
  The life of the process: \<open>main\<close> of \<open>cmd/server/main.go\<close> from the configuration to the exit, the loops it starts
  (\<open>runHeartbeatLoop\<close>, \<open>runFailureDetectionLoop\<close>, \<open>runSnapshotLoop\<close>, the \<open>Start\<close> of the failure detector and of the
  gossip engine, the \<open>Run\<close> of the election) and \<open>internal/tracing/tracing.go\<close>, which it initialises and shuts down. A
  panic that nobody recovers ends the process.
\<close>

section \<open>Tracing\<close>

record trace_config =
  tc_Enabled :: bool
  tc_Endpoint :: string
  tc_ServiceName :: string
  tc_NodeID :: string
  tc_SampleRatio :: rat

text \<open>The function that \<open>Init\<close> returns for the shutdown: one that does nothing, that of the provider, or \<open>nil\<close>.\<close>

datatype shutdown_fn = Shutdown_noop | Shutdown_provider trace_config | Shutdown_nil

datatype trace_error = Exporter_failed | Resource_failed

text \<open>\<open>exporter_ok\<close> and \<open>resource_ok\<close> say whether the OpenTelemetry library builds the exporter and the resource.\<close>

definition trace_Init :: "bool \<Rightarrow> bool \<Rightarrow> trace_config \<Rightarrow> shutdown_fn \<times> trace_error option" where
  "trace_Init exporter_ok resource_ok cfg =
     (if \<not> tc_Enabled cfg then (Shutdown_noop, None)
      else
        (let cfg = (if tc_Endpoint cfg = '''' then cfg\<lparr>tc_Endpoint := ''localhost:4317''\<rparr> else cfg);
             cfg = (if tc_SampleRatio cfg \<le> 0 \<or> 1 < tc_SampleRatio cfg then cfg\<lparr>tc_SampleRatio := 1\<rparr> else cfg);
             cfg = (if tc_ServiceName cfg = '''' then cfg\<lparr>tc_ServiceName := ''distributed-counter''\<rparr> else cfg)
         in if \<not> exporter_ok then (Shutdown_nil, Some Exporter_failed)
            else if \<not> resource_ok then (Shutdown_nil, Some Resource_failed)
            else (Shutdown_provider cfg, None)))"

section \<open>Loops\<close>

text \<open>What a loop sees: a tick, something that other goroutines do to the node between two ticks, or the cancellation of its
  context.\<close>

datatype 'e loop_event = Tick 'e | Meanwhile "Node \<Rightarrow> Node" | Ctx_cancelled

fun ticker_loop :: "('e \<Rightarrow> Node \<Rightarrow> Node) \<Rightarrow> 'e loop_event list \<Rightarrow> Node \<Rightarrow> Node" where
  "ticker_loop body [] nd = nd"
| "ticker_loop body (Tick e # es) nd = ticker_loop body es (body e nd)"
| "ticker_loop body (Meanwhile f # es) nd = ticker_loop body es (f nd)"
| "ticker_loop body (Ctx_cancelled # es) nd = nd"

text \<open>\<open>time.NewTicker\<close> panics unless its interval is positive; \<open>None\<close> is that panic.\<close>

definition with_ticker :: "duration \<Rightarrow> ('e \<Rightarrow> Node \<Rightarrow> Node) \<Rightarrow> 'e loop_event list \<Rightarrow> Node \<Rightarrow> Node option" where
  "with_ticker interval body es nd = (if interval \<le> 0 then None else Some (ticker_loop body es nd))"

definition heartbeat_tick :: "hb_net \<times> go_time \<Rightarrow> Node \<Rightarrow> Node" where
  "heartbeat_tick e nd =
     on_table (sendHeartbeats (fst e) (snd e) (sv_nodeID (nd_service nd)) (nd_localAddress nd) (sv_bully (nd_service nd))) nd"

definition runHeartbeatLoop :: "duration \<Rightarrow> (hb_net \<times> go_time) loop_event list \<Rightarrow> Node \<Rightarrow> Node option" where
  "runHeartbeatLoop interval = with_ticker interval heartbeat_tick"

definition runFailureDetectionLoop :: "duration \<Rightarrow> go_time loop_event list \<Rightarrow> Node \<Rightarrow> Node option" where
  "runFailureDetectionLoop threshold = with_ticker second (\<lambda>now. on_table (failure_tick now threshold))"

definition runSnapshotLoop :: "duration \<Rightarrow> service_env loop_event list \<Rightarrow> Node \<Rightarrow> Node option" where
  "runSnapshotLoop interval =
     (let interval = (if interval \<le> 0 then 30 * second else interval)
      in with_ticker interval (\<lambda>ev nd. nd\<lparr>nd_service := Snapshot ev (nd_service nd)\<rparr>))"

text \<open>A round of the failure detector, with the random choices, the time, the network and what happens to the member table
  while it waits.\<close>

record round_env =
  re_shuffle :: "Member list \<Rightarrow> Member list"
  re_shuffle' :: "Member list \<Rightarrow> Member list"
  re_now :: go_time
  re_net :: probe_net
  re_others :: "Membership \<Rightarrow> Membership"

definition SWIM_Start :: "round_env loop_event list \<Rightarrow> Node \<Rightarrow> Node option" where
  "SWIM_Start es nd =
     with_ticker (sw_ProtocolPeriod (nd_swim nd))
       (\<lambda>e nd. on_table (swim_round (re_shuffle e) (re_shuffle' e) (re_now e) (re_net e) (nd_swim nd) (re_others e)) nd) es nd"

text \<open>The rounds that a gossip tick launches run on their own; the tick itself only draws the peers.\<close>

definition gossip_tick :: "(Member list \<Rightarrow> Member list) \<Rightarrow> Node \<Rightarrow> Node" where
  "gossip_tick shuffle nd =
     (case sv_cluster (nd_service nd) of
        None \<Rightarrow> nd | Some M \<Rightarrow> nd\<lparr>nd_engine := fst (gossip shuffle M (nd_engine nd))\<rparr>)"

definition GE_Start :: "(Member list \<Rightarrow> Member list) loop_event list \<Rightarrow> Node \<Rightarrow> Node option" where
  "GE_Start es nd = with_ticker (ge_interval (nd_engine nd)) gossip_tick es nd"

record election_env =
  ee_reply :: "string \<Rightarrow> nat \<Rightarrow> bool option"
  ee_done :: "nat \<Rightarrow> bool"
  ee_now :: go_time
  ee_others :: "Bully \<Rightarrow> Bully"

definition on_bully :: "(Membership \<Rightarrow> Bully \<Rightarrow> Bully) \<Rightarrow> Node \<Rightarrow> Node" where
  "on_bully f nd =
     (case (sv_cluster (nd_service nd), sv_bully (nd_service nd)) of
        (Some M, Some b) \<Rightarrow> nd\<lparr>nd_service := (nd_service nd)\<lparr>sv_bully := Some (f M b)\<rparr>\<rparr>
      | _ \<Rightarrow> nd)"

definition Bully_Run :: "election_env \<Rightarrow> election_env loop_event list \<Rightarrow> Node \<Rightarrow> Node option" where
  "Bully_Run e es nd =
     (let nd = on_bully (\<lambda>M b. fst (StartElection (ee_reply e) (ee_done e) (ee_now e) M (ee_others e) b)) nd
      in with_ticker (case sv_bully (nd_service nd) of None \<Rightarrow> 0 | Some b \<Rightarrow> b_interval b)
           (\<lambda>e. on_bully (\<lambda>M b. fst (Run_tick (ee_reply e) (ee_done e) (ee_now e) M (ee_others e) b))) es nd)"

section \<open>The process\<close>

text \<open>What the process meets: the configuration as viper reads it, whether the logger can be built, what the OpenTelemetry
  library answers, and whether the port for the metrics can be listened on.\<close>

record main_env =
  me_config :: "config_error + Config"
  me_logger_ok :: bool
  me_exporter_ok :: bool
  me_resource_ok :: bool
  me_metrics_listen :: bool

datatype main_exit =
  Fatal_config config_error | Fatal_logger | Panic_metrics | Panic_ticker | Panic_nil_shutdown | Server_stopped

text \<open>The intervals of the tickers that the goroutines create, in the order in which \<open>main\<close> starts them.\<close>

definition ticker_intervals :: "Config \<Rightarrow> Node \<Rightarrow> duration list" where
  "ticker_intervals cfg nd =
     [case sv_bully (nd_service nd) of None \<Rightarrow> 0 | Some b \<Rightarrow> b_interval b, seconds (cf_HeartbeatInterval cfg), second,
      sw_ProtocolPeriod (nd_swim nd), snapshot_interval (seconds (cf_SnapshotIntervalSeconds cfg)), ge_interval (nd_engine nd)]"

text \<open>
  A run of the process that ends with a signal after all goroutines have started: \<open>build\<close> is what the rest of \<open>main\<close>
  puts together from the configuration. The errors of the gRPC and of the HTTP server are only logged. The deferred
  functions run last, the tracing shutdown among them, which is called whatever \<open>Init\<close> returned.
\<close>

definition main :: "main_env \<Rightarrow> (Config \<Rightarrow> Node) \<Rightarrow> main_exit" where
  "main me build =
     (case Load (me_config me) of
        Inl e \<Rightarrow> Fatal_config e
      | Inr cfg \<Rightarrow>
          if \<not> me_logger_ok me then Fatal_logger
          else
            (case trace_Init (me_exporter_ok me) (me_resource_ok me)
                 \<lparr>tc_Enabled = cf_TracingEnabled cfg, tc_Endpoint = cf_TraceEndpoint cfg, tc_ServiceName = ''distributed-counter'',
                  tc_NodeID = cf_NodeID cfg, tc_SampleRatio = cf_TraceSampleRatio cfg\<rparr> of
               (shutdownTracing, err) \<Rightarrow>
                 if \<not> me_metrics_listen me then Panic_metrics
                 else if \<exists>d \<in> set (ticker_intervals cfg (build cfg)). d \<le> 0 then Panic_ticker
                 else if shutdownTracing = Shutdown_nil then Panic_nil_shutdown
                 else Server_stopped))"

section \<open>Intervals\<close>

lemma seconds_exact: "0 < n \<Longrightarrow> n \<le> 9223372036 \<Longrightarrow> seconds n = n * second"
  unfolding seconds_def by (rule sint_int64) simp_all

lemma seconds_overflow: "seconds 9223372037 < 0"
  by (simp add: seconds_def)

lemma built_intervals:
  "b_interval (the (sv_bully (nd_service (build_node ev fl ping_ok get_ok db fs cfg)))) > 0"
  "sw_ProtocolPeriod (nd_swim (build_node ev fl ping_ok get_ok db fs cfg)) > 0"
  "ge_interval (nd_engine (build_node ev fl ping_ok get_ok db fs cfg)) > 0"
  "\<exists>b. sv_bully (nd_service (build_node ev fl ping_ok get_ok db fs cfg)) = Some b"
  by (simp_all add: build_node_def Let_def New_def NewSWIMDetector_def NewGossipEngine_def GE_SetWAL_def GE_SetClientConfig_def
      SetOnReset_def SetClientConfig_def SV_SetPriority_def SetBully_def)

lemma built_tickers:
  "(\<exists>d \<in> set (ticker_intervals cfg (build_node ev fl ping_ok get_ok db fs cfg)). d \<le> 0) \<longleftrightarrow> seconds (cf_HeartbeatInterval cfg) \<le> 0"
  using built_intervals [of ev fl ping_ok get_ok db fs cfg]
  by (auto simp: ticker_intervals_def snapshot_interval_def)

section \<open>The loops take steps of the node\<close>

definition others_step :: "'e loop_event list \<Rightarrow> bool" where
  "others_step es \<longleftrightarrow> (\<forall>f. Meanwhile f \<in> set es \<longrightarrow> (\<forall>nd. node_step\<^sup>*\<^sup>* nd (f nd)))"

lemma ticker_run:
  assumes "others_step es" and "\<And>e nd. Tick e \<in> set es \<Longrightarrow> node_step\<^sup>*\<^sup>* nd (body e nd)"
  shows "node_step\<^sup>*\<^sup>* nd (ticker_loop body es nd)"
  using assms
proof (induction body es nd rule: ticker_loop.induct)
  case (2 body e es nd)
  then have "node_step\<^sup>*\<^sup>* nd (body e nd)" "node_step\<^sup>*\<^sup>* (body e nd) (ticker_loop body es (body e nd))"
    by (auto simp: others_step_def)
  then show ?case by simp
next
  case (3 body f es nd)
  then have "node_step\<^sup>*\<^sup>* nd (f nd)" "node_step\<^sup>*\<^sup>* (f nd) (ticker_loop body es (f nd))"
    by (auto simp: others_step_def)
  then show ?case by simp
qed simp_all

lemma with_ticker_run:
  assumes "with_ticker interval body es nd = Some nd'" and "others_step es"
    and "\<And>e nd. Tick e \<in> set es \<Longrightarrow> node_step\<^sup>*\<^sup>* nd (body e nd)"
  shows "node_step\<^sup>*\<^sup>* nd nd'"
proof -
  have "node_step\<^sup>*\<^sup>* nd (ticker_loop body es nd)" using assms(2,3) by (rule ticker_run)
  with assms(1) show ?thesis by (simp add: with_ticker_def split: if_splits)
qed

lemma on_bully_run:
  assumes "\<And>M b. sv_cluster (nd_service nd) = Some M \<Longrightarrow> sv_bully (nd_service nd) = Some b \<Longrightarrow>
    node_step nd (nd\<lparr>nd_service := (nd_service nd)\<lparr>sv_bully := Some (f M b)\<rparr>\<rparr>)"
  shows "node_step\<^sup>*\<^sup>* nd (on_bully f nd)"
  using assms by (simp add: on_bully_def r_into_rtranclp split: option.split)

text \<open>Whatever ticks a loop sees and whatever the other goroutines do between and during them, a node that was reachable when the loop was
  started is reachable afterwards, so that the invariant of the node covers the loops.\<close>

lemma loops_are_steps:
  assumes "node_reachable cfg nd"
    and "others_step hes" and "others_step fes" and "others_step ses" and "others_step wes" and "others_step ges" and "others_step ees"
    and "\<And>e M. Tick e \<in> set wes \<Longrightarrow> table_run M (re_others e M)"
    and "\<And>e b. e = e0 \<or> Tick e \<in> set ees \<Longrightarrow> announcement\<^sup>*\<^sup>* b (ee_others e b)"
    and "Some nd' \<in> {runHeartbeatLoop d1 hes nd, runFailureDetectionLoop d2 fes nd, runSnapshotLoop d3 ses nd,
      SWIM_Start wes nd, GE_Start ges nd, Bully_Run e0 ees nd}"
  shows "node_reachable cfg nd'"
proof -
  have "node_step\<^sup>*\<^sup>* nd nd'" if "runHeartbeatLoop d1 hes nd = Some nd'"
    using that assms(2) unfolding runHeartbeatLoop_def
    by (rule with_ticker_run) (auto simp: heartbeat_tick_def intro: r_into_rtranclp node_step.heartbeats)
  moreover have "node_step\<^sup>*\<^sup>* nd nd'" if "runFailureDetectionLoop d2 fes nd = Some nd'"
    using that assms(3) unfolding runFailureDetectionLoop_def
    by (rule with_ticker_run) (auto intro: r_into_rtranclp node_step.failure_tick)
  moreover have "node_step\<^sup>*\<^sup>* nd nd'" if "runSnapshotLoop d3 ses nd = Some nd'"
    using that assms(4) unfolding runSnapshotLoop_def Let_def
    by (rule with_ticker_run) (auto intro: r_into_rtranclp node_step.snapshot)
  moreover have "node_step\<^sup>*\<^sup>* nd nd'" if "SWIM_Start wes nd = Some nd'"
    using that assms(5) unfolding SWIM_Start_def
    by (rule with_ticker_run) (rule r_into_rtranclp, rule node_step.swim, rule assms(8))
  moreover have "node_step\<^sup>*\<^sup>* nd nd'" if "GE_Start ges nd = Some nd'"
    using that assms(6) unfolding GE_Start_def
    by (rule with_ticker_run) (auto simp: gossip_tick_def intro: r_into_rtranclp node_step.gossip_tick split: option.split)
  moreover have "node_step\<^sup>*\<^sup>* nd nd'" if "Bully_Run e0 ees nd = Some nd'"
  proof -
    let ?nd = "on_bully (\<lambda>M b. fst (StartElection (ee_reply e0) (ee_done e0) (ee_now e0) M (ee_others e0) b)) nd"
    have "node_step\<^sup>*\<^sup>* nd ?nd" by (rule on_bully_run) (rule node_step.contest, simp_all add: assms(9))
    moreover have "node_step\<^sup>*\<^sup>* ?nd nd'"
      using that assms(7) unfolding Bully_Run_def Let_def
      by (rule with_ticker_run) (rule on_bully_run, rule node_step.election, simp_all add: assms(9))
    ultimately show ?thesis by (rule rtranclp_trans)
  qed
  ultimately have "node_step\<^sup>*\<^sup>* nd nd'" using assms(10) by auto
  from node_run_reachable [OF this assms(1)] show ?thesis .
qed

text \<open>A loop up to a point at which it was not cancelled.\<close>

lemma ticker_loop_append:
  "Ctx_cancelled \<notin> set es \<Longrightarrow> ticker_loop body (es @ es') nd = ticker_loop body es' (ticker_loop body es nd)"
  by (induction body es nd rule: ticker_loop.induct) simp_all

section \<open>Properties\<close>

text \<open>C27: the snapshot loop keeps a node recoverable and its log short: whatever the configured interval (one that is not positive counts
  as 30 seconds, so that the ticker does not panic) and whatever ticks and other activity came before, after a tick at which store and files
  work, any increments, decrements, resets and merges, and the cancellation of the loop, which ends it whatever comes later, the log
  holds the entries of these operations only, numbered from the start, and a restart rebuilds exactly the counts and the clock that the node
  had. As for every recovery this needs UTF-8 names, log lines below the scanner's limit, and positive counts.\<close>

theorem snapshot_loop_recovers:
  assumes "nd1 = the (runSnapshotLoop interval es nd)" and "Ctx_cancelled \<notin> set es" and "s = nd_service nd1"
    and "service_ok s" and "sv_wal s = Some w" and "sv_store s = Some db"
    and "ev_io ev = all_ok" and "ev_set_ok ev" and "state_utf8 (persisted_state s)"
    and "good_runs xs" and "list_all entry_ok (entries_from 0 (concat (map op_mutations xs)))" and "ev_io ev' = all_ok"
    and "handle = (\<lambda>nd. nd\<lparr>nd_service := fold run_op xs (nd_service nd)\<rparr>)"
  shows "\<exists>nd' w'. runSnapshotLoop interval (es @ Tick ev # Meanwhile handle # Ctx_cancelled # rest) nd = Some nd' \<and>
    core (nd_service nd') = core (fold run_op xs (Snapshot ev s)) \<and>
    sv_wal (nd_service nd') = Some w' \<and>
    holds_log (sv_nodeID s) w' (sv_files (nd_service nd')) (entries_from 0 (concat (map op_mutations xs))) \<and>
    core (startup ev' True (sv_nodeID s) port shards (sv_store (nd_service nd')) (Some (w_dir w)) (sv_files (nd_service nd'))) =
      core (nd_service nd')"
proof -
  let ?nd = "nd1\<lparr>nd_service := fold run_op xs (Snapshot ev s)\<rparr>"
  have "runSnapshotLoop interval (es @ Tick ev # Meanwhile handle # Ctx_cancelled # rest) nd = Some ?nd"
    using assms(1,3,13) ticker_loop_append [OF assms(2)]
    by (auto simp: runSnapshotLoop_def with_ticker_def split: if_splits)
  moreover obtain w' where "sv_wal (nd_service ?nd) = Some w'"
    "holds_log (sv_nodeID s) w' (sv_files (nd_service ?nd)) (entries_from 0 (concat (map op_mutations xs)))"
    using snapshot_run_recovers(1) [OF assms(4-12) refl] by auto
  moreover have "core (startup ev' True (sv_nodeID s) port shards (sv_store (nd_service ?nd)) (Some (w_dir w)) (sv_files (nd_service ?nd))) =
      core (nd_service ?nd)"
    using snapshot_run_recovers(2) [OF assms(4-12) refl] by simp
  ultimately show ?thesis by (intro exI [of _ ?nd] exI [of _ w']) simp
qed

text \<open>C28: how the process ends. After a configuration that loads, it runs until the signal and stops in order exactly when
  the logger and the metrics port are there, the heartbeat interval does not overflow, and tracing is either off or
  was initialised. When the initialisation of tracing fails, which \<open>main\<close> only logs, the process runs but
  panics at the end: the deferred shutdown calls the \<open>nil\<close> function that \<open>Init\<close> returned. An interval of up to 9223372036
  seconds is safe; one second more makes the heartbeat ticker panic.\<close>

theorem main_exit_spec:
  assumes "Load (me_config me) = Inr cfg"
  shows "(main me (build_node ev fl ping_ok get_ok db fs) = Server_stopped \<longleftrightarrow>
      me_logger_ok me \<and> me_metrics_listen me \<and> 0 < seconds (cf_HeartbeatInterval cfg) \<and>
      (cf_TracingEnabled cfg \<longrightarrow> me_exporter_ok me \<and> me_resource_ok me)) \<and>
    (main me (build_node ev fl ping_ok get_ok db fs) = Panic_nil_shutdown \<longleftrightarrow>
      me_logger_ok me \<and> me_metrics_listen me \<and> 0 < seconds (cf_HeartbeatInterval cfg) \<and>
      cf_TracingEnabled cfg \<and> (me_exporter_ok me \<longrightarrow> \<not> me_resource_ok me)) \<and>
    (cf_HeartbeatInterval cfg \<le> 9223372036 \<longrightarrow> 0 < seconds (cf_HeartbeatInterval cfg)) \<and> seconds 9223372037 < 0"
proof -
  obtain c where c: "me_config me = Inr c" using assms by (cases "me_config me") (simp_all add: Load_def)
  have "0 < cf_HeartbeatInterval cfg" using Load_normalises [of c cfg] assms c by simp
  then show ?thesis
    using assms seconds_exact [of "cf_HeartbeatInterval cfg"] seconds_overflow
    by (auto simp: main_def built_tickers trace_Init_def Let_def not_le split: prod.splits if_splits)
qed

definition sample_main :: main_env where
  "sample_main = \<lparr>me_config = Inr (sample_config\<lparr>cf_TracingEnabled := True\<rparr>), me_logger_ok = True, me_exporter_ok = False,
     me_resource_ok = True, me_metrics_listen = True\<rparr>"

theorem main_exit_spec_witness:
  "main sample_main (build_node sample_env id False False fmempty fmempty) = Panic_nil_shutdown"
proof -
  obtain cfg where cfg: "Load (me_config sample_main) = Inr cfg" "cf_TracingEnabled cfg" "cf_HeartbeatInterval cfg = 3"
    by (simp add: sample_main_def Load_def Let_def default_to_def sample_config_def)
  from main_exit_spec [OF cfg(1), of sample_env id False False fmempty fmempty] cfg(2,3) show ?thesis
    by (simp add: sample_main_def)
qed

theorem snapshot_loop_recovers_witness:
  "\<exists>nd'. runSnapshotLoop 0 [Tick sample_env, Meanwhile (\<lambda>nd. nd\<lparr>nd_service := fold run_op log_run (nd_service nd)\<rparr>), Ctx_cancelled,
       Tick sample_env] (sample_node\<lparr>nd_service := log_node\<rparr>) = Some nd' \<and>
     core (startup sample_env True ''n1'' 5000 1 (sv_store (nd_service nd')) (Some ''wal'') (sv_files (nd_service nd'))) = core (nd_service nd')"
proof -
  let ?w = "\<lparr>w_dir = ''wal'', w_file = None, w_seq = 0\<rparr>" and ?nd = "sample_node\<lparr>nd_service := log_node\<rparr>"
  have n: "sv_nodeID log_node = ''n1''" "sv_wal log_node = Some ?w" "sv_store log_node = Some fmempty"
    by (simp_all add: log_node_def SetWAL_def SetStore_def NewCounterService_def)
  have env: "ev_io sample_env = all_ok" "ev_set_ok sample_env" by (simp_all add: sample_env_def)
  have start: "?nd = the (runSnapshotLoop 0 [] ?nd)" "log_node = nd_service ?nd" by (simp_all add: runSnapshotLoop_def with_ticker_def)
  have ok: "service_ok log_node" "state_utf8 (persisted_state log_node)" using log_node_ok by simp_all
  from snapshot_loop_recovers [OF start(1) _ start(2) ok(1) n(2,3) env ok(2) log_run_ok env(1) refl, of "[Tick sample_env]" 5000 1]
  show ?thesis by (auto simp: n)
qed

end
