(* ===== verification/Metrics.thy ===== *)
theory Metrics
  imports Server_Main Dashboard "HOL-Library.Log_Nat"
begin

text \<open>
  \<open>internal/metrics/metrics.go\<close>: the metrics of a node and the functions that update them, with the calls of these functions in
  the handlers, the engine, the interceptors and \<open>main\<close>. The Prometheus library is not part of the sources: an update is a
  value that names the metric, the label values and the argument, and a part of the program is described by the
  list of its updates. What a counter or a gauge shows is read off such a list.
\<close>

section \<open>The metrics\<close>

datatype metric =
  IncrementTotal | DecrementTotal | CurrentValue | GossipMessagesSent | GossipMessagesReceived
| RecoveryRetryTotal | RecoverySeedFailuresTotal | RecoverySyncDurationSeconds | RecoveryInProgress
| RateLimitedTotal | AuthRejectedTotal

datatype metric_kind = CounterVec | GaugeVec | HistogramVec

record metric_opts =
  mo_kind :: metric_kind
  mo_Name :: string
  mo_Help :: string
  mo_labels :: "string list"

fun metric_opts_of :: "metric \<Rightarrow> metric_opts" where
  "metric_opts_of IncrementTotal = \<lparr>mo_kind = CounterVec, mo_Name = ''counter_increment_total'',
     mo_Help = ''Total number of increment operations'', mo_labels = [''node_id'']\<rparr>"
| "metric_opts_of DecrementTotal = \<lparr>mo_kind = CounterVec, mo_Name = ''counter_decrement_total'',
     mo_Help = ''Total number of decrement operations'', mo_labels = [''node_id'']\<rparr>"
| "metric_opts_of CurrentValue = \<lparr>mo_kind = GaugeVec, mo_Name = ''counter_current_value'',
     mo_Help = ''Current counter value'', mo_labels = [''node_id'']\<rparr>"
| "metric_opts_of GossipMessagesSent = \<lparr>mo_kind = CounterVec, mo_Name = ''gossip_messages_sent_total'',
     mo_Help = ''Total number of gossip messages sent'', mo_labels = [''node_id'']\<rparr>"
| "metric_opts_of GossipMessagesReceived = \<lparr>mo_kind = CounterVec, mo_Name = ''gossip_messages_received_total'',
     mo_Help = ''Total number of gossip messages received'', mo_labels = [''node_id'']\<rparr>"
| "metric_opts_of RecoveryRetryTotal = \<lparr>mo_kind = CounterVec, mo_Name = ''recovery_retry_total'',
     mo_Help = ''Total number of recovery retries'', mo_labels = [''node_id'', ''seed_node'']\<rparr>"
| "metric_opts_of RecoverySeedFailuresTotal = \<lparr>mo_kind = CounterVec, mo_Name = ''recovery_seed_failures_total'',
     mo_Help = ''Total number of failed recovery attempts per seed node'', mo_labels = [''node_id'', ''seed_node'']\<rparr>"
| "metric_opts_of RecoverySyncDurationSeconds = \<lparr>mo_kind = HistogramVec, mo_Name = ''recovery_sync_duration_seconds'',
     mo_Help = ''Duration of successful recovery state sync'', mo_labels = [''node_id'', ''seed_node'']\<rparr>"
| "metric_opts_of RecoveryInProgress = \<lparr>mo_kind = GaugeVec, mo_Name = ''recovery_in_progress'',
     mo_Help = ''Whether a node is currently recovering state'', mo_labels = [''node_id'']\<rparr>"
| "metric_opts_of RateLimitedTotal = \<lparr>mo_kind = CounterVec, mo_Name = ''rpc_rate_limited_total'',
     mo_Help = ''Total number of RPC requests rejected by the rate limiter'', mo_labels = [''node_id'', ''method'']\<rparr>"
| "metric_opts_of AuthRejectedTotal = \<lparr>mo_kind = CounterVec, mo_Name = ''rpc_auth_rejected_total'',
     mo_Help = ''Total number of RPC requests rejected due to invalid credentials'', mo_labels = [''node_id'', ''method'']\<rparr>"

definition all_metrics :: "metric list" where
  "all_metrics = [IncrementTotal, DecrementTotal, CurrentValue, GossipMessagesSent, GossipMessagesReceived,
     RecoveryRetryTotal, RecoverySeedFailuresTotal, RecoverySyncDurationSeconds, RecoveryInProgress,
     RateLimitedTotal, AuthRejectedTotal]"

text \<open>\<open>float64(value)\<close> of an integer: the nearest number with 53 significant bits, and of two that are equally near the one whose last bit
  is zero. It is an integer again.\<close>

definition float64_of_int :: "int \<Rightarrow> int" where
  "float64_of_int v =
     (let m = 2 ^ (floorlog 2 (nat \<bar>v\<bar>) - 53);
          q = \<bar>v\<bar> div m;
          r = \<bar>v\<bar> mod m
      in sgn v * ((if m < 2 * r \<or> (m = 2 * r \<and> odd q) then q + 1 else q) * m))"

text \<open>An update: \<open>Inc\<close> of a counter, \<open>Set\<close> of a gauge to a whole number, \<open>Observe\<close> of a time. The label values come from
  \<open>WithLabelValues\<close>.\<close>

datatype metric_call = Call_Inc metric "string list" | Call_Set metric "string list" int | Call_Observe metric "string list" duration

definition UpdateCounterValue :: "string \<Rightarrow> int64 \<Rightarrow> metric_call" where
  "UpdateCounterValue nodeID val = Call_Set CurrentValue [nodeID] (float64_of_int (sint val))"

definition IncIncrementTotal :: "string \<Rightarrow> metric_call" where
  "IncIncrementTotal nodeID = Call_Inc IncrementTotal [nodeID]"

definition IncDecrementTotal :: "string \<Rightarrow> metric_call" where
  "IncDecrementTotal nodeID = Call_Inc DecrementTotal [nodeID]"

definition IncGossipSent :: "string \<Rightarrow> metric_call" where
  "IncGossipSent nodeID = Call_Inc GossipMessagesSent [nodeID]"

definition IncGossipReceived :: "string \<Rightarrow> metric_call" where
  "IncGossipReceived nodeID = Call_Inc GossipMessagesReceived [nodeID]"

definition IncRecoveryRetry :: "string \<Rightarrow> string \<Rightarrow> metric_call" where
  "IncRecoveryRetry nodeID seedNode = Call_Inc RecoveryRetryTotal [nodeID, seedNode]"

definition IncRecoverySeedFailure :: "string \<Rightarrow> string \<Rightarrow> metric_call" where
  "IncRecoverySeedFailure nodeID seedNode = Call_Inc RecoverySeedFailuresTotal [nodeID, seedNode]"

definition ObserveRecoverySyncDuration :: "string \<Rightarrow> string \<Rightarrow> duration \<Rightarrow> metric_call" where
  "ObserveRecoverySyncDuration nodeID seedNode elapsed = Call_Observe RecoverySyncDurationSeconds [nodeID, seedNode] elapsed"

definition SetRecoveryInProgress :: "string \<Rightarrow> bool \<Rightarrow> metric_call" where
  "SetRecoveryInProgress nodeID inProgress =
     (if inProgress then Call_Set RecoveryInProgress [nodeID] 1 else Call_Set RecoveryInProgress [nodeID] 0)"

definition IncRateLimited :: "string \<Rightarrow> string \<Rightarrow> metric_call" where
  "IncRateLimited nodeID method = Call_Inc RateLimitedTotal [nodeID, method]"

definition IncAuthRejected :: "string \<Rightarrow> string \<Rightarrow> metric_call" where
  "IncAuthRejected nodeID method = Call_Inc AuthRejectedTotal [nodeID, method]"

lemmas metric_defs = UpdateCounterValue_def IncIncrementTotal_def IncDecrementTotal_def IncGossipSent_def IncGossipReceived_def
  IncRecoveryRetry_def IncRecoverySeedFailure_def ObserveRecoverySyncDuration_def SetRecoveryInProgress_def IncRateLimited_def
  IncAuthRejected_def

section \<open>The updates of each part\<close>

definition Increment_metrics :: "IncrementRequest \<Rightarrow> CounterService \<Rightarrow> metric_call list" where
  "Increment_metrics req s =
     (let name = normalizeName (ir_CounterName req);
          counter = PN_IncrementName name (req_delta (ir_Delta req)) (sv_counter s)
      in [IncIncrementTotal (sv_nodeID s), UpdateCounterValue (sv_nodeID s) (PN_ValueName name counter)])"

definition Decrement_metrics :: "DecrementRequest \<Rightarrow> CounterService \<Rightarrow> metric_call list" where
  "Decrement_metrics req s =
     (let name = normalizeName (dr_CounterName req);
          counter = PN_DecrementName name (req_delta (dr_Delta req)) (sv_counter s)
      in [IncDecrementTotal (sv_nodeID s), UpdateCounterValue (sv_nodeID s) (PN_ValueName name counter)])"

definition Reset_metrics :: "string \<Rightarrow> CounterService \<Rightarrow> metric_call list" where
  "Reset_metrics req_CounterName s =
     (let name = normalizeName req_CounterName
      in [UpdateCounterValue (sv_nodeID s) (PN_ValueName name (PN_ResetName name (sv_counter s)))])"

definition SyncState_metrics :: "StateUpdate \<Rightarrow> CounterService \<Rightarrow> metric_call list" where
  "SyncState_metrics update s =
     (if su_Type update = HEARTBEAT then []
      else (let s = merge_remote (su_PositiveState update) (su_NegativeState update) (su_VectorClock update) s
            in [UpdateCounterValue (sv_nodeID s) (PN_Value (sv_counter s)), IncGossipReceived (sv_nodeID s)]))"

definition Restore_metrics :: "CounterState option \<Rightarrow> CounterService \<Rightarrow> metric_call list" where
  "Restore_metrics state s =
     (case state of
        None \<Rightarrow> []
      | Some st \<Rightarrow>
          (let s = merge_remote (st_Positive st) (st_Negative st) (st_Clock st) s
           in [UpdateCounterValue (sv_nodeID s) (PN_ValueName ''default'' (sv_counter s))]))"

definition ReplayWAL_metrics :: "service_env \<Rightarrow> CounterService \<Rightarrow> metric_call list" where
  "ReplayWAL_metrics ev s =
     (case sv_wal s of
        None \<Rightarrow> []
      | Some w \<Rightarrow>
          (case Replay (ev_io ev) (sv_nodeID s) w (sv_files s) of
             ((Some e, entries), w) \<Rightarrow> []
           | ((None, entries), w) \<Rightarrow>
               if 0 < length entries
               then [UpdateCounterValue (sv_nodeID s) (PN_ValueName ''default'' (sv_counter (fold replay_entry entries s)))] else []))"

text \<open>The engine counts a round that was answered; merging the answer updates no gauge.\<close>

definition gossip_metrics :: "string \<Rightarrow> sync_result \<Rightarrow> metric_call list" where
  "gossip_metrics nodeID res = (if res = Synced then [IncGossipSent nodeID] else [])"

definition auth_metrics :: "AuthInterceptor \<Rightarrow> string \<Rightarrow> metadata option \<Rightarrow> metric_call list" where
  "auth_metrics a method ctx =
     (if ai_enabled a \<and> \<not> allowlist method \<and> \<not> authorized a ctx then [IncAuthRejected (ai_nodeID a) method] else [])"

definition rate_metrics :: "(rat \<Rightarrow> rat) \<Rightarrow> go_time \<Rightarrow> string \<Rightarrow> string \<Rightarrow> RateLimiter \<Rightarrow> metric_call list" where
  "rate_metrics fl now nodeID method r = (if \<not> fst (RL_Allow fl now r) then [IncRateLimited nodeID method] else [])"

text \<open>Recovery: the updates of one pass over the seeds, with the seed that failed last; those of the attempts; those of \<open>main\<close> around
  them. \<open>elapsed\<close> is the time a visit took.\<close>

fun seeds_metrics ::
  "recover_net \<Rightarrow> (nat \<Rightarrow> string \<Rightarrow> duration) \<Rightarrow> string \<Rightarrow> string \<Rightarrow> nat \<Rightarrow> string list \<Rightarrow> string \<Rightarrow> CounterService
   \<Rightarrow> metric_call list \<times> string" where
  "seeds_metrics net elapsed nodeID localAddress attempt [] lastFailedSeed s = ([], lastFailedSeed)"
| "seeds_metrics net elapsed nodeID localAddress attempt (seedAddr # seeds) lastFailedSeed s =
     (case recover_visit net nodeID localAddress attempt seedAddr s of
        Recovered s' \<Rightarrow>
          ([UpdateCounterValue nodeID (PN_Value (sv_counter s')),
            ObserveRecoverySyncDuration nodeID seedAddr (elapsed attempt seedAddr)], lastFailedSeed)
      | Visit_failed e \<Rightarrow>
          (case seeds_metrics net elapsed nodeID localAddress attempt seeds seedAddr s of
             (calls, lastFailedSeed) \<Rightarrow> (IncRecoverySeedFailure nodeID seedAddr # calls, lastFailedSeed))
      | Empty_answer \<Rightarrow> seeds_metrics net elapsed nodeID localAddress attempt seeds lastFailedSeed s)"

fun attempts_metrics ::
  "recover_net \<Rightarrow> (nat \<Rightarrow> string \<Rightarrow> duration) \<Rightarrow> string \<Rightarrow> string \<Rightarrow> string list \<Rightarrow> nat \<Rightarrow> nat \<Rightarrow> CounterService \<Rightarrow> metric_call list" where
  "attempts_metrics net elapsed nodeID localAddress uniqueSeeds attempt 0 s = []"
| "attempts_metrics net elapsed nodeID localAddress uniqueSeeds attempt (Suc left) s =
     (let orderedSeeds = rotateSeeds uniqueSeeds (attempt mod length uniqueSeeds)
      in (case seeds_metrics net elapsed nodeID localAddress attempt orderedSeeds '''' s of
            (calls, lastFailedSeed) \<Rightarrow>
              (case recover_seeds net nodeID localAddress attempt orderedSeeds None s of
                 Inr s' \<Rightarrow> calls
               | Inl lastErr \<Rightarrow>
                   calls @ (if attempt < maxAttempts - 1 \<and> lastFailedSeed \<noteq> '''' then [IncRecoveryRetry nodeID lastFailedSeed] else [])
                   @ attempts_metrics net elapsed nodeID localAddress uniqueSeeds (attempt + 1) left s)))"

definition recovery_metrics ::
  "recover_net \<Rightarrow> (nat \<Rightarrow> string \<Rightarrow> duration) \<Rightarrow> string \<Rightarrow> string \<Rightarrow> string list \<Rightarrow> CounterService \<Rightarrow> metric_call list" where
  "recovery_metrics net elapsed nodeID localAddress seedNodes s =
     (let uniqueSeeds = uniqueOrderedSeeds seedNodes
      in if length uniqueSeeds = 0 then []
         else attempts_metrics net elapsed nodeID localAddress uniqueSeeds 0 maxAttempts s)"

definition bootstrap_metrics ::
  "recover_net \<Rightarrow> (nat \<Rightarrow> string \<Rightarrow> duration) \<Rightarrow> string \<Rightarrow> string \<Rightarrow> string list \<Rightarrow> CounterService \<Rightarrow> metric_call list" where
  "bootstrap_metrics net elapsed nodeID localAddress seedNodes s =
     [SetRecoveryInProgress nodeID True] @ recovery_metrics net elapsed nodeID localAddress seedNodes s @
     [SetRecoveryInProgress nodeID False]"

section \<open>What the metrics show\<close>

definition total :: "metric_call list \<Rightarrow> metric \<Rightarrow> string list \<Rightarrow> nat" where
  "total calls m labels = length (filter (\<lambda>c. c = Call_Inc m labels) calls)"

fun gauge :: "metric_call list \<Rightarrow> metric \<Rightarrow> string list \<Rightarrow> int option" where
  "gauge [] m labels = None"
| "gauge (c # cs) m labels =
     (case gauge cs m labels of
        Some x \<Rightarrow> Some x
      | None \<Rightarrow> (case c of Call_Set m' labels' x \<Rightarrow> if m' = m \<and> labels' = labels then Some x else None | _ \<Rightarrow> None))"

text \<open>\<open>WithLabelValues\<close> panics unless there is one value for every label.\<close>

fun call_ok :: "metric_call \<Rightarrow> bool" where
  "call_ok (Call_Inc m labels) \<longleftrightarrow> mo_kind (metric_opts_of m) = CounterVec \<and> length labels = length (mo_labels (metric_opts_of m))"
| "call_ok (Call_Set m labels x) \<longleftrightarrow> mo_kind (metric_opts_of m) = GaugeVec \<and> length labels = length (mo_labels (metric_opts_of m))"
| "call_ok (Call_Observe m labels x) \<longleftrightarrow> mo_kind (metric_opts_of m) = HistogramVec \<and> length labels = length (mo_labels (metric_opts_of m))"

lemma total_append [simp]: "total (xs @ ys) m ls = total xs m ls + total ys m ls"
  by (simp add: total_def)

lemma total_Nil [simp]: "total [] m ls = 0"
  by (simp add: total_def)

lemma total_Cons: "total (c # cs) m ls = (if c = Call_Inc m ls then 1 else 0) + total cs m ls"
  by (simp add: total_def)

lemma gauge_append: "gauge (xs @ ys) m ls = (case gauge ys m ls of Some x \<Rightarrow> Some x | None \<Rightarrow> gauge xs m ls)"
  by (induction xs) (auto split: option.splits)

section \<open>Runs of the service\<close>

fun op_metrics :: "service_env \<times> service_op \<Rightarrow> CounterService \<Rightarrow> metric_call list" where
  "op_metrics (ev, Op_Increment req) s = Increment_metrics req s"
| "op_metrics (ev, Op_Decrement req) s = Decrement_metrics req s"
| "op_metrics (ev, Op_Reset name) s = Reset_metrics name s"
| "op_metrics (ev, Op_Sync update) s = SyncState_metrics update s"

fun run_metrics :: "(service_env \<times> service_op) list \<Rightarrow> CounterService \<Rightarrow> metric_call list" where
  "run_metrics [] s = []"
| "run_metrics (x # xs) s = op_metrics x s @ run_metrics xs (run_op x s)"

text \<open>The value that the gauge gets from an operation.\<close>

fun shown_value :: "service_op \<Rightarrow> PNCounter \<Rightarrow> int64" where
  "shown_value (Op_Increment req) p = PN_ValueName (ir_CounterName req) p"
| "shown_value (Op_Decrement req) p = PN_ValueName (dr_CounterName req) p"
| "shown_value (Op_Reset name) p = PN_ValueName name p"
| "shown_value (Op_Sync update) p = PN_Value p"

fun is_increment :: "service_op \<Rightarrow> bool" where
  "is_increment (Op_Increment req) \<longleftrightarrow> True"
| "is_increment _ \<longleftrightarrow> False"

fun is_decrement :: "service_op \<Rightarrow> bool" where
  "is_decrement (Op_Decrement req) \<longleftrightarrow> True"
| "is_decrement _ \<longleftrightarrow> False"

fun is_sync :: "service_op \<Rightarrow> bool" where
  "is_sync (Op_Sync update) \<longleftrightarrow> su_Type update \<noteq> HEARTBEAT"
| "is_sync _ \<longleftrightarrow> False"

definition silent :: "service_op \<Rightarrow> bool" where
  "silent op \<longleftrightarrow> (\<exists>update. op = Op_Sync update \<and> su_Type update = HEARTBEAT)"

lemma SyncState_recv_nodeID [simp]: "sv_nodeID (snd (SyncState_recv ev u s)) = sv_nodeID s"
  by (simp add: SyncState_recv_def Let_def buildDeltaReply_def merge_remote_def split: option.split prod.split)

lemma run_op_nodeID [simp]: "sv_nodeID (run_op x s) = sv_nodeID s"
proof (cases x)
  case (Pair ev op)
  then show ?thesis by (cases op) (simp_all add: Increment_def Decrement_def Reset_def Let_def)
qed

lemma run_nodeID [simp]: "sv_nodeID (fold run_op xs s) = sv_nodeID s"
  by (induction xs arbitrary: s) simp_all

lemma run_metrics_append: "run_metrics (xs @ ys) s = run_metrics xs s @ run_metrics ys (fold run_op xs s)"
  by (induction xs arbitrary: s) simp_all

lemma PN_ValueName_normalize: "PN_ValueName (normalizeName name) p = PN_ValueName name p"
proof -
  have "keyBelongsTo (normalizeName name) = keyBelongsTo name" by (rule ext) (simp add: keyBelongsTo_def normalizeName_def)
  then show ?thesis by (simp add: PN_ValueName_def)
qed

lemma op_gauge:
  assumes "\<not> silent op"
  shows "gauge (op_metrics (ev, op) s) CurrentValue [sv_nodeID s] =
    Some (float64_of_int (sint (shown_value op (sv_counter (run_op (ev, op) s)))))"
proof (cases op)
  case (Op_Sync u)
  with assms have u: "su_Type u \<noteq> HEARTBEAT" by (simp add: silent_def)
  have "sv_counter (snd (SyncState_recv ev u s)) =
      sv_counter (merge_remote (su_PositiveState u) (su_NegativeState u) (su_VectorClock u) s)"
    using sync_core [of ev u s] u by (simp add: core_def)
  with Op_Sync u show ?thesis by (simp add: SyncState_metrics_def Let_def metric_defs merge_remote_def)
qed (simp_all add: Increment_metrics_def Decrement_metrics_def Reset_metrics_def Let_def metric_defs Increment_def Decrement_def Reset_def
      PN_ValueName_normalize)

lemma op_totals:
  "total (op_metrics (ev, op) s) IncrementTotal [sv_nodeID s] = (if is_increment op then 1 else 0)"
  "total (op_metrics (ev, op) s) DecrementTotal [sv_nodeID s] = (if is_decrement op then 1 else 0)"
  "total (op_metrics (ev, op) s) GossipMessagesReceived [sv_nodeID s] = (if is_sync op then 1 else 0)"
  by (cases op; simp add: Increment_metrics_def Decrement_metrics_def Reset_metrics_def SyncState_metrics_def Let_def metric_defs
      total_Cons merge_remote_def)+

lemma run_totals:
  "total (run_metrics xs s) IncrementTotal [sv_nodeID s] = length (filter (is_increment \<circ> snd) xs)"
  "total (run_metrics xs s) DecrementTotal [sv_nodeID s] = length (filter (is_decrement \<circ> snd) xs)"
  "total (run_metrics xs s) GossipMessagesReceived [sv_nodeID s] = length (filter (is_sync \<circ> snd) xs)"
proof -
  have "total (run_metrics xs s) IncrementTotal [sv_nodeID s] = length (filter (is_increment \<circ> snd) xs) \<and>
    total (run_metrics xs s) DecrementTotal [sv_nodeID s] = length (filter (is_decrement \<circ> snd) xs) \<and>
    total (run_metrics xs s) GossipMessagesReceived [sv_nodeID s] = length (filter (is_sync \<circ> snd) xs)"
  proof (induction xs arbitrary: s)
    case (Cons x xs)
    obtain ev op where "x = (ev, op)" by (cases x)
    with Cons.IH [of "run_op x s"] op_totals [of ev op s] show ?case by simp
  qed simp
  then show "total (run_metrics xs s) IncrementTotal [sv_nodeID s] = length (filter (is_increment \<circ> snd) xs)"
    "total (run_metrics xs s) DecrementTotal [sv_nodeID s] = length (filter (is_decrement \<circ> snd) xs)"
    "total (run_metrics xs s) GossipMessagesReceived [sv_nodeID s] = length (filter (is_sync \<circ> snd) xs)" by simp_all
qed

section \<open>Recovery\<close>

text \<open>The increments of a counter, summed over all label values.\<close>

definition sum_total :: "metric_call list \<Rightarrow> metric \<Rightarrow> nat" where
  "sum_total calls m = length (filter (\<lambda>c. case c of Call_Inc m' ls \<Rightarrow> m' = m | _ \<Rightarrow> False) calls)"

lemma sum_total_append [simp]: "sum_total (xs @ ys) m = sum_total xs m + sum_total ys m"
  by (simp add: sum_total_def)

lemma sum_total_simps [simp]: "sum_total [] m = 0"
  "sum_total (c # cs) m = (case c of Call_Inc m' ls \<Rightarrow> if m' = m then 1 else 0 | _ \<Rightarrow> 0) + sum_total cs m"
  by (simp_all add: sum_total_def split: metric_call.split)

lemma seeds_failures:
  "distinct seeds \<Longrightarrow> total (fst (seeds_metrics net el n addr a seeds lf s)) RecoverySeedFailuresTotal [n, x] \<le> (if x \<in> set seeds then 1 else 0)"
proof (induction seeds arbitrary: lf)
  case (Cons y seeds)
  show ?case
    using Cons.IH [of y] Cons.IH [of lf] Cons.prems
    by (auto simp: total_Cons metric_defs split: visit.split prod.split if_splits)
qed simp

lemma seeds_no_retry: "sum_total (fst (seeds_metrics net el n addr a seeds lf s)) RecoveryRetryTotal = 0"
  by (induction seeds arbitrary: lf) (auto simp: metric_defs split: visit.split prod.split, metis fst_conv)

lemma attempts_failures:
  "distinct seeds \<Longrightarrow> total (attempts_metrics net el n addr seeds a left s) RecoverySeedFailuresTotal [n, x] \<le> left"
proof (induction left arbitrary: a)
  case (Suc left)
  let ?seeds = "rotateSeeds seeds (a mod length seeds)"
  obtain calls lf where c: "seeds_metrics net el n addr a ?seeds '''' s = (calls, lf)" by fastforce
  have "total calls RecoverySeedFailuresTotal [n, x] \<le> 1"
    using seeds_failures [of ?seeds net el n addr a "''''" s x] Suc.prems c by (simp add: rotateSeeds_rotate split: if_splits)
  with Suc.IH [OF Suc.prems, of "Suc a"] c show ?case
    by (auto simp: Let_def total_Cons metric_defs split: sum.split)
qed simp

lemma attempts_retries: "sum_total (attempts_metrics net el n addr seeds a left s) RecoveryRetryTotal \<le> maxAttempts - 1 - a"
proof (induction left arbitrary: a)
  case (Suc left)
  let ?seeds = "rotateSeeds seeds (a mod length seeds)"
  obtain calls lf where c: "seeds_metrics net el n addr a ?seeds '''' s = (calls, lf)" by fastforce
  have "sum_total calls RecoveryRetryTotal = 0" using seeds_no_retry [of net el n addr a ?seeds "''''" s] c by simp
  with Suc.IH [of "Suc a"] c show ?case by (auto simp: Let_def metric_defs split: sum.split)
qed simp

text \<open>When every visit fails.\<close>

lemma seeds_all_fail:
  assumes "\<And>x. \<exists>e. recover_visit net n addr a x s = Visit_failed e"
  shows "seeds_metrics net el n addr a seeds lf s = (map (IncRecoverySeedFailure n) seeds, if seeds = [] then lf else List.last seeds)"
    and "\<exists>e. recover_seeds net n addr a seeds le s = Inl e"
proof -
  show "seeds_metrics net el n addr a seeds lf s = (map (IncRecoverySeedFailure n) seeds, if seeds = [] then lf else List.last seeds)"
  proof (induction seeds arbitrary: lf)
    case (Cons x seeds)
    with assms [of x] show ?case by auto
  qed simp
  show "\<exists>e. recover_seeds net n addr a seeds le s = Inl e"
  proof (induction seeds arbitrary: le)
    case (Cons x seeds)
    with assms [of x] show ?case by auto
  qed simp
qed

lemma total_failures: "total (map (IncRecoverySeedFailure n) seeds) RecoverySeedFailuresTotal [n, x] = count_list seeds x"
  by (induction seeds) (simp_all add: total_Cons metric_defs)

lemma count_list_distinct: "distinct xs \<Longrightarrow> count_list xs x = (if x \<in> set xs then 1 else 0)"
  by (induction xs) auto

lemma attempts_all_fail:
  assumes "\<And>a x. \<exists>e. recover_visit net n addr a x s = Visit_failed e" and "distinct seeds" and "x \<in> set seeds"
  shows "total (attempts_metrics net el n addr seeds a left s) RecoverySeedFailuresTotal [n, x] = left"
proof (induction left arbitrary: a)
  case (Suc left)
  let ?seeds = "rotateSeeds seeds (a mod length seeds)"
  have "count_list ?seeds x = 1" using assms(2,3) by (simp add: rotateSeeds_rotate count_list_distinct)
  moreover obtain e where "recover_seeds net n addr a ?seeds None s = Inl e" using seeds_all_fail(2) [OF assms(1)] by blast
  moreover have "seeds_metrics net el n addr a ?seeds '''' s = (map (IncRecoverySeedFailure n) ?seeds, if ?seeds = [] then '''' else List.last ?seeds)"
    by (rule seeds_all_fail(1)) (rule assms(1))
  ultimately show ?case using Suc.IH [of "Suc a"] by (simp add: Let_def total_failures total_Cons metric_defs)
qed simp

section \<open>The registry and the dashboard\<close>

text \<open>What \<open>Gather\<close> of the Prometheus registry returns for the counters: one family per counter that was incremented, with one metric
  for every combination of label values.\<close>

definition used_labels :: "metric_call list \<Rightarrow> metric \<Rightarrow> string list list" where
  "used_labels calls m = remdups (concat (map (\<lambda>c. case c of Call_Inc m' ls \<Rightarrow> if m' = m then [ls] else [] | _ \<Rightarrow> []) calls))"

definition gathers :: "metric_call list \<Rightarrow> (string \<times> rat option list) list \<Rightarrow> bool" where
  "gathers calls families \<longleftrightarrow> distinct (map fst families) \<and>
     list_all (\<lambda>m. mo_kind (metric_opts_of m) = CounterVec \<longrightarrow>
       (case map_of families (mo_Name (metric_opts_of m)) of
          None \<Rightarrow> used_labels calls m = []
        | Some ms \<Rightarrow> used_labels calls m \<noteq> [] \<and>
            mset ms = mset (map (\<lambda>ls. Some (of_nat (total calls m ls))) (used_labels calls m)))) all_metrics"

lemma fold_families:
  assumes "distinct (map fst families)"
  shows "fold (family_body fl) families stats =
    \<lparr>gs_SentTotal = (case map_of families ''gossip_messages_sent_total'' of None \<Rightarrow> gs_SentTotal stats | Some ms \<Rightarrow> sumCounterValues fl ms),
     gs_ReceivedTotal = (case map_of families ''gossip_messages_received_total'' of None \<Rightarrow> gs_ReceivedTotal stats | Some ms \<Rightarrow> sumCounterValues fl ms)\<rparr>"
  using assms
proof (induction families arbitrary: stats)
  case (Cons f families)
  have none: "map_of families (fst f) = None" using Cons.prems by (simp add: map_of_eq_None_iff)
  show ?case
    using Cons none by (cases f) (auto simp: family_body_def split: option.split)
qed simp

lemma remdups_same: "remdups (replicate n x) = (if n = 0 then [] else [x])"
  by (induction n) auto

lemma used_labels_single:
  assumes "\<forall>c \<in> set calls. \<forall>ls. c = Call_Inc m ls \<longrightarrow> ls = l"
  shows "used_labels calls m = (if total calls m l = 0 then [] else [l])"
proof -
  have "concat (map (\<lambda>c. case c of Call_Inc m' ls \<Rightarrow> if m' = m then [ls] else [] | _ \<Rightarrow> []) calls) = replicate (total calls m l) l"
    using assms
  proof (induction calls)
    case (Cons c calls)
    then show ?case by (cases c) (simp_all add: total_Cons)
  qed simp
  then show ?thesis by (simp add: used_labels_def remdups_same)
qed

lemma gathered_sum:
  assumes "gathers calls families" and "m \<in> set all_metrics" and "mo_kind (metric_opts_of m) = CounterVec"
    and "\<forall>c \<in> set calls. \<forall>ls. c = Call_Inc m ls \<longrightarrow> ls = l" and "fl (of_nat (total calls m l)) = of_nat (total calls m l)"
  shows "(case map_of families (mo_Name (metric_opts_of m)) of None \<Rightarrow> 0 | Some ms \<Rightarrow> sumCounterValues fl ms) = of_nat (total calls m l)"
proof -
  note used = used_labels_single [OF assms(4)]
  have g: "case map_of families (mo_Name (metric_opts_of m)) of
          None \<Rightarrow> used_labels calls m = []
        | Some ms \<Rightarrow> used_labels calls m \<noteq> [] \<and> mset ms = mset (map (\<lambda>ls. Some (of_nat (total calls m ls))) (used_labels calls m))"
    using assms(1-3) by (simp add: gathers_def list_all_iff)
  show ?thesis
  proof (cases "map_of families (mo_Name (metric_opts_of m))")
    case None
    with g used show ?thesis by (simp split: if_splits)
  next
    case (Some ms)
    with g used have "ms = [Some (of_nat (total calls m l))]" by (auto split: if_splits)
    with Some assms(5) show ?thesis by (simp add: sumCounterValues_def)
  qed
qed

lemma op_labels: "Call_Inc m ls \<in> set (op_metrics (ev, op) s) \<Longrightarrow> ls = [sv_nodeID s] \<and> m \<noteq> GossipMessagesSent"
  by (cases op) (auto simp: Increment_metrics_def Decrement_metrics_def Reset_metrics_def SyncState_metrics_def Let_def metric_defs
      merge_remote_def split: if_splits)

lemma run_labels: "Call_Inc m ls \<in> set (run_metrics xs s) \<Longrightarrow> ls = [sv_nodeID s] \<and> m \<noteq> GossipMessagesSent"
proof (induction xs arbitrary: s)
  case (Cons x xs)
  obtain ev op where x: "x = (ev, op)" by (cases x)
  from Cons.prems have "Call_Inc m ls \<in> set (op_metrics x s) \<or> Call_Inc m ls \<in> set (run_metrics xs (run_op x s))" by simp
  with Cons.IH [of "run_op x s"] op_labels [of m ls ev op s] x show ?case by auto
qed simp

lemma total_absent: "(\<And>c. c \<in> set calls \<Longrightarrow> c \<noteq> Call_Inc m ls) \<Longrightarrow> total calls m ls = 0"
  by (auto simp: total_def filter_empty_conv)

lemma gossip_totals:
  "total (concat (map (gossip_metrics n) rs)) GossipMessagesSent [n] = length (filter (\<lambda>r. r = Synced) rs)"
  "total (concat (map (gossip_metrics n) rs)) GossipMessagesReceived ls = 0"
  by (induction rs) (simp_all add: gossip_metrics_def total_Cons metric_defs)

lemma gossip_labels: "Call_Inc m ls \<in> set (concat (map (gossip_metrics n) rs)) \<Longrightarrow> ls = [n]"
  by (auto simp: gossip_metrics_def metric_defs split: if_splits)

section \<open>The conversion to \<open>float64\<close>\<close>

lemma float64_of_int_error: "2 * \<bar>float64_of_int v - v\<bar> \<le> 2 ^ (floorlog 2 (nat \<bar>v\<bar>) - 53)"
proof -
  define m :: int where "m = 2 ^ (floorlog 2 (nat \<bar>v\<bar>) - 53)"
  define q where "q = \<bar>v\<bar> div m"
  define r where "r = \<bar>v\<bar> mod m"
  define w where "w = (if m < 2 * r \<or> (m = 2 * r \<and> odd q) then q + 1 else q) * m"
  have v: "\<bar>v\<bar> = q * m + r" by (simp add: q_def r_def)
  have "0 < m" by (simp add: m_def)
  then have "0 \<le> r" "r < m" by (simp_all add: r_def)
  with v have w: "2 * \<bar>w - \<bar>v\<bar>\<bar> \<le> m" by (auto simp: w_def algebra_simps abs_if)
  have "float64_of_int v = sgn v * w" by (simp add: float64_of_int_def Let_def w_def q_def r_def m_def)
  moreover have "\<bar>sgn v * w - v\<bar> = \<bar>w - \<bar>v\<bar>\<bar>" if "v \<noteq> 0" using that by (cases "0 < v") (auto simp: sgn_if abs_if)
  ultimately show ?thesis using w by (cases "v = 0") (simp_all add: m_def)
qed

lemma float64_of_int_exact:
  assumes "\<bar>v\<bar> \<le> 2 ^ 53"
  shows "float64_of_int v = v"
proof (cases "\<bar>v\<bar> = 2 ^ 53")
  case True
  have "floorlog 2 (2 ^ 53) = 54" using floorlog_power [of 1 2 53] by (simp add: compute_floorlog)
  then have "floorlog 2 (nat \<bar>v\<bar>) = 54" using True by (simp add: nat_power_eq)
  moreover have "v = 2 ^ 53 \<or> v = - (2 ^ 53)" using True by linarith
  ultimately show ?thesis by (auto simp: float64_of_int_def Let_def)
next
  case False
  with assms have "nat \<bar>v\<bar> < 2 ^ 53" by (simp add: nat_less_iff)
  then have "floorlog 2 (nat \<bar>v\<bar>) \<le> 53" by (rule floorlog_leI) simp_all
  with float64_of_int_error [of v] have "2 * \<bar>float64_of_int v - v\<bar> \<le> 1" by simp
  then show ?thesis by (simp add: abs_if split: if_splits)
qed

lemma float64_of_int64_error:
  assumes "v = sint (x :: int64)"
  shows "\<bar>float64_of_int v - v\<bar> \<le> 512"
proof (cases "v = - (2 ^ 63)")
  case True
  have "floorlog 2 (2 ^ 63) = 64" using floorlog_power [of 1 2 63] by (simp add: compute_floorlog)
  then have "floorlog 2 (nat \<bar>v\<bar>) = 64" using True by (simp add: nat_power_eq)
  with True show ?thesis by (simp add: float64_of_int_def Let_def)
next
  case False
  with sint_int64_range [of x] assms have "nat \<bar>v\<bar> < 2 ^ 63" by (simp add: nat_less_iff abs_if)
  then have "floorlog 2 (nat \<bar>v\<bar>) \<le> 63" by (rule floorlog_leI) simp_all
  then have "(2 :: int) ^ (floorlog 2 (nat \<bar>v\<bar>) - 53) \<le> 2 ^ 10" by (intro power_increasing) simp_all
  with float64_of_int_error [of v] show ?thesis by simp
qed

section \<open>Properties\<close>

text \<open>C29: the metrics of a service: over any run of requests the totals count the increments, the decrements and the gossip updates
  received, and the gauge of the current value shows what the last operation wrote: the value of the counter that it named, or
  the sum of all counters after a gossip update, as a \<open>float64\<close>: exactly up to \<open>2\<^sup>5\<^sup>3\<close>, and never off by more than 512. The node id is its
  only label, so that the counters of a node overwrite each other.\<close>

theorem service_metrics:
  assumes "xs = ys @ [(ev, op)]" and "\<not> silent op" and "v = sint (shown_value op (sv_counter (fold run_op xs s)))"
  shows "total (run_metrics xs s) IncrementTotal [sv_nodeID s] = length (filter (is_increment \<circ> snd) xs) \<and>
    total (run_metrics xs s) DecrementTotal [sv_nodeID s] = length (filter (is_decrement \<circ> snd) xs) \<and>
    total (run_metrics xs s) GossipMessagesReceived [sv_nodeID s] = length (filter (is_sync \<circ> snd) xs) \<and>
    gauge (run_metrics xs s) CurrentValue [sv_nodeID s] = Some (float64_of_int v) \<and>
    (\<bar>v\<bar> \<le> 2 ^ 53 \<longrightarrow> float64_of_int v = v) \<and> \<bar>float64_of_int v - v\<bar> \<le> 512"
  using op_gauge [OF assms(2), of ev "fold run_op ys s"] float64_of_int_exact [of v] float64_of_int64_error [OF assms(3)]
  unfolding assms(3)
  by (simp add: run_totals) (simp add: assms(1) run_metrics_append gauge_append del: op_metrics.simps run_op.simps)

definition metrics_run :: "(service_env \<times> service_op) list" where
  "metrics_run = [(sample_env, Op_Increment \<lparr>ir_Delta = 5, ir_ClientId = '''', ir_Timestamp = 0, ir_CounterName = ''likes''\<rparr>),
     (sample_env, Op_Increment \<lparr>ir_Delta = 2, ir_ClientId = '''', ir_Timestamp = 0, ir_CounterName = ''views''\<rparr>)]"

theorem service_metrics_witness:
  "gauge (run_metrics metrics_run (NewCounterService ''n1'' 5000 fmempty)) CurrentValue [''n1''] = Some 2 \<and>
   total (run_metrics metrics_run (NewCounterService ''n1'' 5000 fmempty)) IncrementTotal [''n1''] = 2"
proof -
  let ?s = "NewCounterService ''n1'' 5000 fmempty" and ?op = "snd (metrics_run ! 1)"
  have xs: "metrics_run = [metrics_run ! 0] @ [(sample_env, ?op)]" by (simp add: metrics_run_def)
  have op: "\<not> silent ?op" by (simp add: silent_def metrics_run_def)
  have "sv_nodeID ?s = ''n1''" "sint (shown_value ?op (sv_counter (fold run_op metrics_run ?s))) = 2"
    "length (filter (is_increment \<circ> snd) metrics_run) = 2"
    by code_simp+
  with service_metrics [OF xs op refl, of ?s] show ?thesis by simp
qed

text \<open>C30: the metrics of recovery: one start of a node counts at most five failures for a seed, exactly five when no seed can be
  reached, and at most four retries over all seeds, and the gauge of recovery is back at zero afterwards. The
  alerts on more than five failures and on more than ten retries in ten minutes can fire only if the process starts again and again.\<close>

theorem recovery_metrics_bounds:
  assumes calls_def: "calls = bootstrap_metrics net elapsed nodeID localAddress seedNodes s"
  shows "total calls RecoverySeedFailuresTotal [nodeID, seed] \<le> 5 \<and> sum_total calls RecoveryRetryTotal \<le> 4 \<and>
    gauge calls RecoveryInProgress [nodeID] = Some 0 \<and>
    ((\<forall>a x. \<not> rn_dial net a x) \<and> seed \<in> set seedNodes \<longrightarrow> total calls RecoverySeedFailuresTotal [nodeID, seed] = 5)"
proof -
  let ?seeds = "uniqueOrderedSeeds seedNodes"
  let ?run = "attempts_metrics net elapsed nodeID localAddress ?seeds 0 maxAttempts s"
  have calls: "total calls RecoverySeedFailuresTotal ls = (if seedNodes = [] then 0 else total ?run RecoverySeedFailuresTotal ls)"
    "sum_total calls RecoveryRetryTotal = (if seedNodes = [] then 0 else sum_total ?run RecoveryRetryTotal)" for ls
    by (simp_all add: calls_def bootstrap_metrics_def recovery_metrics_def Let_def metric_defs total_Cons flip: set_empty [of ?seeds])
  have "gauge calls RecoveryInProgress [nodeID] = Some 0"
    by (simp add: calls_def bootstrap_metrics_def metric_defs gauge_append)
  moreover have "total ?run RecoverySeedFailuresTotal [nodeID, seed] = maxAttempts"
    if "\<forall>a x. \<not> rn_dial net a x" "seed \<in> set seedNodes"
    using that by (intro attempts_all_fail) (auto simp: recover_visit_def)
  ultimately show ?thesis
    using calls attempts_failures [of ?seeds net elapsed nodeID localAddress 0 maxAttempts s seed]
      attempts_retries [of net elapsed nodeID localAddress ?seeds 0 maxAttempts s] by auto
qed

definition dead_seeds :: recover_net where
  "dead_seeds = \<lparr>rn_now = \<lambda>_ _. 0, rn_dial = \<lambda>_ _. False, rn_stream = \<lambda>_ _. False, rn_send = \<lambda>_ _. False, rn_recv = \<lambda>_ _ _. None\<rparr>"

theorem recovery_metrics_bounds_witness:
  "total (bootstrap_metrics dead_seeds (\<lambda>_ _. 0) ''n1'' ''here'' [''x'', ''y'', ''x''] (NewCounterService ''n1'' 5000 fmempty))
     RecoverySeedFailuresTotal [''n1'', ''x''] = 5"
  using recovery_metrics_bounds [OF refl, of dead_seeds "\<lambda>_ _. 0" "''n1''" "''here''" "[''x'', ''y'', ''x'']" "NewCounterService ''n1'' 5000 fmempty" "''x''"]
  by (simp add: dead_seeds_def)

text \<open>The gossip statistics of the dashboard: when the registry returns what was counted, the dashboard shows as sent the gossip rounds of this node that
  were answered and as received the gossip updates it handled, as long as the numbers are exact in a \<open>float64\<close>.\<close>

theorem dashboard_gossip_totals:
  assumes "\<And>n :: nat. n < 2 ^ 53 \<Longrightarrow> fl (of_nat n) = of_nat n" and "length xs < 2 ^ 53" and "length rs < 2 ^ 53"
    and "gathers (run_metrics xs s @ concat (map (gossip_metrics (sv_nodeID s)) rs)) families" and "dn_gather net = Some families"
  shows "pollGossip fl net =
    \<lparr>gs_SentTotal = of_nat (length (filter (\<lambda>r. r = Synced) rs)), gs_ReceivedTotal = of_nat (length (filter (is_sync \<circ> snd) xs))\<rparr>"
proof -
  let ?n = "sv_nodeID s"
  let ?calls = "run_metrics xs s @ concat (map (gossip_metrics ?n) rs)"
  have totals: "total ?calls GossipMessagesSent [?n] = length (filter (\<lambda>r. r = Synced) rs)"
    "total ?calls GossipMessagesReceived [?n] = length (filter (is_sync \<circ> snd) xs)"
    using run_labels [of GossipMessagesSent] by (auto simp: gossip_totals run_totals intro!: total_absent)
  have fl: "fl (of_nat (total ?calls m [?n])) = of_nat (total ?calls m [?n])" if "m = GossipMessagesSent \<or> m = GossipMessagesReceived" for m
  proof (rule assms(1))
    have "length (filter (\<lambda>r. r = Synced) rs) < 2 ^ 53" "length (filter (is_sync \<circ> snd) xs) < 2 ^ 53"
      using assms(2,3) by (metis le_less_trans length_filter_le)+
    with that show "total ?calls m [?n] < 2 ^ 53" by (auto simp only: totals)
  qed
  have labels: "\<forall>c \<in> set ?calls. \<forall>ls. c = Call_Inc m ls \<longrightarrow> ls = [?n]" for m
    using run_labels [of m] gossip_labels [of m _ ?n rs] by fastforce
  have val: "(case map_of families (mo_Name (metric_opts_of m)) of None \<Rightarrow> 0 | Some ms \<Rightarrow> sumCounterValues fl ms) = of_nat (total ?calls m [?n])"
    if "m = GossipMessagesSent \<or> m = GossipMessagesReceived" for m
    by (rule gathered_sum [where fl = fl, OF assms(4) _ _ labels [of m] fl [OF that]]) (use that in \<open>auto simp: all_metrics_def\<close>)
  have "distinct (map fst families)" using assms(4) by (simp add: gathers_def)
  then show ?thesis
    using val [of GossipMessagesSent, unfolded totals] val [of GossipMessagesReceived, unfolded totals] assms(5)
    by (cases "map_of families ''gossip_messages_sent_total''"; cases "map_of families ''gossip_messages_received_total''")
      (simp_all add: pollGossip_def fold_families Let_def)
qed

definition gossip_sample :: "(service_env \<times> service_op) list" where
  "gossip_sample = [(sample_env, Op_Sync \<lparr>su_FromNodeId = ''b'', su_PositiveState = fmempty, su_NegativeState = fmempty,
     su_VectorClock = fmempty, su_Timestamp = 0, su_Type = FULL_STATE, su_LastSyncVersion = 0, su_Membership = fmempty\<rparr>)]"

definition gathered_sample :: "(string \<times> rat option list) list" where
  "gathered_sample = [(''gossip_messages_received_total'', [Some 1]), (''gossip_messages_sent_total'', [Some 2])]"

theorem dashboard_gossip_totals_witness:
  "pollGossip id \<lparr>dn_info = \<lambda>_. None, dn_counters = \<lambda>_. None, dn_gather = Some gathered_sample\<rparr> = \<lparr>gs_SentTotal = 2, gs_ReceivedTotal = 1\<rparr>"
proof -
  let ?s = "NewCounterService ''n1'' 5000 fmempty" and ?rs = "[Synced, Round_failed, Synced]"
  have "gathers (run_metrics gossip_sample ?s @ concat (map (gossip_metrics (sv_nodeID ?s)) ?rs)) gathered_sample"
    by (simp add: gathers_def gathered_sample_def gossip_sample_def SyncState_metrics_def gossip_metrics_def metric_defs Let_def
        merge_remote_def NewCounterService_def used_labels_def total_def all_metrics_def)
  from dashboard_gossip_totals [OF _ _ _ this, of id "\<lparr>dn_info = \<lambda>_. None, dn_counters = \<lambda>_. None, dn_gather = Some gathered_sample\<rparr>"]
  show ?thesis by (simp add: gossip_sample_def)
qed

text \<open>No metric update panics: the metrics have different names, so that they can all be registered, and every update in the sources
  is made on a metric of the right kind with one value for each of its labels.\<close>

theorem metric_updates_ok:
  "distinct (map (mo_Name \<circ> metric_opts_of) all_metrics) \<and> set all_metrics = UNIV \<and>
   list_all call_ok (run_metrics xs s @ Restore_metrics state s @ ReplayWAL_metrics ev s @ gossip_metrics n res @
     auth_metrics a method ctx @ rate_metrics fl now n method r @ bootstrap_metrics net elapsed n addr seeds s)"
proof -
  have op: "list_all call_ok (op_metrics x s)" for x s
  proof (cases x)
    case (Pair ev op)
    then show ?thesis
      by (cases op) (simp_all add: Increment_metrics_def Decrement_metrics_def Reset_metrics_def SyncState_metrics_def Let_def metric_defs)
  qed
  have run: "list_all call_ok (run_metrics xs s)" by (induction xs arbitrary: s) (simp_all add: op del: op_metrics.simps)
  have seeds: "list_all call_ok (fst (seeds_metrics net elapsed n addr k ss lf s))" for k ss lf
  proof (induction ss arbitrary: lf)
    case (Cons x ss)
    show ?case using Cons.IH [of x] Cons.IH [of lf] by (auto simp: metric_defs split: visit.split prod.split)
  qed simp
  have "list_all call_ok (attempts_metrics net elapsed n addr ss k left s)" for ss k left
  proof (induction left arbitrary: k)
    case (Suc left)
    show ?case
      using Suc.IH [of "Suc k"] seeds [of k "rotateSeeds ss (k mod length ss)" "''''"]
      by (auto simp: Let_def metric_defs split: prod.split sum.split)
  qed simp
  then have "list_all call_ok (bootstrap_metrics net elapsed n addr seeds s)"
    by (simp add: bootstrap_metrics_def recovery_metrics_def Let_def metric_defs)
  moreover have "list_all call_ok (Restore_metrics state s @ ReplayWAL_metrics ev s @ gossip_metrics n res @
      auth_metrics a method ctx @ rate_metrics fl now n method r)"
    by (simp add: Restore_metrics_def ReplayWAL_metrics_def gossip_metrics_def auth_metrics_def rate_metrics_def Let_def metric_defs
        split: option.split prod.split)
  moreover have "set all_metrics = UNIV"
  proof -
    have "m \<in> set all_metrics" for m by (cases m) (simp_all add: all_metrics_def)
    then show ?thesis by auto
  qed
  moreover have "distinct (map (mo_Name \<circ> metric_opts_of) all_metrics)" by (simp add: all_metrics_def)
  ultimately show ?thesis using run by simp
qed

end
