(* ===== verification/Spec2Isabelle.thy ===== *)
theory Spec2Isabelle
  imports Delta_Run Full_Rounds Read_Order Gateway_Client Lifecycle Metrics
begin

text \<open>
  A verification of the distributed counter: a Go program whose nodes each keep a set of named counters, accept
  increments and decrements from clients, and exchange their states until all nodes report the same values.

  \<^bold>\<open>The program.\<close> A node is one process. \<open>cmd/server/main.go\<close> builds its parts, joins the cluster and starts the loops. The counters
  are one PN-counter with a vector clock beside it (\<open>internal/crdt\<close>); \<open>internal/service\<close> handles the RPCs on them;
  \<open>internal/gossip\<close> exchanges full states or deltas with random peers, guarded by a circuit breaker per peer;
  \<open>internal/cluster\<close> keeps the member table, which heartbeats, the timeout detector, the SWIM detector and the reports inside
  gossip messages all change; \<open>internal/election\<close> elects a leader; \<open>internal/persistence\<close> keeps a snapshot in Redis and the
  updates since then in a log; \<open>internal/server\<close> puts authentication and rate limiting in front of the RPCs;
  \<open>internal/admin\<close>, \<open>internal/gateway\<close> and \<open>internal/dashboard\<close> serve administration, HTTP and the web view.

  \<^bold>\<open>Theories.\<close> The state of a component is a record with the fields of its struct, prefixed; an operation is one
  function with the name of its method, prefixed where it would clash; an error is a value; a panic is \<open>None\<close>.

  \<^item> \<open>Go_Prelude\<close>: words for the machine integers, finite maps for Go's maps with \<open>range\<close> in an order the results are shown not
    to depend on (locale \<open>keywise_loop\<close>), strings, times. \<open>Replication\<close>: the contract of a merge (locales
    \<open>join_state\<close>, \<open>join_state_pair\<close> and \<open>join_image\<close>) and what follows from it for any exchange of states. \<open>Max_Merge\<close>: the merge loop
    by maximum satisfies the contract on maps with positive entries, and on any maps for their part above zero.
  \<^item> \<open>Json\<close>, \<open>Json_Struct\<close>: what the sources use of \<open>encoding/json\<close>: the text of a value, the parser, UTF-8, storing into a
    struct; a value is read back from its text, and a text cut short is refused.
  \<^item> \<open>PNCounter\<close>, \<open>VectorClock\<close>, \<open>Delta\<close>: \<open>pn_counter.go\<close>, \<open>vector_clock.go\<close>, \<open>delta.go\<close>. Values in 64 bits, merge as a join,
    names, and when a delta is as good as the whole state.
  \<^item> \<open>Proto\<close>: the messages. \<open>Membership\<close>, \<open>Swim\<close>: \<open>membership.go\<close>, \<open>swim.go\<close>, \<open>discovery.go\<close>; the invariant of the member table under every
    operation, what each detector may do to a member.
  \<^item> \<open>Circuit\<close>, \<open>Store\<close>, \<open>Wal\<close>, \<open>Election\<close>: \<open>circuit.go\<close>, \<open>redis.go\<close>, \<open>wal.go\<close>, \<open>bully.go\<close>. The log is a file whose writes may be
    cut short; the contracts of the store and of the log are the locales \<open>store_contract\<close> and \<open>log_contract\<close>.
  \<^item> \<open>Service\<close>, \<open>Recovery\<close>, \<open>Gossip\<close>: \<open>counter_service.go\<close>, the start of a node from snapshot and log, \<open>engine.go\<close>. What each
    handler answers; that a crash loses nothing that was logged; that gossip spreads the state.
  \<^item> \<open>Exactness\<close>: the specification of the whole: every node that has heard of all updates reports the sum of the deltas
    that clients sent. \<open>Delta_Run\<close>: the engines choose between deltas and full states, and the states are the same.
  \<^item> \<open>Full_Rounds\<close>: the rounds of one engine in sequence; a full state is sent among every \<open>fullSyncInterval\<close> rounds that the
    breakers let through, and reaches the peer if the network does.
  \<^item> \<open>Interleaving\<close>: handlers and the snapshot loop as threads of atomic actions under any schedule. \<open>Read_Order\<close>: building a gossip
    message beside them, in the order of the replies and in that of the engine.
  \<^item> \<open>Middleware\<close>, \<open>Admin\<close>, \<open>Server_Main\<close>: interceptors, credentials and configuration; administration and heartbeats; how a node is built,
    joins and recovers. \<open>Node_Run\<close>: the running node as a state machine, with its invariant.
  \<^item> \<open>Dashboard\<close>, \<open>Gateway\<close>: the cluster view; the routes of the HTTP gateway against the annotations of \<open>counter.proto\<close>, and its
    requests as steps of the node. \<open>Gateway_Client\<close>: the half of the generated gateway that forwards requests over a
    connection, which the program does not register, agrees with the other half. \<open>Lifecycle\<close>: the loops of \<open>main\<close>, tracing, and how the process ends.
  \<^item> \<open>Metrics\<close>: the metrics and the updates that each part makes of them, what they count, and what the dashboard shows of them.

  \<^bold>\<open>How they compose.\<close> \<open>Node_Run\<close> has a rule for every handler and tick; \<open>Lifecycle\<close> shows that the loops, and \<open>Gateway\<close> that HTTP
  requests, only take such steps, so that its invariant holds of the process. \<open>Recovery\<close> uses the contracts of store and
  log, \<open>Gossip\<close> and \<open>Exactness\<close> the contract of the merge, each through an interpretation on the code's own operations.

  \<^bold>\<open>Outside the sources.\<close> Redis answers, network outcomes, random choices, the clock and failing system calls are arguments of the operations.
  The grpc-gateway runtime is a record of functions; that its mux hands a request to the literal route with the same
  method and path, and to no other, are the hypotheses \<open>literal_mux\<close> and \<open>strict_mux\<close>. \<open>%q\<close> and the rounding of sums and quotients in \<open>float64\<close>
  (rate limiter, dashboard) are function arguments; the conversion of an integer to \<open>float64\<close>, which the gauge uses, is defined.

  \<^bold>\<open>Bounds and fuel.\<close> The JSON parser recurses on fuel that starts at the length of the text, which every step consumes, and refuses more than
  10000 levels as Go does. The wait of an election has fuel \<open>timeout / 50 ms + 2\<close>, shown to be enough.
  Log lines must be shorter than the 4 MiB of the scanner. Values are exact while the increments and decrements of a
  counter stay below \<open>2 ^ 63\<close> in sum. Recovery makes five attempts. Durations are nanoseconds in 64 bits, so that an interval of more than
  9223372036 seconds overflows.

  \<^bold>\<open>Negative deltas and colons.\<close> The handlers accept negative deltas, which may store counts at or below zero that no merge passes on. The
  theorems on gossip and recovery therefore speak of the part of a state above zero, or of states whose counts are all positive. Names and node
  ids with colons make namespaces overlap; what that does to an update is stated for every name.

  \<^bold>\<open>Granularity.\<close> In \<open>Node_Run\<close> a handler is one step, but handlers, resets, snapshots, table and election steps run while an exchange waits, and
  handlers while a probe, an election or the bootstrap does. During an exchange others act on the service, not on the engine: a reset that
  clears the baselines meanwhile is not covered. The breaker is asked at the start of an exchange and records a failure at its end.
  The counters of rounds and of failures are integers without bound. The wait of an election changes no state and is a
  definition of its own. In \<open>Interleaving\<close> the steps are the calls that hold a lock; it covers increments, decrements, resets and
  snapshots, not the merge of remote states. In \<open>Delta_Run\<close> rounds and handlers do not overlap; \<open>Read_Order\<close> shows what their overlap may do.

  \<^bold>\<open>Not modelled.\<close> The generated protobuf code and, of the generated gRPC code, everything but the client stubs that the gateway uses;
  the Prometheus library, of which \<open>gathers\<close> states what the dashboard relies on; \<open>pkg/logger\<close>, \<open>pkg/utils\<close> (not called), the manual test
  client, log messages and spans, the embedded page, and the listening and draining of the gRPC and HTTP servers.
\<close>

end
